(* ===== verification/Prelude.thy ===== *)
theory Prelude
  imports Main "HOL-Library.Char_ord" "HOL-Library.List_Lexorder" "HOL-Library.Product_Lexorder"
begin

text \<open>
  Shared vocabulary of the development: the scalar types of the program, the row operations that
  the Prisma calls of the services amount to (find, update, delete over a table), and the interface
  that a table with unique constraints offers to the services.

  \<^item> Text is \<open>string\<close>: each HOL character stands for one UTF-16 code unit below 256, so the model
    covers the Latin-1 fragment of JavaScript strings and \<open>length\<close> is JavaScript's \<open>length\<close>.
  \<^item> An instant is an \<open>int\<close>, the milliseconds of \<open>Date.getTime()\<close>.
  \<^item> Ids (UUIDv7 columns) are text; what the database or Node draws at random, and what the clock
    reads, are arguments of the operations.
\<close>

named_theorems row_simps \<open>how the row operations act on membership and on filters\<close>
named_theorems inv_intros \<open>preservation of the database invariants\<close>

type_synonym uuid = string
type_synonym time = int

section \<open>Row operations\<close>

text \<open>A table is the list of its rows in insertion order.\<close>

definition update_where :: "('r \<Rightarrow> bool) \<Rightarrow> ('r \<Rightarrow> 'r) \<Rightarrow> 'r list \<Rightarrow> 'r list" where
  "update_where P f t = map (\<lambda>r. if P r then f r else r) t"

definition delete_where :: "('r \<Rightarrow> bool) \<Rightarrow> 'r list \<Rightarrow> 'r list" where
  "delete_where P t = filter (\<lambda>r. \<not> P r) t"

definition count_where :: "('r \<Rightarrow> bool) \<Rightarrow> 'r list \<Rightarrow> nat" where
  "count_where P t = length (filter P t)"

text \<open>\<open>findFirst\<close> with an \<open>orderBy\<close>: the first row of the sorted result.\<close>

definition first_by :: "('r \<Rightarrow> 'k::linorder) \<Rightarrow> ('r \<Rightarrow> bool) \<Rightarrow> 'r list \<Rightarrow> 'r option" where
  "first_by key P t = (case sort_key key (filter P t) of [] \<Rightarrow> None | r # _ \<Rightarrow> Some r)"

lemma set_update_where [row_simps]:
  "r \<in> set (update_where P f t) \<longleftrightarrow> (\<exists>r0 \<in> set t. r = (if P r0 then f r0 else r0))"
  by (auto simp: update_where_def)

lemma set_delete_where [row_simps]: "set (delete_where P t) = {r \<in> set t. \<not> P r}"
  by (simp add: delete_where_def)

lemma update_where_Nil [simp]: "update_where P f [] = []"
  by (simp add: update_where_def)

lemma update_where_Cons [simp]:
  "update_where P f (r # t) = (if P r then f r else r) # update_where P f t"
  by (simp add: update_where_def)

lemma delete_where_Nil [simp]: "delete_where P [] = []"
  by (simp add: delete_where_def)

lemma delete_where_Cons [simp]:
  "delete_where P (r # t) = (if P r then delete_where P t else r # delete_where P t)"
  by (simp add: delete_where_def)

lemma count_where_0 [simp]: "count_where P t = 0 \<longleftrightarrow> (\<forall>r \<in> set t. \<not> P r)"
  by (simp add: count_where_def filter_empty_conv)

lemma count_where_append [simp]: "count_where P (t @ u) = count_where P t + count_where P u"
  by (simp add: count_where_def)

lemma count_where_Cons [simp]: "count_where P (r # t) = (if P r then 1 else 0) + count_where P t"
  by (simp add: count_where_def)

lemma count_where_Nil [simp]: "count_where P [] = 0"
  by (simp add: count_where_def)

lemma count_where_cong:
  "(\<And>r. r \<in> set t \<Longrightarrow> P r = Q r) \<Longrightarrow> count_where P t = count_where Q t"
  unfolding count_where_def by (metis filter_cong)

lemma count_where_update_where:
  "count_where P (update_where Q f t) = count_where (\<lambda>r. P (if Q r then f r else r)) t"
  by (induction t) auto

lemma count_where_delete_where:
  "count_where P (delete_where Q t) = count_where (\<lambda>r. P r \<and> \<not> Q r) t"
  by (induction t) auto

lemma count_where_one:
  assumes "distinct t"
  shows "count_where P t = 1 \<longleftrightarrow> (\<exists>r \<in> set t. P r \<and> (\<forall>r' \<in> set t. P r' \<longrightarrow> r' = r))"
proof -
  have "count_where P t = card {r \<in> set t. P r}"
    using assms by (metis count_where_def distinct_card distinct_filter set_filter)
  then show ?thesis
    by (auto simp: card_1_singleton_iff set_eq_iff)
qed

lemma count_where_le_one:
  assumes "distinct t"
  shows "count_where P t \<le> 1 \<longleftrightarrow> (\<forall>r \<in> set t. \<forall>r' \<in> set t. P r \<longrightarrow> P r' \<longrightarrow> r = r')"
proof -
  have "count_where P t = card {r \<in> set t. P r}"
    using assms by (metis count_where_def distinct_card distinct_filter set_filter)
  then show ?thesis
    by (auto simp: card_le_Suc0_iff_eq)
qed

lemma find_SomeD: "List.find P t = Some r \<Longrightarrow> r \<in> set t \<and> P r"
  by (induction t) (auto split: if_splits)

lemma find_NoneD: "List.find P t = None \<Longrightarrow> r \<in> set t \<Longrightarrow> \<not> P r"
  by (auto simp: find_None_iff)

lemma first_by_None [simp]: "first_by key P t = None \<longleftrightarrow> (\<forall>r \<in> set t. \<not> P r)"
proof -
  have "first_by key P t = None \<longleftrightarrow> sort_key key (filter P t) = []"
    by (simp add: first_by_def split: list.splits)
  also have "\<dots> \<longleftrightarrow> filter P t = []"
    by (metis length_0_conv length_sort)
  finally show ?thesis
    by (simp add: filter_empty_conv)
qed

lemma first_by_SomeD:
  assumes "first_by key P t = Some r"
  shows "r \<in> set t" and "P r" and "\<forall>r' \<in> set t. P r' \<longrightarrow> key r \<le> key r'"
proof -
  from assms obtain rest where sk: "sort_key key (filter P t) = r # rest"
    by (auto simp: first_by_def split: list.splits)
  have members: "set (r # rest) = {x \<in> set t. P x}"
    by (metis sk set_sort set_filter)
  then show "r \<in> set t" and "P r" by auto
  have "sorted (map key (r # rest))"
    by (metis sk sorted_sort_key)
  then have "\<forall>r' \<in> set (r # rest). key r \<le> key r'"
    by auto
  with members show "\<forall>r' \<in> set t. P r' \<longrightarrow> key r \<le> key r'"
    by blast
qed

section \<open>The interface of a table with unique constraints\<close>

text \<open>
  \<open>clash a b\<close> says that the rows \<open>a\<close> and \<open>b\<close> agree on one of the table's unique keys. The schema
  promises that no two rows of a table clash; an insert that would break this is refused with
  Prisma's error P2002, here \<open>None\<close>.
\<close>

definition no_clash :: "('r \<Rightarrow> 'r \<Rightarrow> bool) \<Rightarrow> 'r list \<Rightarrow> bool" where
  "no_clash clash t = sorted_wrt (\<lambda>a b. \<not> clash a b) t"

definition insert_row :: "('r \<Rightarrow> 'r \<Rightarrow> bool) \<Rightarrow> 'r \<Rightarrow> 'r list \<Rightarrow> 'r list option" where
  "insert_row clash r t = (if list_ex (clash r) t then None else Some (t @ [r]))"

locale unique_rows =
  fixes clash :: "'r \<Rightarrow> 'r \<Rightarrow> bool"
  assumes clash_refl: "clash a a"
    and clash_sym: "clash a b \<Longrightarrow> clash b a"
begin

lemma distinct_rows: "no_clash clash t \<Longrightarrow> distinct t"
  by (induction t) (auto simp: no_clash_def clash_refl)

lemma same_row:
  "no_clash clash t \<Longrightarrow> a \<in> set t \<Longrightarrow> b \<in> set t \<Longrightarrow> clash a b \<Longrightarrow> a = b"
  by (induction t) (auto simp: no_clash_def dest: clash_sym)

lemma no_clash_Nil: "no_clash clash []"
  by (simp add: no_clash_def)

lemma insert_Some:
  "insert_row clash r t = Some t' \<Longrightarrow> no_clash clash t
   \<Longrightarrow> t' = t @ [r] \<and> no_clash clash t' \<and> (\<forall>a \<in> set t. \<not> clash r a)"
  by (auto simp: insert_row_def no_clash_def sorted_wrt_append list_ex_iff split: if_splits)
    (metis clash_sym)

lemma insert_None: "insert_row clash r t = None \<longleftrightarrow> (\<exists>a \<in> set t. clash r a)"
  by (auto simp: insert_row_def list_ex_iff)

lemma insert_again:
  "insert_row clash r t = Some t' \<Longrightarrow> clash r r' \<Longrightarrow> insert_row clash r' t' = None"
  by (auto simp: insert_row_def list_ex_iff dest: clash_sym split: if_splits)

lemma no_clash_delete: "no_clash clash t \<Longrightarrow> no_clash clash (delete_where P t)"
  by (simp add: no_clash_def delete_where_def sorted_wrt_filter)

lemma no_clash_update:
  assumes "no_clash clash t"
    and "\<And>a b. clash (if P a then f a else a) (if P b then f b else b) \<Longrightarrow> clash a b"
  shows "no_clash clash (update_where P f t)"
proof -
  have "sorted_wrt (\<lambda>a b. \<not> clash (if P a then f a else a) (if P b then f b else b)) t"
    using assms(1) unfolding no_clash_def
    by (rule sorted_wrt_mono_rel [rotated]) (blast dest: assms(2))
  then show ?thesis
    by (simp add: no_clash_def update_where_def sorted_wrt_map)
qed

lemma find_key:
  assumes "no_clash clash t" and "r \<in> set t" and "P r"
    and "\<And>a b. P a \<Longrightarrow> P b \<Longrightarrow> clash a b"
  shows "List.find P t = Some r"
proof -
  have "List.find P t \<noteq> None"
    using assms(2,3) by (auto simp: find_None_iff)
  then obtain r' where r': "List.find P t = Some r'" by blast
  with find_SomeD have "r' \<in> set t" "P r'" by fast+
  with assms have "r' = r" by (blast intro: same_row)
  with r' show ?thesis by simp
qed

end

end
