(* ===== verification/Text.thy ===== *)
theory Text
  imports Prelude
begin

text \<open>
  JavaScript values and the string helpers of the backend: \<open>trim\<close> and \<open>toLowerCase\<close> of the
  language, the \<open>Trim\<close> decorator and \<open>normalizeEmail\<close>, \<open>isUuid\<close>
  (common/utils/uuid.ts) and \<open>parseDurationToMs\<close> (common/utils/duration.ts). The lemmas show
  that trimming and normalising are idempotent, what a UUID and a duration look like, and that a
  duration printed in any of the accepted spellings is read back.
\<close>

section \<open>JavaScript values\<close>

datatype jsval = JUndefined | JNull | JBool bool | JNum int | JStr string
  | JArr "jsval list" | JObj "(string \<times> jsval) list"

section \<open>Character classes\<close>

definition cp :: "char \<Rightarrow> nat" where
  "cp c = of_char c"

text \<open>\<open>WhiteSpace\<close> and \<open>LineTerminator\<close> below 256: what \<open>trim\<close> removes and \<open>\\s\<close> matches.\<close>

definition js_space :: "char \<Rightarrow> bool" where
  "js_space c \<longleftrightarrow> (9 \<le> cp c \<and> cp c \<le> 13) \<or> cp c = 32 \<or> cp c = 160"

definition is_digit :: "char \<Rightarrow> bool" where
  "is_digit c \<longleftrightarrow> 48 \<le> cp c \<and> cp c \<le> 57"

definition digit_val :: "char \<Rightarrow> nat" where
  "digit_val c = cp c - 48"

definition digit_char :: "nat \<Rightarrow> char" where
  "digit_char n = char_of (48 + n mod 10)"

lemma cp_char_of [simp]: "n < 256 \<Longrightarrow> cp (char_of n) = n"
  by (simp add: cp_def)

lemma is_digit_digit_char [simp]: "is_digit (digit_char n)"
  by (simp add: is_digit_def digit_char_def)

lemma digit_val_digit_char [simp]: "digit_val (digit_char n) = n mod 10"
  by (simp add: digit_val_def digit_char_def)

lemma digit_not_space: "is_digit c \<Longrightarrow> \<not> js_space c"
  by (auto simp: is_digit_def js_space_def)

section \<open>trim and toLowerCase\<close>

definition trim_start :: "string \<Rightarrow> string" where
  "trim_start s = dropWhile js_space s"

definition trim_end :: "string \<Rightarrow> string" where
  "trim_end s = rev (dropWhile js_space (rev s))"

definition js_trim :: "string \<Rightarrow> string" where
  "js_trim s = trim_end (trim_start s)"

text \<open>On Latin-1 \<open>toLowerCase\<close> maps \<open>A-Z\<close> and the accented capitals (not the multiplication sign).\<close>

definition lower_char :: "char \<Rightarrow> char" where
  "lower_char c =
     (if (65 \<le> cp c \<and> cp c \<le> 90) \<or> (192 \<le> cp c \<and> cp c \<le> 222 \<and> cp c \<noteq> 215)
      then char_of (cp c + 32) else c)"

text \<open>Evaluation first asks whether the code is below 64 or in the lower-case column, where nothing changes.\<close>

lemma lower_char_code [code]:
  "lower_char (Char b0 b1 b2 b3 b4 b5 b6 b7) = (if \<not> b7 \<and> (\<not> b6 \<or> b5) then Char b0 b1 b2 b3 b4 b5 b6 b7
     else let c = Char b0 b1 b2 b3 b4 b5 b6 b7 in
       if (65 \<le> cp c \<and> cp c \<le> 90) \<or> (192 \<le> cp c \<and> cp c \<le> 222 \<and> cp c \<noteq> 215) then char_of (cp c + 32) else c)"
  by (cases b0; cases b1; cases b2; cases b3; cases b4; cases b5; cases b6; cases b7)
    (simp_all add: lower_char_def cp_def)

definition to_lower :: "string \<Rightarrow> string" where
  "to_lower s = map lower_char s"

definition trimmed :: "string \<Rightarrow> bool" where
  "trimmed s \<longleftrightarrow> s = [] \<or> \<not> js_space (hd s) \<and> \<not> js_space (last s)"

lemma trim_start_hd: "trim_start s \<noteq> [] \<Longrightarrow> \<not> js_space (hd (trim_start s))"
  by (simp add: trim_start_def hd_dropWhile)

lemma trim_end_last: "trim_end s \<noteq> [] \<Longrightarrow> \<not> js_space (last (trim_end s))"
  by (simp add: trim_end_def last_rev hd_dropWhile)

lemma trim_end_hd: "trim_end s \<noteq> [] \<Longrightarrow> hd (trim_end s) = hd s"
proof -
  assume ne: "trim_end s \<noteq> []"
  have "s = trim_end s @ rev (takeWhile js_space (rev s))"
    unfolding trim_end_def by (metis rev_append rev_rev_ident takeWhile_dropWhile_id)
  then show ?thesis
    using ne by (metis hd_append2)
qed

lemma trimmed_js_trim: "trimmed (js_trim s)"
proof (cases "js_trim s = []")
  case True
  then show ?thesis by (simp add: trimmed_def)
next
  case False
  then have ne: "trim_end (trim_start s) \<noteq> []" by (simp add: js_trim_def)
  then have "trim_start s \<noteq> []" by (auto simp: trim_end_def)
  with ne show ?thesis
    by (simp add: trimmed_def js_trim_def trim_end_last trim_end_hd trim_start_hd)
qed

lemma js_trim_trimmed:
  assumes "trimmed s"
  shows "js_trim s = s"
proof (cases "s = []")
  case True
  then show ?thesis by (simp add: js_trim_def trim_start_def trim_end_def)
next
  case False
  then have "trim_start s = s"
    using assms by (cases s) (auto simp: trimmed_def trim_start_def)
  moreover have "dropWhile js_space (rev s) = rev s"
    using assms by (auto simp: trimmed_def dropWhile_eq_self_iff hd_rev)
  then have "trim_end s = s"
    by (simp add: trim_end_def)
  ultimately show ?thesis by (simp add: js_trim_def)
qed

lemma js_trim_idem [simp]: "js_trim (js_trim s) = js_trim s"
  by (simp add: js_trim_trimmed trimmed_js_trim)

lemma length_js_trim: "length (js_trim s) \<le> length s"
proof -
  have "length (trim_end t) \<le> length t" for t
    by (simp add: trim_end_def) (metis length_dropWhile_le length_rev)
  moreover have "length (trim_start s) \<le> length s"
    by (simp add: trim_start_def length_dropWhile_le)
  ultimately show ?thesis
    unfolding js_trim_def by (meson le_trans)
qed

lemma cp_less [simp]: "cp c < 256"
  by (simp add: cp_def)

lemma lower_char_idem [simp]: "lower_char (lower_char c) = lower_char c"
  by (auto simp: lower_char_def)

lemma lower_char_space [simp]: "js_space (lower_char c) = js_space c"
  by (auto simp: lower_char_def js_space_def)

lemma to_lower_idem [simp]: "to_lower (to_lower s) = to_lower s"
  by (simp add: to_lower_def)

lemma length_to_lower [simp]: "length (to_lower s) = length s"
  by (simp add: to_lower_def)

lemma trimmed_to_lower: "trimmed s \<Longrightarrow> trimmed (to_lower s)"
  by (auto simp: trimmed_def to_lower_def hd_map last_map)

section \<open>The decorators Trim and normalizeEmail\<close>

text \<open>Both take whatever class-transformer hands them and pass non-strings through.\<close>

definition trim_value :: "jsval \<Rightarrow> jsval" where
  "trim_value v = (case v of JStr s \<Rightarrow> JStr (js_trim s) | _ \<Rightarrow> v)"

definition normalize_email_text :: "string \<Rightarrow> string" where
  "normalize_email_text s = to_lower (js_trim s)"

definition normalize_email :: "jsval \<Rightarrow> jsval" where
  "normalize_email v = (case v of JStr s \<Rightarrow> JStr (normalize_email_text s) | _ \<Rightarrow> v)"

lemma normalize_email_text_idem [simp]:
  "normalize_email_text (normalize_email_text s) = normalize_email_text s"
proof -
  have "js_trim (to_lower (js_trim s)) = to_lower (js_trim s)"
    by (intro js_trim_trimmed trimmed_to_lower trimmed_js_trim)
  then show ?thesis by (simp add: normalize_email_text_def)
qed

text \<open>Bounds of a DTO field. \<open>@IsString @MinLength(lo) @MaxLength(hi)\<close>.\<close>

definition bounded_text :: "nat \<Rightarrow> nat \<Rightarrow> jsval \<Rightarrow> string option" where
  "bounded_text lo hi v = (case v of
     JStr s \<Rightarrow> (if lo \<le> length s \<and> length s \<le> hi then Some s else None) | _ \<Rightarrow> None)"

section \<open>Decimal notation\<close>

fun dec :: "nat \<Rightarrow> string" where
  "dec n = (if n < 10 then [digit_char n] else dec (n div 10) @ [digit_char n])"

declare dec.simps [simp del]

definition undec :: "string \<Rightarrow> nat" where
  "undec s = foldl (\<lambda>n c. 10 * n + digit_val c) 0 s"

lemma dec_nonempty [simp]: "dec n \<noteq> []"
  by (subst dec.simps) simp

lemma dec_digits: "c \<in> set (dec n) \<Longrightarrow> is_digit c"
proof (induction n rule: dec.induct)
  case (1 n)
  then show ?case by (subst (asm) dec.simps) (auto split: if_splits)
qed

lemma undec_dec [simp]: "undec (dec n) = n"
proof (induction n rule: dec.induct)
  case (1 n)
  show ?case
  proof (cases "n < 10")
    case True
    then show ?thesis by (subst dec.simps) (simp add: undec_def)
  next
    case False
    with 1 have "undec (dec (n div 10)) = n div 10" by simp
    with False show ?thesis by (subst dec.simps) (simp add: undec_def)
  qed
qed

lemma dec_inj [simp]: "dec m = dec n \<longleftrightarrow> m = n"
  by (metis undec_dec)

section \<open>UUIDs (common/utils/uuid.ts)\<close>

definition is_hex :: "char \<Rightarrow> bool" where
  "is_hex c \<longleftrightarrow> is_digit c \<or> (97 \<le> cp c \<and> cp c \<le> 102) \<or> (65 \<le> cp c \<and> cp c \<le> 70)"

text \<open>The pattern \<open>UUID_RE\<close>: hexadecimal digits in groups of 8, 4, 4, 4 and 12.\<close>

definition uuid_re :: "string \<Rightarrow> bool" where
  "uuid_re s \<longleftrightarrow> length s = 36 \<and>
     list_all (\<lambda>i. if i \<in> {8, 13, 18, 23} then s ! i = CHR ''-'' else is_hex (s ! i)) [0..<36]"

definition is_uuid :: "jsval \<Rightarrow> bool" where
  "is_uuid v = (case v of JStr s \<Rightarrow> uuid_re s | _ \<Rightarrow> False)"

lemma uuid_re_chars: "uuid_re s \<Longrightarrow> c \<in> set s \<Longrightarrow> is_hex c \<or> c = CHR ''-''"
  unfolding uuid_re_def list_all_iff in_set_conv_nth set_upt atLeastLessThan_iff Ball_def
  by (metis le0)

lemma uuid_re_no_colon: "uuid_re s \<Longrightarrow> CHR '':'' \<notin> set s"
proof
  assume "uuid_re s" and "CHR '':'' \<in> set s"
  then have "is_hex CHR '':''"
    using uuid_re_chars by fastforce
  then show False
    by (simp add: is_hex_def is_digit_def cp_def)
qed

text \<open>
  What a column of type \<open>uuid\<close> makes of such a text, as a filter or as a stored value: either case
  is read, and the value is the lower-case text.
\<close>

definition as_uuid :: "string \<Rightarrow> uuid" where
  "as_uuid s = to_lower s"

lemma as_uuid_idem [simp]: "as_uuid (as_uuid s) = as_uuid s"
  by (simp add: as_uuid_def)

lemma uuid_re_nonempty: "uuid_re s \<Longrightarrow> s \<noteq> []"
  by (auto simp: uuid_re_def)

section \<open>Durations (common/utils/duration.ts)\<close>

text \<open>\<open>UNIT_MS\<close>: milliseconds per unit letter.\<close>

definition unit_ms :: "char \<Rightarrow> nat option" where
  "unit_ms u = map_of [(CHR ''s'', 1000), (CHR ''m'', 60 * 1000), (CHR ''h'', 60 * 60 * 1000),
     (CHR ''d'', 24 * 60 * 60 * 1000)] u"

text \<open>
  The regular expression \<open>^(\\d+)\\s*([smhd])$\<close> on the trimmed text: digits, spaces and unit letters
  are disjoint, so the greedy match is the only one. An invalid text is the thrown \<open>Error\<close>, here
  \<open>Inl\<close> of the offending value. The amount is the exact integer.
\<close>

definition parse_duration_to_ms :: "string \<Rightarrow> string + nat" where
  "parse_duration_to_ms value =
     (let t = js_trim value;
          amount = takeWhile is_digit t;
          rest = dropWhile js_space (dropWhile is_digit t)
      in if amount = [] then Inl value
         else case rest of
             [u] \<Rightarrow> (case unit_ms u of Some ms \<Rightarrow> Inr (undec amount * ms) | None \<Rightarrow> Inl value)
           | _ \<Rightarrow> Inl value)"

lemma unit_ms_not_space_or_digit: "unit_ms u = Some ms \<Longrightarrow> \<not> js_space u \<and> \<not> is_digit u"
  by (auto simp: unit_ms_def js_space_def is_digit_def cp_def split: if_splits)

lemma js_trim_pad:
  assumes "\<forall>c \<in> set p. js_space c" and "\<forall>c \<in> set q. js_space c" and "trimmed s" and "s \<noteq> []"
  shows "js_trim (p @ s @ q) = s"
proof -
  have "dropWhile js_space (p @ s @ q) = s @ q"
    using assms by (cases s) (auto simp: trimmed_def)
  moreover have "rev (dropWhile js_space (rev (s @ q))) = s"
  proof -
    have "dropWhile js_space (rev s) = rev s"
      using assms(3) by (auto simp: trimmed_def dropWhile_eq_self_iff hd_rev)
    moreover have "dropWhile js_space (rev q @ rev s) = dropWhile js_space (rev s)"
      using assms(2) by (intro dropWhile_append2) simp
    ultimately show ?thesis by simp
  qed
  ultimately show ?thesis
    by (simp add: js_trim_def trim_start_def trim_end_def)
qed

lemma takeWhile_dec: "\<not> is_digit (hd (s @ [u])) \<Longrightarrow> takeWhile is_digit (dec n @ s @ [u]) = dec n"
  by (subst takeWhile_append2) (auto simp: dec_digits takeWhile_eq_Nil_iff)

lemma dropWhile_dec: "\<not> is_digit (hd (s @ [u])) \<Longrightarrow> dropWhile is_digit (dec n @ s @ [u]) = s @ [u]"
  by (subst dropWhile_append2) (auto simp: dec_digits dropWhile_eq_self_iff)

lemma parse_duration_print:
  assumes "unit_ms u = Some ms" and "\<forall>c \<in> set p \<union> set gap \<union> set q. js_space c"
  shows "parse_duration_to_ms (p @ dec n @ gap @ [u] @ q) = Inr (n * ms)"
proof -
  let ?s = "dec n @ gap @ [u]"
  have u: "\<not> js_space u" "\<not> is_digit u"
    using unit_ms_not_space_or_digit [OF assms(1)] by auto
  have gap: "\<not> is_digit (hd (gap @ [u]))"
    using assms(2) u digit_not_space by (cases gap) auto
  have "is_digit (hd (dec n))"
    by (intro dec_digits [of _ n] hd_in_set) simp
  then have "trimmed ?s"
    using u by (auto simp: trimmed_def dest: digit_not_space)
  then have "js_trim (p @ ?s @ q) = ?s"
    using assms(2) by (intro js_trim_pad) auto
  then have trim: "js_trim (p @ dec n @ gap @ [u] @ q) = ?s" by simp
  have "dropWhile js_space (gap @ [u]) = [u]"
    using assms(2) u by auto
  then show ?thesis
    unfolding parse_duration_to_ms_def Let_def trim takeWhile_dec [OF gap] dropWhile_dec [OF gap]
    by (simp add: assms(1))
qed

lemma parse_duration_InrD:
  assumes "parse_duration_to_ms value = Inr ms"
  shows "\<exists>n u k. unit_ms u = Some k \<and> ms = n * k"
  using assms by (auto simp: parse_duration_to_ms_def Let_def split: if_splits list.splits option.splits)

end
