(* ===== verification/HttpErrors.thy ===== *)
theory HttpErrors
  imports Text
begin

text \<open>
  The HTTP boundary shared by every component: the exceptions the services throw, the mapping of
  Prisma errors (common/filters/prisma-error.mapper.ts), the catch-all filter
  (common/filters/all-exceptions.filter.ts), the success envelope
  (common/interceptors/response.interceptor.ts, common/http/api-response.ts), the UUID pipe and the
  global JWT guard. The lemmas show which status and code each exception gets, that nothing of an
  unexpected error reaches the client, and how the two envelopes are told apart.
\<close>

section \<open>Exceptions\<close>

text \<open>\<open>Prisma.PrismaClientKnownRequestError\<close>: the code, and for P2002 the \<open>meta.target\<close> columns.\<close>

datatype prisma_error = P2002 "string list option" | P2025 | P2003 | PrismaOther string

text \<open>
  What \<open>HttpException.getResponse()\<close> returns: a text, or an object whose \<open>message\<close> is absent, a
  text, or (from the ValidationPipe) a list of constraint texts.
\<close>

datatype message_field = NoMessage | Message string | Messages "string list"

datatype payload = PayloadText string | PayloadObject message_field

text \<open>A thrown value: an \<open>HttpException\<close> (status, payload, own message), a Prisma error, or any other.\<close>

datatype exn = HttpExn nat payload string | PrismaExn prisma_error | OtherExn string

text \<open>Nest's named exceptions carry their message in the payload object and on the exception.\<close>

definition http_error :: "nat \<Rightarrow> string \<Rightarrow> exn" where
  "http_error status msg = HttpExn status (PayloadObject (Message msg)) msg"

abbreviation bad_request :: "string \<Rightarrow> exn" where "bad_request \<equiv> http_error 400"
abbreviation unauthorized :: "string \<Rightarrow> exn" where "unauthorized \<equiv> http_error 401"
abbreviation forbidden :: "string \<Rightarrow> exn" where "forbidden \<equiv> http_error 403"
abbreviation not_found :: "string \<Rightarrow> exn" where "not_found \<equiv> http_error 404"
abbreviation conflict :: "string \<Rightarrow> exn" where "conflict \<equiv> http_error 409"
abbreviation service_unavailable :: "string \<Rightarrow> exn" where "service_unavailable \<equiv> http_error 503"

lemma http_error_inject [simp]: "http_error s m = http_error s' m' \<longleftrightarrow> s = s' \<and> m = m'"
  by (auto simp: http_error_def)

lemma http_error_distinct [simp]:
  "http_error s m \<noteq> PrismaExn e" "PrismaExn e \<noteq> http_error s m"
  "http_error s m \<noteq> OtherExn t" "OtherExn t \<noteq> http_error s m"
  by (auto simp: http_error_def)

text \<open>A DTO that fails validation is a 400 whose payload lists the constraints; the list is left out.\<close>

definition validation_failed :: exn where
  "validation_failed = HttpExn 400 (PayloadObject (Messages [])) ''Bad Request Exception''"

section \<open>Error codes and bodies (common/http/api-response.ts)\<close>

datatype error_code = VALIDATION_ERROR | UNAUTHORIZED | FORBIDDEN | NOT_FOUND | CONFLICT
  | BAD_REQUEST | INTERNAL_ERROR | SERVICE_UNAVAILABLE

record error_response =
  er_code :: error_code
  er_message :: string
  er_details :: "string list option"

section \<open>mapPrismaError\<close>

fun join_with :: "string \<Rightarrow> string list \<Rightarrow> string" where
  "join_with sep [] = []"
| "join_with sep [x] = x"
| "join_with sep (x # y # ys) = x @ sep @ join_with sep (y # ys)"

definition map_prisma_error :: "prisma_error \<Rightarrow> nat \<times> error_code \<times> string" where
  "map_prisma_error e = (case e of
     P2002 target \<Rightarrow>
       (let joined = (case target of None \<Rightarrow> [] | Some cols \<Rightarrow> join_with '', '' cols)
        in (409, CONFLICT,
            if joined \<noteq> [] then ''A record with this '' @ joined @ '' already exists''
            else ''A record with these values already exists''))
   | P2025 \<Rightarrow> (404, NOT_FOUND, ''The requested record does not exist'')
   | P2003 \<Rightarrow> (400, BAD_REQUEST, ''Referenced record does not exist'')
   | PrismaOther c \<Rightarrow> (500, INTERNAL_ERROR, ''A database error occurred''))"

section \<open>AllExceptionsFilter\<close>

definition code_for_status :: "nat \<Rightarrow> error_code" where
  "code_for_status status =
     (if status = 400 then BAD_REQUEST
      else if status = 401 then UNAUTHORIZED
      else if status = 403 then FORBIDDEN
      else if status = 404 then NOT_FOUND
      else if status = 409 then CONFLICT
      else if status = 503 then SERVICE_UNAVAILABLE
      else if status \<ge> 500 then INTERNAL_ERROR else BAD_REQUEST)"

definition from_http_exception :: "nat \<Rightarrow> payload \<Rightarrow> string \<Rightarrow> nat \<times> error_response" where
  "from_http_exception status p own =
     (case p of
        PayloadObject (Messages ms) \<Rightarrow>
          (status, \<lparr>er_code = VALIDATION_ERROR, er_message = ''Request validation failed'',
                    er_details = Some ms\<rparr>)
      | _ \<Rightarrow>
          (let message = (case p of PayloadText t \<Rightarrow> t
                          | PayloadObject (Message m) \<Rightarrow> m | PayloadObject _ \<Rightarrow> own)
           in (status, \<lparr>er_code = code_for_status status, er_message = message, er_details = None\<rparr>)))"

definition build_error :: "exn \<Rightarrow> nat \<times> error_response" where
  "build_error exception = (case exception of
     PrismaExn e \<Rightarrow>
       (case map_prisma_error e of
          (status, code, message) \<Rightarrow>
            (status, \<lparr>er_code = code, er_message = message, er_details = None\<rparr>))
   | HttpExn status p own \<Rightarrow> from_http_exception status p own
   | OtherExn t \<Rightarrow>
       (500, \<lparr>er_code = INTERNAL_ERROR, er_message = ''An unexpected error occurred'',
              er_details = None\<rparr>))"

text \<open>What the logger receives: an error line with the stack, or a warning line.\<close>

datatype log_line = LogError string exn | LogWarn string

definition is_fault :: "nat \<Rightarrow> bool" where
  "is_fault status \<longleftrightarrow> status \<ge> 500 \<and> status \<noteq> 503"

fun code_text :: "error_code \<Rightarrow> string" where
  "code_text VALIDATION_ERROR = ''VALIDATION_ERROR''"
| "code_text UNAUTHORIZED = ''UNAUTHORIZED''"
| "code_text FORBIDDEN = ''FORBIDDEN''"
| "code_text NOT_FOUND = ''NOT_FOUND''"
| "code_text CONFLICT = ''CONFLICT''"
| "code_text BAD_REQUEST = ''BAD_REQUEST''"
| "code_text INTERNAL_ERROR = ''INTERNAL_ERROR''"
| "code_text SERVICE_UNAVAILABLE = ''SERVICE_UNAVAILABLE''"

fun prisma_code_text :: "prisma_error \<Rightarrow> string" where
  "prisma_code_text (P2002 t) = ''P2002''"
| "prisma_code_text P2025 = ''P2025''"
| "prisma_code_text P2003 = ''P2003''"
| "prisma_code_text (PrismaOther c) = c"

definition filter_catch :: "string \<Rightarrow> string \<Rightarrow> exn \<Rightarrow> log_line \<times> nat \<times> error_response" where
  "filter_catch method url exception =
     (case build_error exception of
        (status, body) \<Rightarrow>
          (if is_fault status
           then LogError (method @ '' '' @ url @ '' -> '' @ dec status) exception
           else LogWarn (method @ '' '' @ url @ '' -> '' @ dec status @ '' '' @ code_text (er_code body)
                  @ (case exception of PrismaExn e \<Rightarrow> '' (Prisma '' @ prisma_code_text e @ '')''
                     | _ \<Rightarrow> [])),
           status, body))"

lemma code_for_status_internal [simp]:
  "code_for_status s = INTERNAL_ERROR \<longleftrightarrow> s \<ge> 500 \<and> s \<noteq> 503"
  by (auto simp: code_for_status_def)

lemma code_for_status_unavailable [simp]:
  "code_for_status s = SERVICE_UNAVAILABLE \<longleftrightarrow> s = 503"
  by (auto simp: code_for_status_def)

lemma code_for_status_not_validation [simp]: "code_for_status s \<noteq> VALIDATION_ERROR"
  by (auto simp: code_for_status_def)

lemma build_error_http_error [simp]:
  "build_error (http_error s m) =
     (s, \<lparr>er_code = code_for_status s, er_message = m, er_details = None\<rparr>)"
  by (simp add: build_error_def http_error_def from_http_exception_def)

text \<open>
  Every error the API answers with, whatever was thrown: the details are filled exactly on
  validation failures; apart from those the code INTERNAL_ERROR goes with the fault statuses, and
  with nothing else; a fault is logged with the thrown value, everything else only as a warning.
\<close>

lemma filter_catch_code_matches_status:
  assumes "filter_catch method url e = (l, s, b)"
  shows "(er_details b \<noteq> None \<longleftrightarrow> er_code b = VALIDATION_ERROR)
    \<and> (er_code b \<noteq> VALIDATION_ERROR \<longrightarrow> (er_code b = INTERNAL_ERROR \<longleftrightarrow> is_fault s)
         \<and> (er_code b = SERVICE_UNAVAILABLE \<longleftrightarrow> s = 503))
    \<and> ((\<exists>t. l = LogError t e) \<longleftrightarrow> is_fault s)"
  using assms
  by (auto simp: filter_catch_def build_error_def map_prisma_error_def from_http_exception_def
      is_fault_def Let_def split: exn.splits prisma_error.splits payload.splits
      message_field.splits if_splits)

lemma other_exn_opaque:
  "build_error (OtherExn t) = build_error (OtherExn t')"
  "build_error (PrismaExn (PrismaOther c)) = build_error (PrismaExn (PrismaOther c'))"
  by (simp_all add: build_error_def map_prisma_error_def)

section \<open>The success envelope (ResponseInterceptor)\<close>

record success_response =
  sr_data :: jsval
  sr_message :: "string option"
  sr_meta :: "jsval option"

definition is_paginated_payload :: "jsval \<Rightarrow> bool" where
  "is_paginated_payload v = (case v of
     JObj kvs \<Rightarrow> ''data'' \<in> fst ` set kvs \<and> ''meta'' \<in> fst ` set kvs \<and> length kvs = 2
   | _ \<Rightarrow> False)"

definition field :: "string \<Rightarrow> (string \<times> jsval) list \<Rightarrow> jsval" where
  "field k kvs = (case map_of kvs k of Some v \<Rightarrow> v | None \<Rightarrow> JUndefined)"

definition wrap_response :: "string option \<Rightarrow> jsval \<Rightarrow> success_response" where
  "wrap_response message payload =
     (let shown = (case message of Some m \<Rightarrow> (if m \<noteq> [] then Some m else None) | None \<Rightarrow> None)
      in case payload of
        JObj kvs \<Rightarrow>
          (if is_paginated_payload payload
           then \<lparr>sr_data = field ''data'' kvs, sr_message = shown, sr_meta = Some (field ''meta'' kvs)\<rparr>
           else \<lparr>sr_data = payload, sr_message = shown, sr_meta = None\<rparr>)
      | JUndefined \<Rightarrow> \<lparr>sr_data = JNull, sr_message = shown, sr_meta = None\<rparr>
      | _ \<Rightarrow> \<lparr>sr_data = payload, sr_message = shown, sr_meta = None\<rparr>)"

lemma wrap_response_paginated:
  "wrap_response m (JObj [(''data'', x), (''meta'', y)]) =
     \<lparr>sr_data = x, sr_message = sr_message (wrap_response m JNull), sr_meta = Some y\<rparr>"
  by (simp add: wrap_response_def is_paginated_payload_def field_def Let_def)

lemma wrap_response_plain:
  "\<not> is_paginated_payload v \<Longrightarrow>
     sr_meta (wrap_response m v) = None
     \<and> sr_data (wrap_response m v) = (if v = JUndefined then JNull else v)"
  by (cases v) (auto simp: wrap_response_def Let_def is_paginated_payload_def)

section \<open>Pipes and the authentication guard\<close>

definition parse_uuid_pipe :: "string \<Rightarrow> exn + string" where
  "parse_uuid_pipe value =
     (if \<not> is_uuid (JStr value) then Inl (bad_request ''Invalid id: expected a UUID'') else Inr value)"

record auth_user =
  au_userId :: uuid
  au_email :: string

record jwt_payload =
  jp_sub :: uuid
  jp_email :: string

text \<open>\<open>JwtStrategy.validate\<close>: the verified claims become the principal, without a database read.\<close>

definition jwt_validate :: "jwt_payload \<Rightarrow> auth_user" where
  "jwt_validate p = \<lparr>au_userId = jp_sub p, au_email = jp_email p\<rparr>"

text \<open>
  Passport's verification of the bearer token (signature and expiry) is the parameter
  \<open>verify_token\<close>. The guard reads the \<open>isPublic\<close> metadata of the handler, then of the controller
  (\<open>getAllAndOverride\<close>), and returns the principal put on the request, if any.
\<close>

definition get_all_and_override :: "'a option \<Rightarrow> 'a option \<Rightarrow> 'a option" where
  "get_all_and_override handler controller =
     (case handler of Some v \<Rightarrow> Some v | None \<Rightarrow> controller)"

definition jwt_auth_guard ::
  "(string \<Rightarrow> jwt_payload option) \<Rightarrow> bool option \<Rightarrow> bool option \<Rightarrow> string option
    \<Rightarrow> exn + auth_user option" where
  "jwt_auth_guard verify_token handler_meta class_meta bearer =
     (if get_all_and_override handler_meta class_meta = Some True then Inr None
      else case Option.bind bearer verify_token of
          Some p \<Rightarrow> Inr (Some (jwt_validate p))
        | None \<Rightarrow> Inl (unauthorized ''Unauthorized''))"

lemma jwt_auth_guard_protected:
  "jwt_auth_guard verify None None bearer = Inr au \<Longrightarrow>
     \<exists>t p. bearer = Some t \<and> verify t = Some p \<and> au = Some (jwt_validate p)"
  by (auto simp: jwt_auth_guard_def get_all_and_override_def bind_eq_Some_conv split: option.splits)

end
