(* ===== verification/Cursor.thy ===== *)
theory Cursor
  imports HttpErrors
begin

text \<open>
  The opaque pagination cursor (backend/src/common/utils/cursor.ts): \<open>encodeCursor\<close> and
  \<open>decodeCursor\<close> with the parts of the JavaScript library they use: \<open>base64url\<close> of \<open>Buffer\<close>,
  \<open>toISOString\<close> and the ISO form of \<open>new Date(text)\<close>, \<open>JSON.stringify\<close> and \<open>JSON.parse\<close>.

  Modelled exactly on ASCII. What the documentation leaves open, or what Latin-1 text cannot show, is
  an argument: \<open>exotic\<close> is what \<open>decodeCursor\<close> does with a cursor that has characters outside the
  base64 alphabets, decodes to non-ASCII bytes, or uses a \<open>\\u\<close> escape; \<open>legacy\<close> is what \<open>new Date\<close>
  makes of a text that is not a valid date in the 24-character ISO form. The lemmas show the round
  trip, and that any other input is answered with one and the same 400. The interface \<open>codec\<close> is what
  the history pages rely on.
\<close>

section \<open>base64url\<close>

definition b64_alphabet :: string where
  "b64_alphabet = ''ABCDEFGHIJKLMNOPQRSTUVWXYZabcdefghijklmnopqrstuvwxyz0123456789-_''"

definition b64_char :: "nat \<Rightarrow> char" where
  "b64_char n = b64_alphabet ! (n mod 64)"

text \<open>\<open>Buffer.from\<close> reads the URL-safe and the plain alphabet alike.\<close>

definition b64_index :: "char \<Rightarrow> nat option" where
  "b64_index c =
     (if 65 \<le> cp c \<and> cp c \<le> 90 then Some (cp c - 65)
      else if 97 \<le> cp c \<and> cp c \<le> 122 then Some (cp c - 97 + 26)
      else if 48 \<le> cp c \<and> cp c \<le> 57 then Some (cp c - 48 + 52)
      else if c = CHR ''-'' \<or> c = CHR ''+'' then Some 62
      else if c = CHR ''_'' \<or> c = CHR ''/'' then Some 63
      else None)"

fun sextets :: "nat list \<Rightarrow> nat list" where
  "sextets (a # b # c # r) =
     (a div 4) # ((a mod 4) * 16 + b div 16) # ((b mod 16) * 4 + c div 64) # (c mod 64) # sextets r"
| "sextets [a, b] = [a div 4, (a mod 4) * 16 + b div 16, (b mod 16) * 4]"
| "sextets [a] = [a div 4, (a mod 4) * 16]"
| "sextets [] = []"

fun octets :: "nat list \<Rightarrow> nat list" where
  "octets (a # b # c # e # r) =
     (a * 4 + b div 16) # ((b mod 16) * 16 + c div 4) # ((c mod 4) * 64 + e) # octets r"
| "octets [a, b, c] = [a * 4 + b div 16, (b mod 16) * 16 + c div 4]"
| "octets [a, b] = [a * 4 + b div 16]"
| "octets [a] = []"
| "octets [] = []"

definition b64_encode :: "string \<Rightarrow> string" where
  "b64_encode s = map b64_char (sextets (map cp s))"

text \<open>\<open>None\<close>: a character outside the alphabets.\<close>

definition b64_decode :: "string \<Rightarrow> string option" where
  "b64_decode t = (if list_all (\<lambda>c. b64_index c \<noteq> None) t
     then Some (map char_of (octets (map (\<lambda>c. the (b64_index c)) t))) else None)"

lemma b64_alphabet_length: "length b64_alphabet = 64"
  by (simp add: b64_alphabet_def)

lemma b64_alphabet_index: "map b64_index b64_alphabet = map Some [0..<64]"
  by (simp add: b64_alphabet_def b64_index_def cp_def upt_conv_Cons)

lemma b64_index_char [simp]: "n < 64 \<Longrightarrow> b64_index (b64_char n) = Some n"
  using arg_cong [OF b64_alphabet_index, of "\<lambda>xs. xs ! n"] by (simp add: b64_char_def b64_alphabet_length)

lemma sextets_less: "list_all (\<lambda>a. a < 256) bs \<Longrightarrow> n \<in> set (sextets bs) \<Longrightarrow> n < 64"
  by (induction bs rule: sextets.induct) (auto simp: less_mult_imp_div_less)

lemma octets_sextets: "list_all (\<lambda>a. a < 256) bs \<Longrightarrow> octets (sextets bs) = bs"
proof (induction bs rule: sextets.induct)
  case (1 a b c r)
  then have "a < 256" "b < 256" "c < 256" "octets (sextets r) = r" by simp_all
  then show ?case by (simp; presburger)
next
  case (2 a b)
  then have "a < 256" "b < 256" by simp_all
  then show ?case by (simp; presburger)
next
  case (3 a)
  then have "a < 256" by simp
  then show ?case by (simp; presburger)
qed simp

lemma b64_roundtrip: "b64_decode (b64_encode s) = Some s"
proof -
  have small: "list_all (\<lambda>a. a < 256) (map cp s)"
    by (simp add: list_all_iff)
  have "list_all (\<lambda>c. b64_index c \<noteq> None) (b64_encode s)"
    using sextets_less [OF small] by (auto simp: b64_encode_def list_all_iff)
  moreover have "map (\<lambda>c. the (b64_index c)) (b64_encode s) = sextets (map cp s)"
    using sextets_less [OF small] by (auto simp: b64_encode_def intro: map_idI)
  ultimately show ?thesis
    using octets_sextets [OF small] by (simp add: b64_decode_def cp_def comp_def)
qed

section \<open>Dates\<close>

text \<open>The calendar of the language specification (ECMA-262, day number and year number).\<close>

definition leap_year :: "int \<Rightarrow> bool" where
  "leap_year y \<longleftrightarrow> y mod 4 = 0 \<and> (y mod 100 \<noteq> 0 \<or> y mod 400 = 0)"

definition year_days :: "int \<Rightarrow> int" where
  "year_days y = (if leap_year y then 366 else 365)"

definition day_from_year :: "int \<Rightarrow> int" where
  "day_from_year y = 365 * (y - 1970) + (y - 1969) div 4 - (y - 1901) div 100 + (y - 1601) div 400"

definition month_days :: "int \<Rightarrow> int list" where
  "month_days y = [31, if leap_year y then 29 else 28, 31, 30, 31, 30, 31, 31, 30, 31, 30, 31]"

text \<open>The year containing the day \<open>n\<close> days after the first of January of \<open>y\<close>, with the day in it.\<close>

function split_year :: "int \<Rightarrow> int \<Rightarrow> int \<times> int" where
  "split_year y n =
     (if n < 0 then split_year (y - 1) (n + year_days (y - 1))
      else if n < year_days y then (y, n) else split_year (y + 1) (n - year_days y))"
  by auto
termination
  by (relation "measure (\<lambda>(y, n). if n < 0 then nat (- n) + 400 else nat n)")
    (auto simp: year_days_def split: if_splits)

declare split_year.simps [simp del]

fun split_month :: "int list \<Rightarrow> nat \<Rightarrow> int \<Rightarrow> nat \<times> int" where
  "split_month [] m n = (m, n)"
| "split_month (l # ls) m n = (if n < l then (m, n) else split_month ls (Suc m) (n - l))"

fun pad :: "nat \<Rightarrow> nat \<Rightarrow> string" where
  "pad 0 n = []"
| "pad (Suc k) n = pad k (n div 10) @ [digit_char n]"

text \<open>\<open>toISOString\<close>: four digits for the years 0 to 9999, a sign and six digits beyond.\<close>

definition iso_year :: "int \<Rightarrow> string" where
  "iso_year y = (if 0 \<le> y \<and> y \<le> 9999 then pad 4 (nat y)
     else (if y < 0 then ''-'' else ''+'') @ pad 6 (nat \<bar>y\<bar>))"

definition to_iso :: "time \<Rightarrow> string" where
  "to_iso t =
     (let day = t div 86400000; ms = t mod 86400000;
          (y, yd) = split_year 1970 day;
          (m, md) = split_month (month_days y) 0 yd
      in iso_year y @ ''-'' @ pad 2 (m + 1) @ ''-'' @ pad 2 (nat md + 1) @ ''T''
         @ pad 2 (nat (ms div 3600000)) @ '':'' @ pad 2 (nat (ms div 60000 mod 60)) @ '':''
         @ pad 2 (nat (ms div 1000 mod 60)) @ ''.'' @ pad 3 (nat (ms mod 1000)) @ ''Z'')"

definition num_at :: "string \<Rightarrow> nat \<Rightarrow> nat \<Rightarrow> nat option" where
  "num_at s i k = (let ds = take k (drop i s) in if list_all is_digit ds then Some (undec ds) else None)"

definition iso_shape :: "string \<Rightarrow> bool" where
  "iso_shape s \<longleftrightarrow> length s = 24 \<and> s ! 4 = CHR ''-'' \<and> s ! 7 = CHR ''-'' \<and> s ! 10 = CHR ''T''
     \<and> s ! 13 = CHR '':'' \<and> s ! 16 = CHR '':'' \<and> s ! 19 = CHR ''.'' \<and> s ! 23 = CHR ''Z''"

definition make_time :: "nat \<Rightarrow> nat \<Rightarrow> nat \<Rightarrow> nat \<Rightarrow> nat \<Rightarrow> nat \<Rightarrow> nat \<Rightarrow> time option" where
  "make_time y m d hh mm ss ms =
     (if 1 \<le> m \<and> m \<le> 12 \<and> 1 \<le> d \<and> int d \<le> month_days (int y) ! (m - 1) \<and> hh < 24 \<and> mm < 60 \<and> ss < 60
      then Some ((day_from_year (int y) + sum_list (take (m - 1) (month_days (int y))) + int d - 1) * 86400000
                 + int hh * 3600000 + int mm * 60000 + int ss * 1000 + int ms)
      else None)"

text \<open>The ISO form with milliseconds and \<open>Z\<close>; \<open>None\<close> for any other text and for impossible dates.\<close>

definition parse_iso :: "string \<Rightarrow> time option" where
  "parse_iso s = (if \<not> iso_shape s then None
     else case (num_at s 0 4, num_at s 5 2, num_at s 8 2, num_at s 11 2, num_at s 14 2, num_at s 17 2,
                num_at s 20 3) of
         (Some y, Some m, Some d, Some hh, Some mm, Some ss, Some ms) \<Rightarrow> make_time y m d hh mm ss ms
       | _ \<Rightarrow> None)"

definition js_date :: "(string \<Rightarrow> time option) \<Rightarrow> string \<Rightarrow> time option" where
  "js_date legacy s = (case parse_iso s of Some t \<Rightarrow> Some t | None \<Rightarrow> legacy s)"

subsection \<open>The calendar is consistent\<close>

lemma div_step:
  assumes "0 < (k :: int)"
  shows "(a + 1) div k = a div k + (if (a + 1) mod k = 0 then 1 else 0)"
proof (cases "(a + 1) mod k = 0")
  case True
  then have "a = k * ((a + 1) div k - 1) + (k - 1)"
    by (simp add: right_diff_distrib minus_mod_eq_mult_div [symmetric])
  then have "a div k = (a + 1) div k - 1"
    by (rule int_div_pos_eq) (use assms in simp_all)
  with True show ?thesis by simp
next
  case False
  have r: "0 \<le> (a + 1) mod k" "(a + 1) mod k < k" using assms by simp_all
  have "a = k * ((a + 1) div k) + ((a + 1) mod k - 1)"
    by (simp add: minus_mod_eq_mult_div [symmetric])
  then have "a div k = (a + 1) div k"
    by (rule int_div_pos_eq) (use r False in simp_all)
  with False show ?thesis by simp
qed

lemma div_step':
  "0 < (k :: int) \<Longrightarrow> b = a + 1 \<Longrightarrow> b mod k = c \<Longrightarrow> b div k = a div k + (if c = 0 then 1 else 0)"
  using div_step by blast

lemma day_from_year_step: "day_from_year (y + 1) = day_from_year y + year_days y"
proof -
  have mods: "(y - 1968) mod 4 = y mod 4" "(y - 1900) mod 100 = y mod 100" "(y - 1600) mod 400 = y mod 400"
    using mod_mult_self1 [of y "- 492" 4] mod_mult_self1 [of y "- 19" 100] mod_mult_self1 [of y "- 4" 400]
    by simp_all
  have d4: "(y - 1968) div 4 = (y - 1969) div 4 + (if y mod 4 = 0 then 1 else 0)"
    by (rule div_step' [OF _ _ mods(1)]) simp_all
  have d100: "(y - 1900) div 100 = (y - 1901) div 100 + (if y mod 100 = 0 then 1 else 0)"
    by (rule div_step' [OF _ _ mods(2)]) simp_all
  have d400: "(y - 1600) div 400 = (y - 1601) div 400 + (if y mod 400 = 0 then 1 else 0)"
    by (rule div_step' [OF _ _ mods(3)]) simp_all
  have e: "y + 1 - 1970 = y - 1970 + 1" "y + 1 - 1969 = y - 1968" "y + 1 - 1901 = y - 1900"
    "y + 1 - 1601 = y - 1600"
    by simp_all
  have sum: "a = a' + i \<Longrightarrow> b = b' + j \<Longrightarrow> c = c' + k \<Longrightarrow>
      365 * (y - 1970 + 1) + a - b + c = 365 * (y - 1970) + a' - b' + c' + 365 + i - j + k"
    for a b c a' b' c' i j k :: int
    by simp
  have eq: "day_from_year (y + 1) = day_from_year y + 365 + (if y mod 4 = 0 then 1 else 0)
      - (if y mod 100 = 0 then 1 else 0) + (if y mod 400 = 0 then 1 else 0)"
    unfolding day_from_year_def e by (rule sum [OF d4 d100 d400])
  have divs: "y mod 400 = 0 \<longrightarrow> y mod 100 = 0" "y mod 100 = 0 \<longrightarrow> y mod 4 = 0"
    using dvd_trans [of 100 400 y] dvd_trans [of 4 100 y] by (auto simp: mod_eq_0_iff_dvd)
  have cases: "a = b + (if P \<and> (\<not> Q \<or> R) then 366 else 365)"
    if "a = b + 365 + (if P then 1 else 0) - (if Q then 1 else 0) + (if R then 1 else 0)" "R \<longrightarrow> Q" "Q \<longrightarrow> P"
    for P Q R and a b :: int
    using that by (cases P; cases Q; cases R) simp_all
  show ?thesis
    unfolding year_days_def leap_year_def by (rule cases [OF eq divs])
qed

lemma split_year_ok:
  "split_year y n = (y', r) \<Longrightarrow> 0 \<le> r \<and> r < year_days y' \<and> day_from_year y' + r = day_from_year y + n"
proof (induction y n rule: split_year.induct)
  case (1 y n)
  show ?case
  proof (cases "n < 0")
    case True
    with 1 have "0 \<le> r \<and> r < year_days y' \<and> day_from_year y' + r = day_from_year (y - 1) + (n + year_days (y - 1))"
      by (auto simp: split_year.simps [of y n])
    then show ?thesis using day_from_year_step [of "y - 1"] by simp
  next
    case False
    show ?thesis
    proof (cases "n < year_days y")
      case True
      with False 1(3) show ?thesis by (auto simp: split_year.simps [of y n])
    next
      case ge: False
      with False 1 have "0 \<le> r \<and> r < year_days y' \<and> day_from_year y' + r = day_from_year (y + 1) + (n - year_days y)"
        by (auto simp: split_year.simps [of y n])
      then show ?thesis using day_from_year_step [of y] by simp
    qed
  qed
qed

lemma split_month_ok:
  "split_month ls m n = (m', r) \<Longrightarrow> 0 \<le> n \<Longrightarrow> n < sum_list ls \<Longrightarrow>
     m \<le> m' \<and> m' < m + length ls \<and> 0 \<le> r \<and> r < ls ! (m' - m) \<and> n = sum_list (take (m' - m) ls) + r"
proof (induction ls m n rule: split_month.induct)
  case (2 l ls m n)
  show ?case
  proof (cases "n < l")
    case True
    with 2 show ?thesis by auto
  next
    case False
    with 2 have ih: "Suc m \<le> m' \<and> m' < Suc m + length ls \<and> 0 \<le> r \<and> r < ls ! (m' - Suc m)
        \<and> n - l = sum_list (take (m' - Suc m) ls) + r"
      by simp
    then have "m' - m = Suc (m' - Suc m)" by (simp add: Suc_diff_Suc)
    with ih show ?thesis by simp
  qed
qed simp

lemma sum_month_days: "sum_list (month_days y) = year_days y"
  by (simp add: month_days_def year_days_def)

lemma day_from_year_mono: "y \<le> y' \<Longrightarrow> day_from_year y \<le> day_from_year y'"
proof (induction y' rule: int_ge_induct)
  case (step i)
  then show ?case using day_from_year_step [of i] by (simp add: year_days_def split: if_splits)
qed simp

lemma split_year_range:
  assumes "split_year y n = (y', r)" and "day_from_year 0 \<le> day_from_year y + n"
    and "day_from_year y + n < day_from_year 10000"
  shows "0 \<le> y' \<and> y' \<le> 9999"
proof -
  note s = split_year_ok [OF assms(1)]
  have "\<not> y' < 0"
  proof
    assume "y' < 0"
    then have "day_from_year (y' + 1) \<le> day_from_year 0" by (intro day_from_year_mono) simp
    with s assms(2) show False by (simp add: day_from_year_step)
  qed
  moreover have "\<not> 10000 \<le> y'"
  proof
    assume "10000 \<le> y'"
    then have "day_from_year 10000 \<le> day_from_year y'" by (rule day_from_year_mono)
    with s assms(3) show False by simp
  qed
  ultimately show ?thesis by simp
qed

subsection \<open>Digits\<close>

lemma length_pad [simp]: "length (pad k n) = k"
  by (induction k arbitrary: n) auto

lemma pad_digits [simp]: "list_all is_digit (pad k n)"
  by (induction k arbitrary: n) auto

lemma undec_snoc: "undec (s @ [c]) = 10 * undec s + digit_val c"
  by (simp add: undec_def)

lemma undec_pad: "n < 10 ^ k \<Longrightarrow> undec (pad k n) = n"
  by (induction k arbitrary: n) (auto simp: undec_snoc undec_def [of "[]"] less_mult_imp_div_less)

lemma num_at_pad:
  "take k (drop i s) = pad k n \<Longrightarrow> n < 10 ^ k \<Longrightarrow> num_at s i k = Some n"
  by (simp add: num_at_def undec_pad)

text \<open>The text of a date within the four-digit years, and its reading.\<close>

definition iso_text :: "nat \<Rightarrow> nat \<Rightarrow> nat \<Rightarrow> nat \<Rightarrow> nat \<Rightarrow> nat \<Rightarrow> nat \<Rightarrow> string" where
  "iso_text y m d hh mm ss ms = pad 4 y @ ''-'' @ pad 2 m @ ''-'' @ pad 2 d @ ''T''
     @ pad 2 hh @ '':'' @ pad 2 mm @ '':'' @ pad 2 ss @ ''.'' @ pad 3 ms @ ''Z''"

lemma nth_at:
  assumes "length a = n"
  shows "(a @ c # b) ! n = c"
  using assms by auto

lemma iso_text_shape: "iso_shape (iso_text y m d hh mm ss ms)"
proof -
  have "iso_text y m d hh mm ss ms ! 4 = CHR ''-''"
    unfolding iso_text_def by (simp add: nth_append)
  then show ?thesis
    by (simp add: iso_shape_def iso_text_def nth_append)
qed

lemma parse_iso_text:
  assumes "y < 10000" "m < 100" "d < 100" "hh < 100" "mm < 100" "ss < 100" "ms < 1000"
  shows "parse_iso (iso_text y m d hh mm ss ms) = make_time y m d hh mm ss ms"
proof -
  let ?s = "iso_text y m d hh mm ss ms"
  have "num_at ?s 0 4 = Some y" "num_at ?s 5 2 = Some m" "num_at ?s 8 2 = Some d"
    "num_at ?s 11 2 = Some hh" "num_at ?s 14 2 = Some mm" "num_at ?s 17 2 = Some ss"
    "num_at ?s 20 3 = Some ms"
    by (rule num_at_pad; use assms in \<open>simp add: iso_text_def\<close>)+
  then show ?thesis
    by (simp add: parse_iso_def iso_text_shape)
qed

text \<open>The instants of the years 0 to 9999, which is where \<open>toISOString\<close> writes four digits.\<close>

definition four_digit_year :: "time \<Rightarrow> bool" where
  "four_digit_year t \<longleftrightarrow> day_from_year 0 * 86400000 \<le> t \<and> t < day_from_year 10000 * 86400000"

lemma make_time_day:
  assumes "m < 12" "0 \<le> md" "md < month_days y ! m" "0 \<le> y"
    and day: "day_from_year y + sum_list (take m (month_days y)) + md = day"
    and "hh < 24" "mm < 60" "ss < 60"
    and ms: "int hh * 3600000 + int mm * 60000 + int ss * 1000 + int x = ms"
  shows "make_time (nat y) (m + 1) (nat md + 1) hh mm ss x = Some (day * 86400000 + ms)"
proof -
  have "int (nat md + 1) = md + 1" "int (nat y) = y" using assms by simp_all
  then show ?thesis
    using assms(1-3,6-8) by (simp add: make_time_def day [symmetric] ms [symmetric])
qed

lemma clock_split:
  assumes "0 \<le> ms" and "ms < (86400000 :: int)"
  shows "ms div 3600000 * 3600000 + ms div 60000 mod 60 * 60000 + ms div 1000 mod 60 * 1000 + ms mod 1000 = ms"
    and "0 \<le> ms div 3600000" "ms div 3600000 < 24" "0 \<le> ms div 60000 mod 60" "ms div 60000 mod 60 < 60"
    "0 \<le> ms div 1000 mod 60" "ms div 1000 mod 60 < 60" "0 \<le> ms mod 1000" "ms mod 1000 < 1000"
proof -
  define s where "s = ms div 1000"
  define m where "m = s div 60"
  define h where "h = m div 60"
  have m: "ms div 60000 = m" and h: "ms div 3600000 = h"
    using zdiv_zmult2_eq [of 60 ms 1000] zdiv_zmult2_eq [of 60 s 60] zdiv_zmult2_eq [of 3600 ms 1000]
    by (simp_all add: m_def s_def h_def)
  have "1000 * s + ms mod 1000 = ms" "60 * m + s mod 60 = s" "60 * h + m mod 60 = m"
    unfolding s_def m_def h_def by (rule mult_div_mod_eq)+
  moreover define x y z where "x = ms mod 1000" and "y = s mod 60" and "z = m mod 60"
  ultimately have eqs: "1000 * s + x = ms" "60 * m + y = s" "60 * h + z = m" by simp_all
  have b: "0 \<le> x" "x < 1000" "0 \<le> y" "y < 60" "0 \<le> z" "z < 60"
    by (simp_all add: x_def y_def z_def)
  show "ms div 3600000 * 3600000 + ms div 60000 mod 60 * 60000 + ms div 1000 mod 60 * 1000 + ms mod 1000 = ms"
    unfolding m h s_def [symmetric] x_def [symmetric] y_def [symmetric] z_def [symmetric]
    using eqs by simp
  show "0 \<le> ms div 3600000" "ms div 3600000 < 24"
    unfolding h using eqs b assms by linarith+
qed simp_all

lemma parse_to_iso:
  assumes "four_digit_year t"
  shows "parse_iso (to_iso t) = Some t"
proof -
  define day ms where "day = t div 86400000" and "ms = t mod 86400000"
  have t: "t = day * 86400000 + ms" and ms: "0 \<le> ms" "ms < 86400000"
    by (simp_all add: day_def ms_def)
  obtain y yd where y: "split_year 1970 day = (y, yd)" by force
  obtain m md where m: "split_month (month_days y) 0 yd = (m, md)" by force
  note yo = split_year_ok [OF y]
  have "day_from_year 1970 = 0" by (simp add: day_from_year_def)
  with yo have day_eq: "day_from_year y + yd = day" by simp
  have "day_from_year 0 \<le> day" "day < day_from_year 10000"
    using assms ms unfolding four_digit_year_def t by linarith+
  with split_year_range [OF y] \<open>day_from_year 1970 = 0\<close> have yr: "0 \<le> y" "y \<le> 9999" by simp_all
  have mo: "m < 12 \<and> 0 \<le> md \<and> md < month_days y ! m \<and> yd = sum_list (take m (month_days y)) + md"
    using split_month_ok [OF m] yo by (simp add: sum_month_days) (simp add: month_days_def)
  have md31: "month_days y ! m \<le> 31"
    using mo by (simp add: month_days_def nth_Cons' )
  let ?hh = "nat (ms div 3600000)" and ?mm = "nat (ms div 60000 mod 60)"
    and ?ss = "nat (ms div 1000 mod 60)" and ?ms = "nat (ms mod 1000)"
  note c = clock_split [OF ms]
  have ints: "int ?hh = ms div 3600000" "int ?mm = ms div 60000 mod 60" "int ?ss = ms div 1000 mod 60"
    "int ?ms = ms mod 1000"
    by (rule nat_0_le, rule c)+
  have hms: "int ?hh * 3600000 + int ?mm * 60000 + int ?ss * 1000 + int ?ms = ms"
    unfolding ints by (rule c(1))
  have "int ?hh < int 24" "int ?mm < int 60" "int ?ss < int 60" "int ?ms < int 1000"
    unfolding ints of_nat_numeral by (rule c)+
  then have bounds: "?hh < 24" "?mm < 60" "?ss < 60" "?ms < 1000"
    unfolding of_nat_less_iff by blast+
  have "to_iso t = iso_text (nat y) (m + 1) (nat md + 1) ?hh ?mm ?ss ?ms"
    using y m yr by (simp add: to_iso_def iso_text_def iso_year_def Let_def day_def ms_def)
  moreover have "nat y < 10000" "m + 1 < 100" "nat md + 1 < 100"
    using yr mo md31 by linarith+
  ultimately have "parse_iso (to_iso t) = make_time (nat y) (m + 1) (nat md + 1) ?hh ?mm ?ss ?ms"
    using bounds by (simp only:) (rule parse_iso_text; linarith)
  also have "\<dots> = Some (day * 86400000 + ms)"
    by (rule make_time_day [OF _ _ _ yr(1) _ bounds(1-3) hms]) (use mo day_eq in simp_all)
  finally show ?thesis unfolding t [symmetric] .
qed

section \<open>JSON\<close>

definition json_quote_char :: char where "json_quote_char = CHR 0x22"
definition json_backslash :: char where "json_backslash = CHR 0x5C"

definition hex_digit :: "nat \<Rightarrow> char" where
  "hex_digit n = (if n < 10 then char_of (48 + n) else char_of (87 + n))"

text \<open>\<open>JSON.stringify\<close> of a text: the short escapes, \<open>\\u00XX\<close> for the other control characters.\<close>

definition json_escape_char :: "char \<Rightarrow> string" where
  "json_escape_char c =
     (if c = json_quote_char \<or> c = json_backslash then [json_backslash, c]
      else if cp c = 8 then [json_backslash, CHR ''b''] else if cp c = 9 then [json_backslash, CHR ''t'']
      else if cp c = 10 then [json_backslash, CHR ''n''] else if cp c = 12 then [json_backslash, CHR ''f'']
      else if cp c = 13 then [json_backslash, CHR ''r'']
      else if cp c < 32 then [json_backslash] @ ''u00'' @ [hex_digit (cp c div 16), hex_digit (cp c mod 16)]
      else [c])"

definition json_text :: "string \<Rightarrow> string" where
  "json_text s = [json_quote_char] @ concat (map json_escape_char s) @ [json_quote_char]"

definition json_space :: "char \<Rightarrow> bool" where
  "json_space c \<longleftrightarrow> cp c = 32 \<or> cp c = 9 \<or> cp c = 10 \<or> cp c = 13"

definition json_unescape :: "char \<Rightarrow> char option" where
  "json_unescape e =
     (if e = json_quote_char \<or> e = json_backslash \<or> e = CHR ''/'' then Some e
      else if e = CHR ''b'' then Some (char_of (8 :: nat)) else if e = CHR ''t'' then Some (char_of (9 :: nat))
      else if e = CHR ''n'' then Some (char_of (10 :: nat)) else if e = CHR ''f'' then Some (char_of (12 :: nat))
      else if e = CHR ''r'' then Some (char_of (13 :: nat)) else None)"

text \<open>The rest of a string literal: its text and what follows the closing quote.\<close>

fun json_string :: "string \<Rightarrow> (string \<times> string) option" where
  "json_string [] = None"
| "json_string (c # s) =
     (if c = json_quote_char then Some ([], s)
      else if c = json_backslash then
        (case s of [] \<Rightarrow> None
         | e # r \<Rightarrow> (case json_unescape e of None \<Rightarrow> None
             | Some x \<Rightarrow> map_option (\<lambda>(t, u). (x # t, u)) (json_string r)))
      else if cp c < 32 then None
      else map_option (\<lambda>(t, u). (c # t, u)) (json_string s))"

definition skip_digits :: "string \<Rightarrow> string option" where
  "skip_digits s = (if takeWhile is_digit s = [] then None else Some (dropWhile is_digit s))"

definition skip_fraction :: "string \<Rightarrow> string option" where
  "skip_fraction s = (case s of c # r \<Rightarrow> (if c = CHR ''.'' then skip_digits r else Some s) | [] \<Rightarrow> Some s)"

definition skip_exponent :: "string \<Rightarrow> string option" where
  "skip_exponent s = (case s of
     c # r \<Rightarrow> (if c = CHR ''e'' \<or> c = CHR ''E''
              then (case r of g # u \<Rightarrow> (if g = CHR ''+'' \<or> g = CHR ''-'' then skip_digits u else skip_digits r)
                    | [] \<Rightarrow> None)
              else Some s)
   | [] \<Rightarrow> Some s)"

text \<open>A number literal; only its integer part is kept, the fraction and the exponent are checked.\<close>

definition json_number :: "string \<Rightarrow> (jsval \<times> string) option" where
  "json_number s =
     (let neg = (s \<noteq> [] \<and> hd s = CHR ''-''); t = (if neg then tl s else s);
          ip = takeWhile is_digit t
      in if ip = [] \<or> (hd ip = CHR ''0'' \<and> length ip \<noteq> 1) then None
         else map_option (\<lambda>u. (JNum ((if neg then - 1 else 1) * int (undec ip)), u))
                (Option.bind (skip_fraction (dropWhile is_digit t)) skip_exponent))"

definition json_word :: "string \<Rightarrow> (jsval \<times> string) option" where
  "json_word s =
     (if take 4 s = ''true'' then Some (JBool True, drop 4 s)
      else if take 5 s = ''false'' then Some (JBool False, drop 5 s)
      else if take 4 s = ''null'' then Some (JNull, drop 4 s) else None)"

text \<open>
  Recursive descent; the fuel bounds the nesting and the number of members, and twice the length of
  the text is always enough (\<open>json_fuel_enough\<close>).
\<close>

fun json_value :: "nat \<Rightarrow> string \<Rightarrow> (jsval \<times> string) option"
  and json_items :: "nat \<Rightarrow> string \<Rightarrow> (jsval list \<times> string) option"
  and json_members :: "nat \<Rightarrow> string \<Rightarrow> ((string \<times> jsval) list \<times> string) option" where
  "json_value 0 s = None"
| "json_value (Suc n) s = (case dropWhile json_space s of
     [] \<Rightarrow> None
   | c # r \<Rightarrow>
       (if c = json_quote_char then map_option (\<lambda>(t, u). (JStr t, u)) (json_string r)
        else if c = CHR ''{'' then
          (case dropWhile json_space r of [] \<Rightarrow> None
           | e # u \<Rightarrow> (if e = CHR ''}'' then Some (JObj [], u)
                     else map_option (\<lambda>(kvs, w). (JObj kvs, w)) (json_members n (e # u))))
        else if c = CHR ''['' then
          (case dropWhile json_space r of [] \<Rightarrow> None
           | e # u \<Rightarrow> (if e = CHR '']'' then Some (JArr [], u)
                     else map_option (\<lambda>(vs, w). (JArr vs, w)) (json_items n (e # u))))
        else if is_digit c \<or> c = CHR ''-'' then json_number (c # r)
        else json_word (c # r)))"
| "json_items 0 s = None"
| "json_items (Suc n) s = (case json_value n s of
     None \<Rightarrow> None
   | Some (v, u) \<Rightarrow> (case dropWhile json_space u of [] \<Rightarrow> None
       | e # w \<Rightarrow> (if e = CHR '','' then map_option (\<lambda>(vs, x). (v # vs, x)) (json_items n w)
                 else if e = CHR '']'' then Some ([v], w) else None)))"
| "json_members 0 s = None"
| "json_members (Suc n) s = (case dropWhile json_space s of [] \<Rightarrow> None
   | q # r \<Rightarrow> (if q \<noteq> json_quote_char then None else case json_string r of
       None \<Rightarrow> None
     | Some (k, u) \<Rightarrow> (case dropWhile json_space u of [] \<Rightarrow> None
         | e # w \<Rightarrow> (if e \<noteq> CHR '':'' then None else case json_value n w of
             None \<Rightarrow> None
           | Some (v, x) \<Rightarrow> (case dropWhile json_space x of [] \<Rightarrow> None
               | g # y \<Rightarrow> (if g = CHR '','' then map_option (\<lambda>(kvs, z). ((k, v) # kvs, z)) (json_members n y)
                         else if g = CHR ''}'' then Some ([(k, v)], y) else None))))))"

definition json_parse :: "string \<Rightarrow> jsval option" where
  "json_parse s = (case json_value (Suc (2 * length s)) s of
     Some (v, u) \<Rightarrow> (if list_all json_space u then Some v else None) | None \<Rightarrow> None)"

text \<open>Of two members with one name the later one stays.\<close>

definition json_field :: "string \<Rightarrow> jsval \<Rightarrow> jsval" where
  "json_field k v = (case v of JObj kvs \<Rightarrow> field k (rev kvs) | _ \<Rightarrow> JUndefined)"

section \<open>encodeCursor and decodeCursor\<close>

definition encode_cursor :: "time \<times> uuid \<Rightarrow> string" where
  "encode_cursor c = b64_encode (''{'' @ json_text ''createdAt'' @ '':'' @ json_text (to_iso (fst c))
     @ '','' @ json_text ''id'' @ '':'' @ json_text (snd c) @ ''}'')"

fun unicode_escape :: "string \<Rightarrow> bool" where
  "unicode_escape (a # b # s) \<longleftrightarrow> (a = json_backslash \<and> b = CHR ''u'') \<or> unicode_escape (b # s)"
| "unicode_escape _ \<longleftrightarrow> False"

definition plain_text :: "string \<Rightarrow> bool" where
  "plain_text s \<longleftrightarrow> list_all (\<lambda>c. cp c < 128) s \<and> \<not> unicode_escape s"

text \<open>Property access on \<open>null\<close> throws; like every failure inside, it ends in the one 400.\<close>

definition decode_cursor ::
  "(string \<Rightarrow> exn + time \<times> uuid) \<Rightarrow> (string \<Rightarrow> time option) \<Rightarrow> string \<Rightarrow> exn + time \<times> uuid" where
  "decode_cursor exotic legacy raw = (case b64_decode raw of
     None \<Rightarrow> exotic raw
   | Some json \<Rightarrow>
       (if \<not> plain_text json then exotic raw
        else case json_parse json of
          None \<Rightarrow> Inl (bad_request ''Invalid pagination cursor'')
        | Some parsed \<Rightarrow> (case (json_field ''id'' parsed, json_field ''createdAt'' parsed) of
            (JStr i, JStr c) \<Rightarrow> (case js_date legacy c of
                Some t \<Rightarrow> Inr (t, i) | None \<Rightarrow> Inl (bad_request ''Invalid pagination cursor''))
          | _ \<Rightarrow> Inl (bad_request ''Invalid pagination cursor''))))"

subsection \<open>The fuel is enough\<close>

lemma dropWhile_Cons_length: "dropWhile P s = c # r \<Longrightarrow> length r < length s"
  by (metis Suc_le_eq length_Cons length_dropWhile_le)

lemma json_string_shorter: "json_string s = Some (t, u) \<Longrightarrow> length u < length s"
  by (induction s arbitrary: t u rule: json_string.induct)
    (fastforce split: if_splits option.splits list.splits)+

lemma skip_digits_shorter: "skip_digits s = Some u \<Longrightarrow> length u < length s"
  by (auto simp: skip_digits_def split: if_splits)
    (metis append_Nil dropWhile_eq_self_iff le_neq_implies_less length_dropWhile_le
      takeWhile_dropWhile_id length_append length_0_conv add_cancel_left_left)

lemma skip_fraction_shorter: "skip_fraction s = Some u \<Longrightarrow> length u \<le> length s"
  by (auto simp: skip_fraction_def dest!: skip_digits_shorter split: list.splits if_splits)

lemma skip_exponent_shorter: "skip_exponent s = Some u \<Longrightarrow> length u \<le> length s"
  by (auto simp: skip_exponent_def dest!: skip_digits_shorter split: list.splits if_splits)

lemma json_number_shorter:
  assumes "json_number s = Some (v, u)"
  shows "length u < length s"
proof -
  define t where "t = (if s \<noteq> [] \<and> hd s = CHR ''-'' then tl s else s)"
  from assms have ne: "takeWhile is_digit t \<noteq> []"
    and b: "\<exists>w. skip_fraction (dropWhile is_digit t) = Some w \<and> skip_exponent w = Some u"
    by (auto simp: json_number_def Let_def t_def Option.bind_eq_Some_conv split: if_splits)
  have "skip_digits t = Some (dropWhile is_digit t)" using ne by (simp add: skip_digits_def)
  then have "length (dropWhile is_digit t) < length t" by (rule skip_digits_shorter)
  moreover have "length t \<le> length s" by (simp add: t_def)
  ultimately show ?thesis
    using b skip_fraction_shorter skip_exponent_shorter by fastforce
qed

lemma json_word_shorter: "json_word s = Some (v, u) \<Longrightarrow> length u < length s"
  by (auto simp: json_word_def split: if_splits) (cases s; simp)+

lemma json_shorter:
  "json_value n s = Some (v, u) \<Longrightarrow> length u < length s"
  "json_items n s = Some (vs, u) \<Longrightarrow> length u < length s"
  "json_members n s = Some (kvs, u) \<Longrightarrow> length u < length s"
proof (induction n arbitrary: s v u vs kvs)
  case (Suc n)
  {
    case 1
    then obtain c r where cr: "dropWhile json_space s = c # r" by (auto split: list.splits)
    note len = dropWhile_Cons_length [OF cr]
    have ws: "length (c # r) \<le> length s" using length_dropWhile_le [of json_space s] by (simp add: cr)
    consider "c = json_quote_char" | "c = CHR ''{''" "c \<noteq> json_quote_char" | "c = CHR ''[''" "c \<noteq> json_quote_char"
      | "c \<noteq> json_quote_char" "c \<noteq> CHR ''{''" "c \<noteq> CHR ''[''" by blast
    then show ?case
    proof cases
      case a: 1
      with 1 cr len show ?thesis by (auto dest!: json_string_shorter)
    next
      case b: 2
      from 1 b cr obtain e w where ew: "dropWhile json_space r = e # w" by (auto split: list.splits)
      from dropWhile_Cons_length [OF this] have "length (e # w) \<le> length r" by simp
      with 1 b cr ew len Suc.IH(3) show ?thesis by (fastforce split: if_splits)
    next
      case c: 3
      from 1 c cr obtain e w where ew: "dropWhile json_space r = e # w" by (auto split: list.splits)
      from dropWhile_Cons_length [OF this] have "length (e # w) \<le> length r" by simp
      with 1 c cr ew len Suc.IH(2) show ?thesis by (fastforce split: if_splits)
    next
      case d: 4
      with 1 cr have "json_number (c # r) = Some (v, u) \<or> json_word (c # r) = Some (v, u)"
        by (auto split: if_splits)
      with ws json_number_shorter json_word_shorter show ?thesis by (meson less_le_trans)
    qed
  next
    case 2
    then obtain v' u' where v: "json_value n s = Some (v', u')" by (auto split: option.splits)
    with 2 obtain e w where ew: "dropWhile json_space u' = e # w" by (auto split: list.splits)
    from Suc.IH(1) [OF v] dropWhile_Cons_length [OF ew] 2 v ew Suc.IH(2) show ?case
      by (fastforce split: if_splits)
  next
    case 3
    then obtain q r where q: "dropWhile json_space s = q # r" by (auto split: list.splits)
    with 3 obtain k u1 where k: "json_string r = Some (k, u1)" by (auto split: option.splits if_splits)
    with 3 q obtain e w where e: "dropWhile json_space u1 = e # w" by (auto split: list.splits if_splits)
    with 3 q k obtain v x where v: "json_value n w = Some (v, x)" by (auto split: option.splits if_splits)
    with 3 q k e obtain g y where g: "dropWhile json_space x = g # y" by (auto split: list.splits if_splits)
    note l = dropWhile_Cons_length [OF q] json_string_shorter [OF k] dropWhile_Cons_length [OF e]
      Suc.IH(1) [OF v] dropWhile_Cons_length [OF g]
    from 3 q k e v g have "(\<exists>z. json_members n y = Some (z, u)) \<or> u = y" by (auto split: if_splits)
    with Suc.IH(3) l show ?case by fastforce
  }
qed auto

lemma json_more_fuel:
  "2 * length s < n \<Longrightarrow> n \<le> m \<Longrightarrow> json_value m s = json_value n s"
  "2 * length s + 1 < n \<Longrightarrow> n \<le> m \<Longrightarrow> json_items m s = json_items n s"
  "2 * length s + 1 < n \<Longrightarrow> n \<le> m \<Longrightarrow> json_members m s = json_members n s"
proof (induction n arbitrary: m s)
  case (Suc k)
  {
    case 1
    then obtain l where m: "m = Suc l" "k \<le> l" by (cases m) auto
    show ?case
    proof (cases "dropWhile json_space s")
      case Nil
      show ?thesis unfolding m(1) json_value.simps Nil by simp
    next
      case (Cons c r)
      show ?thesis
      proof (cases "dropWhile json_space r")
        case Nil
        show ?thesis unfolding m(1) json_value.simps Cons Nil by (simp add: Nil del: dropWhile_eq_Nil_conv)
      next
        case Cons2: (Cons e u)
        have "2 * length (e # u) + 1 < k"
          using dropWhile_Cons_length [OF Cons] dropWhile_Cons_length [OF Cons2] 1 by simp
        note ih = Suc.IH(2,3) [OF this m(2)]
        show ?thesis by (simp only: m(1) json_value.simps Cons Cons2 list.case ih)
      qed
    qed
  next
    case 2
    then obtain l where m: "m = Suc l" "k \<le> l" by (cases m) auto
    have same: "json_value l s = json_value k s" using 2 by (intro Suc.IH(1) m(2)) simp
    show ?case
    proof (cases "json_value k s")
      case None
      with same m show ?thesis by simp
    next
      case (Some p)
      obtain v u where p: "p = (v, u)" by force
      have "json_items l w = json_items k w" if "dropWhile json_space u = e # w" for e w
        using dropWhile_Cons_length [OF that] json_shorter(1) [OF Some [unfolded p]] 2
        by (intro Suc.IH(2) m(2)) simp
      then show ?thesis
        by (cases "dropWhile json_space u") (simp_all add: m(1) same Some p del: dropWhile_eq_Nil_conv)
    qed
  next
    case 3
    then obtain l where m: "m = Suc l" "k \<le> l" by (cases m) auto
    show ?case
    proof (cases "dropWhile json_space s")
      case Nil
      show ?thesis unfolding m(1) json_members.simps Nil by simp
    next
      case q: (Cons q r)
      show ?thesis
      proof (cases "json_string r")
        case None
        with q m show ?thesis by simp
      next
        case (Some p)
        obtain kk u where p: "p = (kk, u)" by force
        show ?thesis
        proof (cases "dropWhile json_space u")
          case Nil
          show ?thesis unfolding m(1) json_members.simps q by (simp add: Some p Nil del: dropWhile_eq_Nil_conv)
        next
          case e: (Cons e w)
          have w: "length w + 2 \<le> length s"
            using dropWhile_Cons_length [OF q] json_string_shorter [OF Some [unfolded p]]
              dropWhile_Cons_length [OF e] by simp
          have same: "json_value l w = json_value k w" using 3 w by (intro Suc.IH(1) m(2)) simp
          have "json_members l y = json_members k y"
            if "json_value k w = Some (v, x)" "dropWhile json_space x = g # y" for v x g y
            using json_shorter(1) [OF that(1)] dropWhile_Cons_length [OF that(2)] w 3
            by (intro Suc.IH(3) m(2)) simp
          note ih = this
          show ?thesis
          proof (cases "json_value k w")
            case None
            then show ?thesis by (simp add: m(1) q Some p e same)
          next
            case v: (Some x)
            with ih show ?thesis
              by (cases x; cases "dropWhile json_space (snd x)")
                (simp_all add: m(1) q Some p e same del: dropWhile_eq_Nil_conv)
          qed
        qed
      qed
    qed
  }
qed auto

lemma json_fuel_enough:
  "2 * length s < n \<Longrightarrow> json_value n s = json_value (Suc (2 * length s)) s"
  by (rule json_more_fuel(1)) simp_all

section \<open>The round trip\<close>

text \<open>Characters that stand for themselves in a JSON text and in ASCII.\<close>

definition safe :: "char \<Rightarrow> bool" where
  "safe c \<longleftrightarrow> 32 \<le> cp c \<and> cp c < 128 \<and> c \<noteq> json_quote_char \<and> c \<noteq> json_backslash"

lemma json_text_safe:
  assumes "list_all safe s"
  shows "json_text s = json_quote_char # s @ [json_quote_char]"
proof -
  have "concat (map json_escape_char s) = s"
    using assms by (induction s) (auto simp: json_escape_char_def safe_def)
  then show ?thesis by (simp add: json_text_def)
qed

lemma json_string_safe: "list_all safe s \<Longrightarrow> json_string (s @ json_quote_char # r) = Some (s, r)"
  by (induction s) (auto simp: safe_def)

lemma unicode_escape_backslash: "unicode_escape s \<Longrightarrow> json_backslash \<in> set s"
  by (induction s rule: unicode_escape.induct) auto

lemma safe_digit: "is_digit c \<Longrightarrow> safe c"
  by (auto simp: is_digit_def safe_def json_quote_char_def json_backslash_def cp_def)

lemma list_all_safe_pad [simp]: "list_all safe (pad k n)"
  using pad_digits [of k n] safe_digit by (auto simp: list_all_iff)

lemma safe_punctuation [simp]:
  "safe CHR ''-''" "safe CHR '':''" "safe CHR ''.''" "safe CHR ''T''" "safe CHR ''Z''" "safe CHR ''+''"
  by code_simp+

lemma list_all_safe_to_iso [simp]: "list_all safe (to_iso t)"
  by (simp add: to_iso_def iso_year_def Let_def split: prod.split)

lemma list_all_safe_uuid:
  assumes "uuid_re i"
  shows "list_all safe i"
proof -
  have "safe c" if "is_hex c" for c
    using that by (auto simp: is_hex_def safe_digit) (auto simp: safe_def json_quote_char_def json_backslash_def cp_def)
  then show ?thesis
    unfolding list_all_iff using uuid_re_chars [OF assms] safe_punctuation(1) by blast
qed

definition cursor_json :: "string \<Rightarrow> string \<Rightarrow> string" where
  "cursor_json c i = ''{'' @ json_text ''createdAt'' @ '':'' @ json_text c
     @ '','' @ json_text ''id'' @ '':'' @ json_text i @ ''}''"

lemma json_chars [simp]:
  "json_quote_char \<noteq> CHR ''{''" "CHR ''{'' \<noteq> json_quote_char" "CHR '':'' \<noteq> json_quote_char"
  "CHR '','' \<noteq> json_quote_char" "CHR ''}'' \<noteq> json_quote_char" "json_quote_char \<noteq> CHR ''}''"
  "\<not> json_space json_quote_char" "\<not> json_space CHR ''{''" "\<not> json_space CHR '':''"
  "\<not> json_space CHR '',''" "\<not> json_space CHR ''}''"
  "list_all safe ''createdAt''" "list_all safe ''id''"
  by code_simp+

lemma json_value_cursor:
  assumes "list_all safe c" and "list_all safe i"
  shows "json_value (Suc (Suc (Suc (Suc n)))) (cursor_json c i)
    = Some (JObj [(''createdAt'', JStr c), (''id'', JStr i)], [])"
proof -
  have shape: "cursor_json c i = CHR ''{'' # json_quote_char # ''createdAt'' @ json_quote_char # CHR '':'' #
      json_quote_char # c @ json_quote_char # CHR '','' # json_quote_char # ''id'' @ json_quote_char #
      CHR '':'' # json_quote_char # i @ json_quote_char # CHR ''}'' # []"
    unfolding cursor_json_def json_text_safe [OF assms(1)] json_text_safe [OF assms(2)]
      json_text_safe [OF json_chars(12)] json_text_safe [OF json_chars(13)]
    by simp
  note str = json_string_safe [OF json_chars(12)] json_string_safe [OF json_chars(13)]
    json_string_safe [OF assms(1)] json_string_safe [OF assms(2)]
  have id: "json_members (Suc (Suc m)) (json_quote_char # ''id'' @ json_quote_char # CHR '':'' #
      json_quote_char # i @ json_quote_char # CHR ''}'' # []) = Some ([(''id'', JStr i)], [])" for m
    by (simp add: str del: append.simps)
  show ?thesis
    by (simp add: shape str id del: append.simps)
qed

lemma json_parse_cursor:
  assumes "list_all safe c" and "list_all safe i"
  shows "json_parse (cursor_json c i) = Some (JObj [(''createdAt'', JStr c), (''id'', JStr i)])"
proof -
  have "2 \<le> length (cursor_json c i)" by (simp add: cursor_json_def)
  then have "\<exists>n. Suc (2 * length (cursor_json c i)) = Suc (Suc (Suc (Suc n)))"
    by (intro exI [of _ "2 * length (cursor_json c i) - 3"]) simp
  then obtain n where "Suc (2 * length (cursor_json c i)) = Suc (Suc (Suc (Suc n)))" by blast
  with json_value_cursor [OF assms, of n] show ?thesis by (simp add: json_parse_def)
qed

lemma plain_cursor_json:
  assumes "list_all safe c" and "list_all safe i"
  shows "plain_text (cursor_json c i)"
proof -
  have "set (cursor_json c i) \<subseteq> {json_quote_char} \<union> {x. safe x} \<union> set ''{}:,''"
    using assms json_chars(12,13)
    by (auto simp: cursor_json_def json_text_safe list_all_iff)
  moreover have "json_backslash \<notin> {json_quote_char} \<union> {x. safe x} \<union> set ''{}:,''"
    by (auto simp: safe_def json_backslash_def json_quote_char_def)
  moreover have "\<forall>x \<in> {json_quote_char} \<union> {x. safe x} \<union> set ''{}:,''. cp x < 128"
    by (auto simp: safe_def json_quote_char_def cp_def)
  ultimately show ?thesis
    using unicode_escape_backslash [of "cursor_json c i"] by (auto simp: plain_text_def list_all_iff)
qed

text \<open>The cursors of stored messages: an instant of a four-digit year and a UUID.\<close>

definition cursor_ok :: "time \<times> uuid \<Rightarrow> bool" where
  "cursor_ok c \<longleftrightarrow> four_digit_year (fst c) \<and> uuid_re (snd c)"

lemma decode_encode:
  assumes "cursor_ok c"
  shows "decode_cursor exotic legacy (encode_cursor c) = Inr c"
proof -
  have safe: "list_all safe (to_iso (fst c))" "list_all safe (snd c)"
    using assms by (simp_all add: cursor_ok_def list_all_safe_uuid)
  have enc: "encode_cursor c = b64_encode (cursor_json (to_iso (fst c)) (snd c))"
    by (simp add: encode_cursor_def cursor_json_def)
  have date: "js_date legacy (to_iso (fst c)) = Some (fst c)"
    using assms parse_to_iso by (simp add: js_date_def cursor_ok_def)
  show ?thesis
    unfolding decode_cursor_def enc b64_roundtrip
    by (simp add: plain_cursor_json [OF safe] json_parse_cursor [OF safe] json_field_def field_def date)
qed

section \<open>The interface of an opaque position\<close>

locale codec =
  fixes enc :: "'a \<Rightarrow> string" and dec :: "string \<Rightarrow> 'e + 'a" and valid :: "'a \<Rightarrow> bool"
  assumes dec_enc: "valid a \<Longrightarrow> dec (enc a) = Inr a"
begin

lemma enc_inj: "valid a \<Longrightarrow> valid b \<Longrightarrow> enc a = enc b \<Longrightarrow> a = b"
  using dec_enc by (metis sum.inject(2))

end

interpretation cursor: codec encode_cursor "decode_cursor exotic legacy" cursor_ok
  for exotic legacy
  by unfold_locales (rule decode_encode)

section \<open>Properties\<close>

text \<open>The alphabet of RFC 4648 for URLs: no character of a cursor needs escaping in a query string.\<close>

definition url_safe :: "char \<Rightarrow> bool" where
  "url_safe c \<longleftrightarrow> is_digit c \<or> (65 \<le> cp c \<and> cp c \<le> 90) \<or> (97 \<le> cp c \<and> cp c \<le> 122)
     \<or> c = CHR ''-'' \<or> c = CHR ''_''"

lemma url_safe_alphabet: "list_all url_safe b64_alphabet"
  by (simp add: b64_alphabet_def url_safe_def is_digit_def cp_def)

lemma url_safe_b64_char: "url_safe (b64_char n)"
  using url_safe_alphabet by (simp add: b64_char_def list_all_length b64_alphabet_length)

text \<open>
  C37. The cursor of a stored message survives the round trip through the client: decoding what was
  encoded gives the same instant, to the millisecond, and the same id; the text is safe in a query
  string; and different positions have different cursors. Whatever \<open>new Date\<close> does with other texts
  (\<open>legacy\<close>) and whatever non-ASCII cursors do (\<open>exotic\<close>) does not matter.
\<close>

theorem cursor_roundtrip:
  assumes "cursor_ok c"
  shows "decode_cursor exotic legacy (encode_cursor c) = Inr c
    \<and> list_all url_safe (encode_cursor c)
    \<and> (\<forall>c'. cursor_ok c' \<longrightarrow> encode_cursor c' = encode_cursor c \<longrightarrow> c' = c)"
proof (intro conjI allI impI)
  show "decode_cursor exotic legacy (encode_cursor c) = Inr c"
    by (rule cursor.dec_enc [OF assms])
  show "list_all url_safe (encode_cursor c)"
    by (simp add: encode_cursor_def b64_encode_def list_all_iff url_safe_b64_char)
  show "c' = c" if "cursor_ok c'" "encode_cursor c' = encode_cursor c" for c'
    using cursor.enc_inj [OF that(1) assms that(2)] .
qed

text \<open>Witness for C37: noon on the leap day of 2024, and half a second.\<close>

theorem cursor_roundtrip_witness:
  "encode_cursor (1709208000500, ''0190a1b2-0000-7000-8000-00000000000a'') =
     ''eyJjcmVhdGVkQXQiOiIyMDI0LTAyLTI5VDEyOjAwOjAwLjUwMFoiLCJpZCI6IjAxOTBhMWIyLTAwMDAtNzAwMC04MDAwLTAwMDAwMDAwMDAwYSJ9''
   \<and> decode_cursor (\<lambda>_. Inl (OtherExn []))
      (\<lambda>_. None) (encode_cursor (1709208000500, ''0190a1b2-0000-7000-8000-00000000000a''))
     = Inr (1709208000500, ''0190a1b2-0000-7000-8000-00000000000a'')"
proof
  have "cursor_ok (1709208000500, ''0190a1b2-0000-7000-8000-00000000000a'')"
    by code_simp
  from cursor_roundtrip [OF this] show "decode_cursor (\<lambda>_. Inl (OtherExn []))
      (\<lambda>_. None)
      (encode_cursor (1709208000500, ''0190a1b2-0000-7000-8000-00000000000a''))
     = Inr (1709208000500, ''0190a1b2-0000-7000-8000-00000000000a'')"
    by blast
  show "encode_cursor (1709208000500, ''0190a1b2-0000-7000-8000-00000000000a'') =
     ''eyJjcmVhdGVkQXQiOiIyMDI0LTAyLTI5VDEyOjAwOjAwLjUwMFoiLCJpZCI6IjAxOTBhMWIyLTAwMDAtNzAwMC04MDAwLTAwMDAwMDAwMDAwYSJ9''"
    by code_simp
qed

end
