(* ===== verification/Queues.thy ===== *)
theory Queues
  imports Cursor
begin

text \<open>
  The queue contract of the summary pipeline (backend/src/queues/queue.constants.ts): queue and job
  names, job ids, the retry policy, the five-stage flow of one group, and the tuning knobs that are
  read from the environment. An environment is a map from names to texts; what \<open>Number\<close> makes of a text is an
  argument, with \<open>None\<close> for anything that is no integer.

  The lemmas show that job ids identify stage, group and window, and in which order a flow runs.
\<close>

section \<open>Names\<close>

definition SCHEDULER_QUEUE :: string where "SCHEDULER_QUEUE = ''scheduler-queue''"
definition AI_QUEUE :: string where "AI_QUEUE = ''ai-queue''"
definition SUMMARY_QUEUE :: string where "SUMMARY_QUEUE = ''summary-queue''"
definition NOTIFICATION_QUEUE :: string where "NOTIFICATION_QUEUE = ''notification-queue''"
definition SUMMARY_SCHEDULER_ID :: string where "SUMMARY_SCHEDULER_ID = ''daily-summary''"
definition TOKEN_PURGE_SCHEDULER_ID :: string where "TOKEN_PURGE_SCHEDULER_ID = ''refresh-token-purge''"
definition JOB_SCHEDULER_TICK :: string where "JOB_SCHEDULER_TICK = ''scheduler-tick''"
definition JOB_TOKEN_PURGE :: string where "JOB_TOKEN_PURGE = ''refresh-token-purge''"
definition JOB_GROUP_SUMMARY :: string where "JOB_GROUP_SUMMARY = ''group-summary''"
definition JOB_FETCH :: string where "JOB_FETCH = ''fetch-messages''"
definition JOB_GENERATE :: string where "JOB_GENERATE = ''generate-ai-summary''"
definition JOB_SAVE :: string where "JOB_SAVE = ''save-summary''"
definition JOB_PUBLISH :: string where "JOB_PUBLISH = ''publish-summary''"

lemmas job_names = JOB_GROUP_SUMMARY_def JOB_FETCH_def JOB_GENERATE_def JOB_SAVE_def JOB_PUBLISH_def

section \<open>Job ids and options\<close>

text \<open>An integer in a template literal (below 1e21, where no exponent is written).\<close>

definition int_text :: "int \<Rightarrow> string" where
  "int_text n = (if n < 0 then CHR ''-'' # dec (nat (- n)) else dec (nat n))"

definition stage_job_id :: "string \<Rightarrow> uuid \<Rightarrow> int \<Rightarrow> string" where
  "stage_job_id stage groupId bucketStart = stage @ '':'' @ groupId @ '':'' @ int_text bucketStart"

record job_opts =
  jo_jobId :: string
  jo_attempts :: nat
  jo_backoff :: nat
  jo_removeOnComplete :: bool
  jo_removeOnFail :: nat
  jo_failParentOnFailure :: bool

definition job_opts_for :: "string \<Rightarrow> job_opts" where
  "job_opts_for jobId = \<lparr>jo_jobId = jobId, jo_attempts = 3, jo_backoff = 2000, jo_removeOnComplete = True,
     jo_removeOnFail = 100, jo_failParentOnFailure = False\<rparr>"

section \<open>The flow of one group\<close>

record job_data =
  jd_groupId :: uuid
  jd_since :: "string option"

datatype flow_job = FlowJob
  (fj_name: string) (fj_queue: string) (fj_data: job_data) (fj_opts: job_opts) (fj_children: "flow_job list")

definition child_opts :: "string \<Rightarrow> job_opts" where
  "child_opts jobId = (job_opts_for jobId)\<lparr>jo_failParentOnFailure := True\<rparr>"

definition build_summary_flow :: "uuid \<Rightarrow> time \<Rightarrow> int \<Rightarrow> flow_job" where
  "build_summary_flow groupId since bucketStart =
     (let i = (\<lambda>stage. stage_job_id stage groupId bucketStart);
          plain = \<lparr>jd_groupId = groupId, jd_since = None\<rparr>
      in FlowJob JOB_GROUP_SUMMARY SUMMARY_QUEUE plain (job_opts_for (i JOB_GROUP_SUMMARY))
        [FlowJob JOB_PUBLISH NOTIFICATION_QUEUE plain (child_opts (i JOB_PUBLISH))
          [FlowJob JOB_SAVE SUMMARY_QUEUE plain (child_opts (i JOB_SAVE))
            [FlowJob JOB_GENERATE AI_QUEUE plain (child_opts (i JOB_GENERATE))
              [FlowJob JOB_FETCH SUMMARY_QUEUE \<lparr>jd_groupId = groupId, jd_since = Some (to_iso since)\<rparr>
                 (child_opts (i JOB_FETCH)) []]]]])"

text \<open>BullMQ runs a job once all its children have completed.\<close>

fun run_order :: "flow_job \<Rightarrow> flow_job list" where
  "run_order (FlowJob n q d os cs) = concat (map run_order cs) @ [FlowJob n q d os cs]"

definition first_child_value :: "'a list \<Rightarrow> 'a option" where
  "first_child_value values = (case values of [] \<Rightarrow> None | v # _ \<Rightarrow> Some v)"

section \<open>Knobs read from the environment\<close>

type_synonym environment = "string \<Rightarrow> string option"

definition int_from_env :: "(string \<Rightarrow> int option) \<Rightarrow> environment \<Rightarrow> string \<Rightarrow> int \<Rightarrow> int" where
  "int_from_env to_int env key fallback = (case env key of
     None \<Rightarrow> fallback
   | Some raw \<Rightarrow> (case to_int raw of None \<Rightarrow> fallback | Some n \<Rightarrow> (if 0 < n then n else fallback)))"

datatype worker = SCHEDULER | AI | SUMMARY | NOTIFICATION

fun WORKER_CONCURRENCY :: "worker \<Rightarrow> string \<times> int" where
  "WORKER_CONCURRENCY SCHEDULER = (''SCHEDULER_WORKER_CONCURRENCY'', 1)"
| "WORKER_CONCURRENCY AI = (''AI_WORKER_CONCURRENCY'', 10)"
| "WORKER_CONCURRENCY SUMMARY = (''SUMMARY_WORKER_CONCURRENCY'', 5)"
| "WORKER_CONCURRENCY NOTIFICATION = (''NOTIFICATION_WORKER_CONCURRENCY'', 3)"

definition concurrency_for :: "(string \<Rightarrow> int option) \<Rightarrow> environment \<Rightarrow> worker \<Rightarrow> int" where
  "concurrency_for to_int env worker =
     (case WORKER_CONCURRENCY worker of (key, fallback) \<Rightarrow> int_from_env to_int env key fallback)"

section \<open>Properties\<close>

definition colons :: "string \<Rightarrow> nat" where
  "colons s = length (filter (\<lambda>c. c = CHR '':'') s)"

lemma no_colon: "colons s = 0 \<longleftrightarrow> CHR '':'' \<notin> set s"
  by (auto simp: colons_def filter_empty_conv)

lemma colons_append [simp]: "colons (a @ b) = colons a + colons b"
  by (simp add: colons_def)

lemma dec_no_separator: "CHR '':'' \<notin> set (dec n) \<and> CHR ''-'' \<notin> set (dec n)"
  using dec_digits [of "CHR '':''" n] dec_digits [of "CHR ''-''" n] by (auto simp: is_digit_def cp_def)

lemma int_text_no_colon: "colons (int_text n) = 0"
  using dec_no_separator by (auto simp: no_colon int_text_def)

lemma int_text_inj: "int_text m = int_text n \<longleftrightarrow> m = n"
proof
  assume eq: "int_text m = int_text n"
  have d: "CHR ''-'' \<notin> set (dec k)" for k using dec_no_separator by blast
  have "m < 0 \<longleftrightarrow> n < 0"
    using eq d [of "nat m"] d [of "nat n"] by (auto simp: int_text_def split: if_splits) (metis list.set_intros(1))+
  with eq show "m = n" by (auto simp: int_text_def split: if_splits)
qed simp

lemma split_at_colon:
  "CHR '':'' \<notin> set a \<Longrightarrow> CHR '':'' \<notin> set b \<Longrightarrow> a @ CHR '':'' # r = b @ CHR '':'' # s \<longleftrightarrow> a = b \<and> r = s"
proof (induction a arbitrary: b)
  case Nil
  then show ?case by (cases b) auto
next
  case (Cons x a)
  then show ?case by (cases b) auto
qed

text \<open>
  A job id names its job: two ids built from colon-free stage names and UUIDs are equal only for the
  same stage, group and window, and each has exactly the two colons that BullMQ tolerates in a custom id.
  So a re-fired tick of the same window meets the same ids, and nothing else does.
\<close>

lemma job_id_names_the_job:
  assumes "colons stage = 0" "colons stage' = 0" and "uuid_re g" "uuid_re g'"
  shows "(stage_job_id stage g b = stage_job_id stage' g' b' \<longleftrightarrow> stage = stage' \<and> g = g' \<and> b = b')
    \<and> colons (stage_job_id stage g b) = 2"
proof -
  have g: "CHR '':'' \<notin> set g" "CHR '':'' \<notin> set g'" using assms(3,4) uuid_re_no_colon by blast+
  then have "stage_job_id stage g b = stage_job_id stage' g' b' \<longleftrightarrow> stage = stage' \<and> g = g' \<and> b = b'"
    using assms(1,2) by (simp add: stage_job_id_def no_colon split_at_colon int_text_inj)
  moreover have "colons (stage_job_id stage g b) = 2"
    using g(1) assms(1) int_text_no_colon [of b]
    by (simp add: stage_job_id_def no_colon [symmetric] numeral_2_eq_2) (simp add: colons_def)
  ultimately show ?thesis by blast
qed

text \<open>Example: the fetch and the save job of one group and day.\<close>

lemma job_id_names_the_job_example:
  "stage_job_id JOB_FETCH ''0192f0c1-2b3d-7abc-8def-0123456789ab'' 60
     = ''fetch-messages:0192f0c1-2b3d-7abc-8def-0123456789ab:60''
   \<and> stage_job_id JOB_FETCH ''0192f0c1-2b3d-7abc-8def-0123456789ab'' 60
     \<noteq> stage_job_id JOB_SAVE ''0192f0c1-2b3d-7abc-8def-0123456789ab'' 60"
proof -
  let ?g = "''0192f0c1-2b3d-7abc-8def-0123456789ab''"
  have k: "colons JOB_FETCH = 0" "colons JOB_SAVE = 0" "uuid_re ?g" "JOB_FETCH \<noteq> JOB_SAVE"
    "stage_job_id JOB_FETCH ?g 60 = ''fetch-messages:0192f0c1-2b3d-7abc-8def-0123456789ab:60''"
    by code_simp+
  from job_id_names_the_job [OF k(1-3) k(3), of 60 60] k(4,5) show ?thesis by simp
qed

text \<open>
  The five stages of a flow run one after the other, from the fetch to the root, each on its queue
  and each with at most one child to read; every stage is tried at most three times, and every stage
  but the root fails its parent with it. Exactly the first one carries the start of the window.
\<close>

lemma flow_is_a_chain:
  "map (\<lambda>j. (fj_name j, fj_queue j)) (run_order (build_summary_flow g since b)) =
     [(''fetch-messages'', ''summary-queue''), (''generate-ai-summary'', ''ai-queue''),
      (''save-summary'', ''summary-queue''), (''publish-summary'', ''notification-queue''),
      (''group-summary'', ''summary-queue'')]
   \<and> list_all (\<lambda>j. length (fj_children j) \<le> 1 \<and> jo_attempts (fj_opts j) = 3
        \<and> jo_jobId (fj_opts j) = stage_job_id (fj_name j) g b \<and> jd_groupId (fj_data j) = g
        \<and> (jo_failParentOnFailure (fj_opts j) \<longleftrightarrow> fj_name j \<noteq> JOB_GROUP_SUMMARY)
        \<and> jd_since (fj_data j) = (if fj_name j = JOB_FETCH then Some (to_iso since) else None))
      (run_order (build_summary_flow g since b))"
  by (simp add: build_summary_flow_def Let_def job_names SUMMARY_QUEUE_def AI_QUEUE_def NOTIFICATION_QUEUE_def
      job_opts_for_def child_opts_def)

end
