(* ===== verification/Database.thy ===== *)
theory Database
  imports HttpErrors
begin

text \<open>
  The store behind the services, as backend/prisma/schema.prisma declares it: one record per model,
  the six tables, and the writes the services issue, with the schema's unique constraints (P2002),
  foreign keys (P2003), missing records (P2025) and cascades. Each table is an instance of the
  interface \<open>unique_rows\<close> of the prelude. The lemmas show that every write keeps the well-formedness
  \<open>db_wf\<close> of the store: unique keys unique, no dangling reference.
\<close>

section \<open>Enums and rows\<close>

datatype auth_provider = LOCAL | GOOGLE

datatype member_role = OWNER | ADMIN | MEMBER

datatype message_type = USER | SYSTEM | AI_SUMMARY

record user_row =
  u_id :: uuid
  u_email :: string
  u_password :: "string option"
  u_name :: string
  u_provider :: auth_provider
  u_providerId :: "string option"
  u_createdAt :: time

record group_row =
  g_id :: uuid
  g_name :: string
  g_createdBy :: uuid
  g_createdAt :: time

record member_row =
  gm_id :: uuid
  gm_groupId :: uuid
  gm_userId :: uuid
  gm_role :: member_role
  gm_joinedAt :: time
  gm_lastReadAt :: "time option"

record message_row =
  ms_id :: uuid
  ms_groupId :: uuid
  ms_senderId :: "uuid option"
  ms_content :: string
  ms_type :: message_type
  ms_createdAt :: time
  ms_editedAt :: "time option"
  ms_deletedAt :: "time option"
  ms_attachmentUrl :: "string option"
  ms_attachmentName :: "string option"
  ms_attachmentMime :: "string option"

record token_row =
  rt_id :: uuid
  rt_userId :: uuid
  rt_tokenHash :: string
  rt_familyId :: uuid
  rt_expiresAt :: time
  rt_revokedAt :: "time option"
  rt_createdAt :: time

record reaction_row =
  rx_id :: uuid
  rx_messageId :: uuid
  rx_userId :: uuid
  rx_emoji :: string
  rx_createdAt :: time

record db =
  db_users :: "user_row list"
  db_groups :: "group_row list"
  db_members :: "member_row list"
  db_messages :: "message_row list"
  db_tokens :: "token_row list"
  db_reactions :: "reaction_row list"

definition empty_db :: db where
  "empty_db = \<lparr>db_users = [], db_groups = [], db_members = [], db_messages = [], db_tokens = [],
     db_reactions = []\<rparr>"

section \<open>Unique keys\<close>

text \<open>SQL null is distinct from every value, so accounts without a provider id never clash on it.\<close>

definition user_clash :: "user_row \<Rightarrow> user_row \<Rightarrow> bool" where
  "user_clash a b \<longleftrightarrow> u_id a = u_id b \<or> u_email a = u_email b
     \<or> (u_provider a = u_provider b \<and> u_providerId a \<noteq> None \<and> u_providerId a = u_providerId b)"

definition group_clash :: "group_row \<Rightarrow> group_row \<Rightarrow> bool" where
  "group_clash a b \<longleftrightarrow> g_id a = g_id b \<or> (g_createdBy a = g_createdBy b \<and> g_name a = g_name b)"

definition member_clash :: "member_row \<Rightarrow> member_row \<Rightarrow> bool" where
  "member_clash a b \<longleftrightarrow> gm_id a = gm_id b
     \<or> (gm_groupId a = gm_groupId b \<and> gm_userId a = gm_userId b)"

definition message_clash :: "message_row \<Rightarrow> message_row \<Rightarrow> bool" where
  "message_clash a b \<longleftrightarrow> ms_id a = ms_id b"

definition token_clash :: "token_row \<Rightarrow> token_row \<Rightarrow> bool" where
  "token_clash a b \<longleftrightarrow> rt_id a = rt_id b \<or> rt_tokenHash a = rt_tokenHash b"

definition reaction_clash :: "reaction_row \<Rightarrow> reaction_row \<Rightarrow> bool" where
  "reaction_clash a b \<longleftrightarrow> rx_id a = rx_id b
     \<or> (rx_messageId a = rx_messageId b \<and> rx_userId a = rx_userId b \<and> rx_emoji a = rx_emoji b)"

lemmas clash_defs = user_clash_def group_clash_def member_clash_def message_clash_def
  token_clash_def reaction_clash_def

interpretation users: unique_rows user_clash
  by unfold_locales (unfold user_clash_def, metis+)

interpretation groups: unique_rows group_clash
  by unfold_locales (auto simp: group_clash_def)

interpretation members: unique_rows member_clash
  by unfold_locales (auto simp: member_clash_def)

interpretation messages: unique_rows message_clash
  by unfold_locales (auto simp: message_clash_def)

interpretation tokens: unique_rows token_clash
  by unfold_locales (auto simp: token_clash_def)

interpretation reactions: unique_rows reaction_clash
  by unfold_locales (auto simp: reaction_clash_def)

section \<open>Foreign keys\<close>

definition has_user :: "db \<Rightarrow> uuid \<Rightarrow> bool" where
  "has_user d i \<longleftrightarrow> list_ex (\<lambda>u. u_id u = i) (db_users d)"

definition has_group :: "db \<Rightarrow> uuid \<Rightarrow> bool" where
  "has_group d i \<longleftrightarrow> list_ex (\<lambda>g. g_id g = i) (db_groups d)"

definition has_message :: "db \<Rightarrow> uuid \<Rightarrow> bool" where
  "has_message d i \<longleftrightarrow> list_ex (\<lambda>m. ms_id m = i) (db_messages d)"

definition opt_user :: "db \<Rightarrow> uuid option \<Rightarrow> bool" where
  "opt_user d s = (case s of None \<Rightarrow> True | Some u \<Rightarrow> has_user d u)"

definition refs_ok :: "db \<Rightarrow> bool" where
  "refs_ok d \<longleftrightarrow>
     list_all (\<lambda>g. has_user d (g_createdBy g)) (db_groups d)
   \<and> list_all (\<lambda>m. has_group d (gm_groupId m) \<and> has_user d (gm_userId m)) (db_members d)
   \<and> list_all (\<lambda>m. has_group d (ms_groupId m) \<and> opt_user d (ms_senderId m)) (db_messages d)
   \<and> list_all (\<lambda>t. has_user d (rt_userId t)) (db_tokens d)
   \<and> list_all (\<lambda>r. has_message d (rx_messageId r) \<and> has_user d (rx_userId r)) (db_reactions d)"

definition keys_ok :: "db \<Rightarrow> bool" where
  "keys_ok d \<longleftrightarrow> no_clash user_clash (db_users d) \<and> no_clash group_clash (db_groups d)
   \<and> no_clash member_clash (db_members d) \<and> no_clash message_clash (db_messages d)
   \<and> no_clash token_clash (db_tokens d) \<and> no_clash reaction_clash (db_reactions d)"

definition db_wf :: "db \<Rightarrow> bool" where
  "db_wf d \<longleftrightarrow> keys_ok d \<and> refs_ok d"

section \<open>Writes\<close>

definition db_create_user :: "user_row \<Rightarrow> db \<Rightarrow> prisma_error + db" where
  "db_create_user u d =
     (case insert_row user_clash u (db_users d) of
        None \<Rightarrow> Inl (P2002 (Some (if list_ex (\<lambda>v. u_email v = u_email u) (db_users d)
                                 then [''email''] else [''provider'', ''providerId''])))
      | Some us \<Rightarrow> Inr (d\<lparr>db_users := us\<rparr>))"

definition db_create_group :: "group_row \<Rightarrow> db \<Rightarrow> prisma_error + db" where
  "db_create_group g d =
     (case insert_row group_clash g (db_groups d) of
        None \<Rightarrow> Inl (P2002 (Some [''createdBy'', ''name'']))
      | Some gs \<Rightarrow> (if has_user d (g_createdBy g) then Inr (d\<lparr>db_groups := gs\<rparr>) else Inl P2003))"

definition db_create_member :: "member_row \<Rightarrow> db \<Rightarrow> prisma_error + db" where
  "db_create_member m d =
     (case insert_row member_clash m (db_members d) of
        None \<Rightarrow> Inl (P2002 (Some [''groupId'', ''userId'']))
      | Some ms \<Rightarrow> (if has_group d (gm_groupId m) \<and> has_user d (gm_userId m)
                   then Inr (d\<lparr>db_members := ms\<rparr>) else Inl P2003))"

definition db_create_message :: "message_row \<Rightarrow> db \<Rightarrow> prisma_error + db" where
  "db_create_message m d =
     (case insert_row message_clash m (db_messages d) of
        None \<Rightarrow> Inl (P2002 (Some [''id'']))
      | Some ms \<Rightarrow> (if has_group d (ms_groupId m) \<and> opt_user d (ms_senderId m)
                   then Inr (d\<lparr>db_messages := ms\<rparr>) else Inl P2003))"

definition db_create_token :: "token_row \<Rightarrow> db \<Rightarrow> prisma_error + db" where
  "db_create_token t d =
     (case insert_row token_clash t (db_tokens d) of
        None \<Rightarrow> Inl (P2002 (Some [''tokenHash'']))
      | Some ts \<Rightarrow> (if has_user d (rt_userId t) then Inr (d\<lparr>db_tokens := ts\<rparr>) else Inl P2003))"

definition db_create_reaction :: "reaction_row \<Rightarrow> db \<Rightarrow> prisma_error + db" where
  "db_create_reaction r d =
     (case insert_row reaction_clash r (db_reactions d) of
        None \<Rightarrow> Inl (P2002 (Some [''messageId'', ''userId'', ''emoji'']))
      | Some rs \<Rightarrow> (if has_message d (rx_messageId r) \<and> has_user d (rx_userId r)
                   then Inr (d\<lparr>db_reactions := rs\<rparr>) else Inl P2003))"

text \<open>\<open>update\<close> and \<open>delete\<close> of one record throw P2025 when the unique filter matches no row.\<close>

definition db_update_member ::
  "(member_row \<Rightarrow> bool) \<Rightarrow> (member_row \<Rightarrow> member_row) \<Rightarrow> db \<Rightarrow> prisma_error + db" where
  "db_update_member P f d =
     (if list_ex P (db_members d) then Inr (d\<lparr>db_members := update_where P f (db_members d)\<rparr>)
      else Inl P2025)"

definition db_delete_member :: "(member_row \<Rightarrow> bool) \<Rightarrow> db \<Rightarrow> prisma_error + db" where
  "db_delete_member P d =
     (if list_ex P (db_members d) then Inr (d\<lparr>db_members := delete_where P (db_members d)\<rparr>)
      else Inl P2025)"

definition db_update_message ::
  "(message_row \<Rightarrow> bool) \<Rightarrow> (message_row \<Rightarrow> message_row) \<Rightarrow> db \<Rightarrow> prisma_error + db" where
  "db_update_message P f d =
     (if list_ex P (db_messages d) then Inr (d\<lparr>db_messages := update_where P f (db_messages d)\<rparr>)
      else Inl P2025)"

text \<open>Deleting a group cascades to its members and messages, and from these to their reactions.\<close>

definition db_delete_group :: "uuid \<Rightarrow> db \<Rightarrow> prisma_error + db" where
  "db_delete_group gid d =
     (if has_group d gid
      then Inr (d\<lparr>db_groups := delete_where (\<lambda>g. g_id g = gid) (db_groups d),
                  db_members := delete_where (\<lambda>m. gm_groupId m = gid) (db_members d),
                  db_messages := delete_where (\<lambda>m. ms_groupId m = gid) (db_messages d),
                  db_reactions := delete_where (\<lambda>r. list_ex (\<lambda>m. ms_id m = rx_messageId r
                     \<and> ms_groupId m = gid) (db_messages d)) (db_reactions d)\<rparr>)
      else Inl P2025)"

text \<open>\<open>updateMany\<close> and \<open>deleteMany\<close> report how many rows they touched.\<close>

definition db_update_tokens ::
  "(token_row \<Rightarrow> bool) \<Rightarrow> (token_row \<Rightarrow> token_row) \<Rightarrow> db \<Rightarrow> nat \<times> db" where
  "db_update_tokens P f d =
     (count_where P (db_tokens d), d\<lparr>db_tokens := update_where P f (db_tokens d)\<rparr>)"

definition db_delete_tokens :: "(token_row \<Rightarrow> bool) \<Rightarrow> db \<Rightarrow> nat \<times> db" where
  "db_delete_tokens P d =
     (count_where P (db_tokens d), d\<lparr>db_tokens := delete_where P (db_tokens d)\<rparr>)"

definition db_delete_reactions :: "(reaction_row \<Rightarrow> bool) \<Rightarrow> db \<Rightarrow> nat \<times> db" where
  "db_delete_reactions P d =
     (count_where P (db_reactions d), d\<lparr>db_reactions := delete_where P (db_reactions d)\<rparr>)"

section \<open>The store stays well-formed\<close>

lemma has_simps [simp]:
  "has_user (d\<lparr>db_groups := x\<rparr>) i = has_user d i" "has_user (d\<lparr>db_members := y\<rparr>) i = has_user d i"
  "has_user (d\<lparr>db_messages := z\<rparr>) i = has_user d i" "has_user (d\<lparr>db_tokens := v\<rparr>) i = has_user d i"
  "has_user (d\<lparr>db_reactions := w\<rparr>) i = has_user d i"
  "has_group (d\<lparr>db_users := u\<rparr>) i = has_group d i" "has_group (d\<lparr>db_members := y\<rparr>) i = has_group d i"
  "has_group (d\<lparr>db_messages := z\<rparr>) i = has_group d i" "has_group (d\<lparr>db_tokens := v\<rparr>) i = has_group d i"
  "has_group (d\<lparr>db_reactions := w\<rparr>) i = has_group d i"
  "has_message (d\<lparr>db_users := u\<rparr>) i = has_message d i"
  "has_message (d\<lparr>db_groups := x\<rparr>) i = has_message d i"
  "has_message (d\<lparr>db_members := y\<rparr>) i = has_message d i"
  "has_message (d\<lparr>db_tokens := v\<rparr>) i = has_message d i"
  "has_message (d\<lparr>db_reactions := w\<rparr>) i = has_message d i"
  by (simp_all add: has_user_def has_group_def has_message_def)

lemma opt_user_simps [simp]:
  "opt_user (d\<lparr>db_groups := x\<rparr>) s = opt_user d s" "opt_user (d\<lparr>db_members := y\<rparr>) s = opt_user d s"
  "opt_user (d\<lparr>db_messages := z\<rparr>) s = opt_user d s" "opt_user (d\<lparr>db_tokens := v\<rparr>) s = opt_user d s"
  "opt_user (d\<lparr>db_reactions := w\<rparr>) s = opt_user d s"
  by (simp_all add: opt_user_def split: option.splits)

lemma opt_user_append: "opt_user d s \<Longrightarrow> opt_user (d\<lparr>db_users := db_users d @ us\<rparr>) s"
  by (auto simp: opt_user_def has_user_def list_ex_iff split: option.splits)

lemma has_user_append [simp]:
  "has_user (d\<lparr>db_users := db_users d @ us\<rparr>) i \<longleftrightarrow> has_user d i \<or> (\<exists>u \<in> set us. u_id u = i)"
  by (auto simp: has_user_def list_ex_iff)

lemma has_group_append [simp]:
  "has_group (d\<lparr>db_groups := db_groups d @ gs\<rparr>) i \<longleftrightarrow> has_group d i \<or> (\<exists>g \<in> set gs. g_id g = i)"
  by (auto simp: has_group_def list_ex_iff)

lemma has_message_append [simp]:
  "has_message (d\<lparr>db_messages := db_messages d @ ms\<rparr>) i
     \<longleftrightarrow> has_message d i \<or> (\<exists>m \<in> set ms. ms_id m = i)"
  by (auto simp: has_message_def list_ex_iff)

lemma db_wf_empty: "db_wf empty_db"
  by (simp add: db_wf_def keys_ok_def refs_ok_def empty_db_def no_clash_def)

lemma db_create_user_wf [inv_intros]:
  "db_create_user u d = Inr d' \<Longrightarrow> db_wf d \<Longrightarrow> db_wf d'"
  by (auto simp: db_create_user_def db_wf_def keys_ok_def refs_ok_def list_all_iff
      opt_user_append dest!: users.insert_Some split: option.splits)

lemma db_create_group_wf [inv_intros]:
  "db_create_group g d = Inr d' \<Longrightarrow> db_wf d \<Longrightarrow> db_wf d'"
  by (auto simp: db_create_group_def db_wf_def keys_ok_def refs_ok_def list_all_iff
      dest!: groups.insert_Some split: option.splits if_splits)

lemma db_create_member_wf [inv_intros]:
  "db_create_member m d = Inr d' \<Longrightarrow> db_wf d \<Longrightarrow> db_wf d'"
  by (auto simp: db_create_member_def db_wf_def keys_ok_def refs_ok_def list_all_iff
      dest!: members.insert_Some split: option.splits if_splits)

lemma db_create_message_wf [inv_intros]:
  "db_create_message m d = Inr d' \<Longrightarrow> db_wf d \<Longrightarrow> db_wf d'"
  by (auto simp: db_create_message_def db_wf_def keys_ok_def refs_ok_def list_all_iff
      dest!: messages.insert_Some split: option.splits if_splits)

lemma db_create_token_wf [inv_intros]:
  "db_create_token t d = Inr d' \<Longrightarrow> db_wf d \<Longrightarrow> db_wf d'"
  by (auto simp: db_create_token_def db_wf_def keys_ok_def refs_ok_def list_all_iff
      dest!: tokens.insert_Some split: option.splits if_splits)

lemma db_create_reaction_wf [inv_intros]:
  "db_create_reaction r d = Inr d' \<Longrightarrow> db_wf d \<Longrightarrow> db_wf d'"
  by (auto simp: db_create_reaction_def db_wf_def keys_ok_def refs_ok_def list_all_iff
      dest!: reactions.insert_Some split: option.splits if_splits)

text \<open>An update that leaves the key columns alone keeps the store well-formed.\<close>

definition same_member_keys :: "(member_row \<Rightarrow> member_row) \<Rightarrow> bool" where
  "same_member_keys f \<longleftrightarrow> (\<forall>m. gm_id (f m) = gm_id m \<and> gm_groupId (f m) = gm_groupId m
     \<and> gm_userId (f m) = gm_userId m)"

definition same_message_keys :: "(message_row \<Rightarrow> message_row) \<Rightarrow> bool" where
  "same_message_keys f \<longleftrightarrow> (\<forall>m. ms_id (f m) = ms_id m \<and> ms_groupId (f m) = ms_groupId m
     \<and> ms_senderId (f m) = ms_senderId m)"

definition same_token_keys :: "(token_row \<Rightarrow> token_row) \<Rightarrow> bool" where
  "same_token_keys f \<longleftrightarrow> (\<forall>t. rt_id (f t) = rt_id t \<and> rt_tokenHash (f t) = rt_tokenHash t
     \<and> rt_userId (f t) = rt_userId t)"

lemma same_keys_record_updates [simp]:
  "same_member_keys (\<lambda>m. m\<lparr>gm_role := r\<rparr>)" "same_member_keys (\<lambda>m. m\<lparr>gm_lastReadAt := l\<rparr>)"
  "same_message_keys (\<lambda>m. m\<lparr>ms_content := c, ms_editedAt := e\<rparr>)"
  "same_message_keys (\<lambda>m. m\<lparr>ms_content := c, ms_deletedAt := e\<rparr>)"
  "same_token_keys (\<lambda>t. t\<lparr>rt_revokedAt := v\<rparr>)"
  by (simp_all add: same_member_keys_def same_message_keys_def same_token_keys_def)

lemma db_update_member_wf [inv_intros]:
  assumes "db_update_member P f d = Inr d'" and "same_member_keys f" and "db_wf d"
  shows "db_wf d'"
proof -
  have d': "d' = d\<lparr>db_members := update_where P f (db_members d)\<rparr>"
    using assms(1) by (simp add: db_update_member_def split: if_splits)
  have "no_clash member_clash (update_where P f (db_members d))"
    using assms(2,3)
    by (intro members.no_clash_update)
      (auto simp: member_clash_def same_member_keys_def db_wf_def keys_ok_def split: if_splits)
  then show ?thesis
    using assms(2,3)
    by (auto simp: d' db_wf_def keys_ok_def refs_ok_def list_all_iff row_simps same_member_keys_def)
qed

lemma db_delete_member_wf [inv_intros]:
  "db_delete_member P d = Inr d' \<Longrightarrow> db_wf d \<Longrightarrow> db_wf d'"
  by (auto simp: db_delete_member_def db_wf_def keys_ok_def refs_ok_def list_all_iff row_simps
      members.no_clash_delete split: if_splits)

lemma has_message_update_where:
  assumes "same_message_keys f"
  shows "has_message (d\<lparr>db_messages := update_where P f (db_messages d)\<rparr>) i = has_message d i"
  using assms
  by (auto simp: has_message_def list_ex_iff same_message_keys_def update_where_def)

lemma db_update_message_wf [inv_intros]:
  assumes "db_update_message P f d = Inr d'" and "same_message_keys f" and "db_wf d"
  shows "db_wf d'"
proof -
  have d': "d' = d\<lparr>db_messages := update_where P f (db_messages d)\<rparr>"
    using assms(1) by (simp add: db_update_message_def split: if_splits)
  have "no_clash message_clash (update_where P f (db_messages d))"
    using assms(2,3)
    by (intro messages.no_clash_update)
      (auto simp: message_clash_def same_message_keys_def db_wf_def keys_ok_def split: if_splits)
  then show ?thesis
    using assms(2,3)
    by (auto simp: d' db_wf_def keys_ok_def refs_ok_def list_all_iff row_simps
        same_message_keys_def has_message_update_where)
qed

lemma db_update_tokens_wf [inv_intros]:
  assumes "db_update_tokens P f d = (n, d')" and "same_token_keys f" and "db_wf d"
  shows "db_wf d'"
proof -
  have d': "d' = d\<lparr>db_tokens := update_where P f (db_tokens d)\<rparr>"
    using assms(1) by (simp add: db_update_tokens_def)
  have "no_clash token_clash (update_where P f (db_tokens d))"
    using assms(2,3)
    by (intro tokens.no_clash_update)
      (auto simp: token_clash_def same_token_keys_def db_wf_def keys_ok_def split: if_splits)
  then show ?thesis
    using assms(2,3)
    by (auto simp: d' db_wf_def keys_ok_def refs_ok_def list_all_iff row_simps same_token_keys_def)
qed

lemma db_delete_tokens_wf [inv_intros]:
  "db_delete_tokens P d = (n, d') \<Longrightarrow> db_wf d \<Longrightarrow> db_wf d'"
  by (auto simp: db_delete_tokens_def db_wf_def keys_ok_def refs_ok_def list_all_iff row_simps
      tokens.no_clash_delete)

lemma db_delete_reactions_wf [inv_intros]:
  "db_delete_reactions P d = (n, d') \<Longrightarrow> db_wf d \<Longrightarrow> db_wf d'"
  by (auto simp: db_delete_reactions_def db_wf_def keys_ok_def refs_ok_def list_all_iff row_simps
      reactions.no_clash_delete)

lemma db_delete_group_wf [inv_intros]:
  assumes "db_delete_group gid d = Inr d'" and "db_wf d"
  shows "db_wf d'"
proof -
  have d': "d' = d\<lparr>db_groups := delete_where (\<lambda>g. g_id g = gid) (db_groups d),
                  db_members := delete_where (\<lambda>m. gm_groupId m = gid) (db_members d),
                  db_messages := delete_where (\<lambda>m. ms_groupId m = gid) (db_messages d),
                  db_reactions := delete_where (\<lambda>r. list_ex (\<lambda>m. ms_id m = rx_messageId r
                     \<and> ms_groupId m = gid) (db_messages d)) (db_reactions d)\<rparr>"
    using assms(1) by (simp add: db_delete_group_def split: if_splits)
  have keys: "keys_ok d'"
    using assms(2)
    by (simp add: d' db_wf_def keys_ok_def groups.no_clash_delete members.no_clash_delete
        messages.no_clash_delete reactions.no_clash_delete)
  have group: "has_group d' i" if "has_group d i" "i \<noteq> gid" for i
    using that by (auto simp: d' has_group_def list_ex_iff row_simps)
  have message: "has_message d' (rx_messageId r)"
    if "r \<in> set (db_reactions d')" "has_message d (rx_messageId r)" for r
    using that by (auto simp: d' has_message_def list_ex_iff row_simps)
  have same: "db_users d' = db_users d" "db_tokens d' = db_tokens d"
    and user: "has_user d' i = has_user d i" "opt_user d' s = opt_user d s" for i s
    by (simp_all add: d' has_user_def opt_user_def split: option.splits)
  have sub: "set (db_groups d') \<subseteq> set (db_groups d)" "set (db_reactions d') \<subseteq> set (db_reactions d)"
    and mem: "m \<in> set (db_members d') \<Longrightarrow> m \<in> set (db_members d) \<and> gm_groupId m \<noteq> gid"
    and msg: "x \<in> set (db_messages d') \<Longrightarrow> x \<in> set (db_messages d) \<and> ms_groupId x \<noteq> gid" for m x
    by (auto simp: d' row_simps)
  have "refs_ok d"
    using assms(2) by (simp add: db_wf_def)
  then have refs: "g \<in> set (db_groups d) \<Longrightarrow> has_user d (g_createdBy g)"
    "m \<in> set (db_members d) \<Longrightarrow> has_group d (gm_groupId m) \<and> has_user d (gm_userId m)"
    "x \<in> set (db_messages d) \<Longrightarrow> has_group d (ms_groupId x) \<and> opt_user d (ms_senderId x)"
    "t \<in> set (db_tokens d) \<Longrightarrow> has_user d (rt_userId t)"
    "r \<in> set (db_reactions d) \<Longrightarrow> has_message d (rx_messageId r) \<and> has_user d (rx_userId r)" for g m x t r
    by (simp_all add: refs_ok_def list_all_iff)
  have "refs_ok d'"
    unfolding refs_ok_def list_all_iff user same
  proof (intro conjI ballI)
    show "has_user d (g_createdBy g)" if "g \<in> set (db_groups d')" for g using refs(1) sub that by blast
    show "has_group d' (gm_groupId m)" "has_user d (gm_userId m)" if "m \<in> set (db_members d')" for m
      using refs(2) mem [OF that] group by blast+
    show "has_group d' (ms_groupId x)" "opt_user d (ms_senderId x)" if "x \<in> set (db_messages d')" for x
      using refs(3) msg [OF that] group by blast+
    show "has_user d (rt_userId t)" if "t \<in> set (db_tokens d)" for t using refs(4) that by blast
    show "has_message d' (rx_messageId r)" "has_user d (rx_userId r)" if "r \<in> set (db_reactions d')" for r
      using refs(5) sub message that by blast+
  qed
  with keys show ?thesis by (simp add: db_wf_def)
qed

end
