(* ===== verification/Events.thy ===== *)
theory Events
  imports Database
begin

text \<open>
  The in-process event contract between the services and the chat gateway (groups/group-events.ts,
  messages/message-events.ts), with the two shared projections of a row: \<open>MESSAGE_SELECT\<close>
  (messages/message.select.ts) and \<open>GROUP_MEMBER_SELECT\<close> (groups/group.constants.ts). The lemmas
  show that neither projection can carry a password hash: changing every stored password changes
  no payload.
\<close>

record joined_member =
  jm_role :: member_role
  jm_joinedAt :: time
  jm_lastReadAt :: "time option"
  jm_user :: "(uuid \<times> string \<times> string) option"

record broadcast_message =
  bm_id :: uuid
  bm_groupId :: uuid
  bm_content :: string
  bm_type :: message_type
  bm_createdAt :: time
  bm_editedAt :: "time option"
  bm_deletedAt :: "time option"
  bm_senderId :: "uuid option"
  bm_sender :: "(uuid \<times> string) option"
  bm_reactions :: "(string \<times> uuid) list"
  bm_attachmentUrl :: "string option"
  bm_attachmentName :: "string option"
  bm_attachmentMime :: "string option"

datatype app_event =
    MEMBER_JOINED uuid joined_member
  | READ_MARKED uuid uuid time
  | MEMBER_LEFT uuid uuid
  | OWNER_CHANGED uuid uuid uuid
  | MESSAGE_CREATED broadcast_message
  | MESSAGE_UPDATED broadcast_message
  | REACTION_CHANGED uuid uuid "(string \<times> uuid) list"

definition find_user :: "uuid \<Rightarrow> db \<Rightarrow> user_row option" where
  "find_user i d = List.find (\<lambda>u. u_id u = i) (db_users d)"

definition member_select :: "db \<Rightarrow> member_row \<Rightarrow> joined_member" where
  "member_select d m =
     \<lparr>jm_role = gm_role m, jm_joinedAt = gm_joinedAt m, jm_lastReadAt = gm_lastReadAt m,
      jm_user = map_option (\<lambda>u. (u_id u, u_name u, u_email u)) (find_user (gm_userId m) d)\<rparr>"

definition reactions_of :: "db \<Rightarrow> uuid \<Rightarrow> (string \<times> uuid) list" where
  "reactions_of d mid =
     map (\<lambda>r. (rx_emoji r, rx_userId r)) (filter (\<lambda>r. rx_messageId r = mid) (db_reactions d))"

definition message_select :: "db \<Rightarrow> message_row \<Rightarrow> broadcast_message" where
  "message_select d m =
     \<lparr>bm_id = ms_id m, bm_groupId = ms_groupId m, bm_content = ms_content m, bm_type = ms_type m,
      bm_createdAt = ms_createdAt m, bm_editedAt = ms_editedAt m, bm_deletedAt = ms_deletedAt m,
      bm_senderId = ms_senderId m,
      bm_sender = Option.bind (ms_senderId m)
        (\<lambda>s. map_option (\<lambda>u. (u_id u, u_name u)) (find_user s d)),
      bm_reactions = reactions_of d (ms_id m),
      bm_attachmentUrl = ms_attachmentUrl m, bm_attachmentName = ms_attachmentName m,
      bm_attachmentMime = ms_attachmentMime m\<rparr>"

text \<open>The store with every password replaced.\<close>

definition with_passwords :: "(user_row \<Rightarrow> string option) \<Rightarrow> db \<Rightarrow> db" where
  "with_passwords p d = d\<lparr>db_users := map (\<lambda>u. u\<lparr>u_password := p u\<rparr>) (db_users d)\<rparr>"

lemma find_user_with_passwords:
  "find_user i (with_passwords p d) = map_option (\<lambda>u. u\<lparr>u_password := p u\<rparr>) (find_user i d)"
proof -
  have "List.find (\<lambda>u. u_id u = i) (map (\<lambda>u. u\<lparr>u_password := p u\<rparr>) us)
      = map_option (\<lambda>u. u\<lparr>u_password := p u\<rparr>) (List.find (\<lambda>u. u_id u = i) us)" for us
    by (induction us) auto
  then show ?thesis by (simp add: find_user_def with_passwords_def)
qed

lemma selects_hide_passwords:
  "member_select (with_passwords p d) m = member_select d m"
  "message_select (with_passwords p d) x = message_select d x"
  by (simp_all add: member_select_def message_select_def find_user_with_passwords
      option.map_comp comp_def reactions_of_def)
    (simp_all add: with_passwords_def)

lemma find_user_Some: "find_user i d = Some u \<Longrightarrow> u \<in> set (db_users d) \<and> u_id u = i"
  by (auto simp: find_user_def dest: find_SomeD)

lemma find_user_has_user: "has_user d i \<longleftrightarrow> (\<exists>u. find_user i d = Some u)"
proof -
  have "list_ex (\<lambda>u. u_id u = i) us \<longleftrightarrow> (\<exists>u. List.find (\<lambda>u. u_id u = i) us = Some u)" for us
    by (induction us) auto
  then show ?thesis by (simp add: has_user_def find_user_def)
qed

section \<open>A sample store\<close>

text \<open>
  One group of three members with two messages, a reaction and a refresh token: the input on which
  the later theories show that the hypotheses of their properties can hold.
\<close>

definition sample_id :: "nat \<Rightarrow> uuid" where
  "sample_id n = ''00000000-0000-7000-8000-00000000ab'' @ [digit_char (n div 10), digit_char n]"

definition sample_user :: "nat \<Rightarrow> string \<Rightarrow> user_row" where
  "sample_user n name = \<lparr>u_id = sample_id n, u_email = name @ ''@x.com'', u_password = Some (''hash-'' @ name),
     u_name = name, u_provider = LOCAL, u_providerId = None, u_createdAt = 10\<rparr>"

definition sample_member :: "nat \<Rightarrow> nat \<Rightarrow> member_role \<Rightarrow> time \<Rightarrow> member_row" where
  "sample_member n u role joined = \<lparr>gm_id = sample_id n, gm_groupId = sample_id 4,
     gm_userId = sample_id u, gm_role = role, gm_joinedAt = joined, gm_lastReadAt = None\<rparr>"

definition sample_message :: "nat \<Rightarrow> nat \<Rightarrow> string \<Rightarrow> time \<Rightarrow> message_row" where
  "sample_message n u text at = \<lparr>ms_id = sample_id n, ms_groupId = sample_id 4,
     ms_senderId = Some (sample_id u), ms_content = text, ms_type = USER, ms_createdAt = at,
     ms_editedAt = None, ms_deletedAt = None, ms_attachmentUrl = None, ms_attachmentName = None,
     ms_attachmentMime = None\<rparr>"

definition sample_db :: db where
  "sample_db =
     \<lparr>db_users = [sample_user 1 ''ann'', sample_user 2 ''bob'', sample_user 3 ''cy''],
      db_groups = [\<lparr>g_id = sample_id 4, g_name = ''Team'', g_createdBy = sample_id 1, g_createdAt = 90\<rparr>],
      db_members = [sample_member 5 1 OWNER 100, sample_member 6 2 MEMBER 200,
                    sample_member 7 3 MEMBER 150],
      db_messages = [sample_message 8 1 ''hello'' 300, sample_message 9 2 ''Hi Ann'' 310],
      db_tokens = [],
      db_reactions = [\<lparr>rx_id = sample_id 10, rx_messageId = sample_id 8, rx_userId = sample_id 2,
                       rx_emoji = ''+'', rx_createdAt = 320\<rparr>]\<rparr>"

text \<open>The same ids in capitals.\<close>

definition sample_caps :: "nat \<Rightarrow> string" where
  "sample_caps n = ''00000000-0000-7000-8000-00000000AB'' @ [digit_char (n div 10), digit_char n]"

lemma sample_db_wf: "db_wf sample_db"
  by code_simp

lemma sample_id_uuid: "uuid_re (sample_id 4)" "\<not> uuid_re ''42''"
  by code_simp+

lemma lower_digit_char [simp]: "lower_char (digit_char n) = digit_char n"
  using mod_less_divisor [of 10 n] by (simp add: lower_char_def digit_char_def cp_def del: mod_less_divisor)

lemma as_uuid_sample [simp]: "as_uuid (sample_id n) = sample_id n" "as_uuid (sample_caps n) = sample_id n"
  by (simp_all add: as_uuid_def to_lower_def sample_id_def sample_caps_def) code_simp+

lemma sample_id_nonempty [simp]: "sample_id n \<noteq> []"
  by (simp add: sample_id_def)

end
