(* ===== verification/ChatGroups.thy ===== *)
theory ChatGroups
  imports Events
begin

text \<open>
  Groups and memberships (backend/src/groups): \<open>GroupsService\<close> with its transactions, the HTTP guard
  \<open>GroupMemberGuard\<close> and the routes of \<open>GroupsController\<close>. An operation takes what the environment
  draws (new ids, the clock), the source's arguments and the store; it returns the new store, the
  events emitted after the commit, and the result or the exception. A failed transaction leaves the
  store as it was.

  The interface \<open>membership_rule\<close> is what the guard (and the socket gateway) rely on: a check that
  passes exactly for members and fails with one and the same exception. It is interpreted on
  \<open>assert_member\<close>. The lemmas show the ownership invariant (every group has exactly one OWNER) and
  the behaviour of each operation on every branch, and how far it holds when transactions interleave.
\<close>

section \<open>Constants and DTOs\<close>

definition NOT_A_MEMBER_MESSAGE :: string where
  "NOT_A_MEMBER_MESSAGE = ''You are not a member of this group''"

definition GROUP_NAME_MAX_LENGTH :: nat where
  "GROUP_NAME_MAX_LENGTH = 80"

text \<open>\<open>CreateGroupDto.name\<close>: trimmed first, then a string of 1 to 80 characters; \<open>None\<close> is a 400.\<close>

definition create_group_dto :: "jsval \<Rightarrow> string option" where
  "create_group_dto v = bounded_text 1 GROUP_NAME_MAX_LENGTH (trim_value v)"

section \<open>GroupsService\<close>

definition is_member :: "db \<Rightarrow> uuid \<Rightarrow> uuid \<Rightarrow> bool" where
  "is_member d userId groupId \<longleftrightarrow>
     list_ex (\<lambda>m. gm_groupId m = as_uuid groupId \<and> gm_userId m = as_uuid userId) (db_members d)"

lemma is_member_code [code]:
  "is_member d userId groupId = (let g = as_uuid groupId; u = as_uuid userId
     in list_ex (\<lambda>m. gm_groupId m = g \<and> gm_userId m = u) (db_members d))"
  by (simp add: is_member_def)

definition find_membership :: "uuid \<Rightarrow> uuid \<Rightarrow> db \<Rightarrow> member_row option" where
  "find_membership userId groupId d =
     List.find (\<lambda>m. gm_groupId m = as_uuid groupId \<and> gm_userId m = as_uuid userId) (db_members d)"

definition find_group :: "uuid \<Rightarrow> db \<Rightarrow> group_row option" where
  "find_group gid d = List.find (\<lambda>g. g_id g = as_uuid gid) (db_groups d)"

text \<open>A P2002 is rethrown with a message of its own, anything else untouched.\<close>

definition translate_p2002 :: "string \<Rightarrow> prisma_error \<Rightarrow> exn" where
  "translate_p2002 msg e = (case e of P2002 _ \<Rightarrow> conflict msg | _ \<Rightarrow> PrismaExn e)"

definition groups_create ::
  "uuid \<Rightarrow> uuid \<Rightarrow> time \<Rightarrow> uuid \<Rightarrow> string \<Rightarrow> db \<Rightarrow> db \<times> (exn + group_row)" where
  "groups_create gid mid now userId name d =
     (let g = \<lparr>g_id = gid, g_name = name, g_createdBy = as_uuid userId, g_createdAt = now\<rparr>;
          failed = translate_p2002 ''You already have a group with this name''
      in case db_create_group g d of
           Inl e \<Rightarrow> (d, Inl (failed e))
         | Inr d1 \<Rightarrow>
             (case db_create_member \<lparr>gm_id = mid, gm_groupId = gid, gm_userId = as_uuid userId,
                      gm_role = OWNER, gm_joinedAt = now, gm_lastReadAt = None\<rparr> d1 of
                Inl e \<Rightarrow> (d, Inl (failed e))
              | Inr d2 \<Rightarrow> (d2, Inr g)))"

text \<open>The list entries: the group with its member and message counts, newest first.\<close>

definition find_my_groups :: "uuid \<Rightarrow> db \<Rightarrow> (group_row \<times> nat \<times> nat) list" where
  "find_my_groups userId d =
     map (\<lambda>g. (g, count_where (\<lambda>m. gm_groupId m = g_id g) (db_members d),
                  count_where (\<lambda>m. ms_groupId m = g_id g) (db_messages d)))
       (rev (sort_key g_createdAt (filter (\<lambda>g. is_member d userId (g_id g)) (db_groups d))))"

definition find_one :: "uuid \<Rightarrow> db \<Rightarrow> exn + group_row \<times> joined_member list" where
  "find_one groupId d = (case find_group groupId d of
     None \<Rightarrow> Inl (not_found ''Group not found'')
   | Some g \<Rightarrow> Inr (g, map (member_select d)
        (sort_key gm_joinedAt (filter (\<lambda>m. gm_groupId m = as_uuid groupId) (db_members d)))))"

definition groups_join ::
  "uuid \<Rightarrow> time \<Rightarrow> uuid \<Rightarrow> uuid \<Rightarrow> db \<Rightarrow> db \<times> app_event list \<times> (exn + group_row)" where
  "groups_join mid now userId groupId d = (case find_group groupId d of
     None \<Rightarrow> (d, [], Inl (not_found ''Group not found''))
   | Some g \<Rightarrow>
       (let m = \<lparr>gm_id = mid, gm_groupId = as_uuid groupId, gm_userId = as_uuid userId, gm_role = MEMBER,
                 gm_joinedAt = now, gm_lastReadAt = None\<rparr>
        in case db_create_member m d of
             Inl e \<Rightarrow> (d, [], Inl (translate_p2002 ''You are already a member of this group'' e))
           | Inr d1 \<Rightarrow> (d1, [MEMBER_JOINED groupId (member_select d1 m)], Inr g)))"

text \<open>
  \<open>leave\<close> is one interactive transaction: first the reads (the caller's row, for an owner the
  longest-standing other member), which fix what will be written, then the writes.
\<close>

datatype leave_plan = DropMember uuid | DropGroup | Promote uuid uuid uuid

definition leave_read :: "uuid \<Rightarrow> uuid \<Rightarrow> db \<Rightarrow> exn + leave_plan" where
  "leave_read userId groupId d = (case find_membership userId groupId d of
     None \<Rightarrow> Inl (forbidden NOT_A_MEMBER_MESSAGE)
   | Some me \<Rightarrow>
       (if gm_role me \<noteq> OWNER then Inr (DropMember (gm_id me))
        else case first_by (\<lambda>m. (gm_joinedAt m, gm_id m))
                    (\<lambda>m. gm_groupId m = as_uuid groupId \<and> gm_userId m \<noteq> as_uuid userId) (db_members d) of
               None \<Rightarrow> Inr DropGroup
             | Some s \<Rightarrow> Inr (Promote (gm_id s) (gm_userId s) (gm_id me))))"

definition set_role :: "uuid \<Rightarrow> member_role \<Rightarrow> db \<Rightarrow> prisma_error + db" where
  "set_role mid role d =
     db_update_member (\<lambda>m. gm_id m = mid) (\<lambda>m. m\<lparr>gm_role := role\<rparr>) d"

record leave_outcome =
  lo_groupDeleted :: bool
  lo_newOwnerId :: "uuid option"

definition leave_write :: "uuid \<Rightarrow> leave_plan \<Rightarrow> db \<Rightarrow> prisma_error + db \<times> leave_outcome" where
  "leave_write groupId plan d = (case plan of
     DropMember me \<Rightarrow>
       (case db_delete_member (\<lambda>m. gm_id m = me) d of
          Inl e \<Rightarrow> Inl e
        | Inr d1 \<Rightarrow> Inr (d1, \<lparr>lo_groupDeleted = False, lo_newOwnerId = None\<rparr>))
   | DropGroup \<Rightarrow>
       (case db_delete_group (as_uuid groupId) d of
          Inl e \<Rightarrow> Inl e
        | Inr d1 \<Rightarrow> Inr (d1, \<lparr>lo_groupDeleted = True, lo_newOwnerId = None\<rparr>))
   | Promote succ succ_user me \<Rightarrow>
       (case set_role succ OWNER d of
          Inl e \<Rightarrow> Inl e
        | Inr d1 \<Rightarrow>
            (case db_delete_member (\<lambda>m. gm_id m = me) d1 of
               Inl e \<Rightarrow> Inl e
             | Inr d2 \<Rightarrow> Inr (d2, \<lparr>lo_groupDeleted = False, lo_newOwnerId = Some succ_user\<rparr>))))"

definition leave_events :: "uuid \<Rightarrow> uuid \<Rightarrow> leave_outcome \<Rightarrow> app_event list" where
  "leave_events userId groupId o' =
     (case lo_newOwnerId o' of Some n \<Rightarrow> (if n \<noteq> [] then [OWNER_CHANGED groupId userId n] else [])
      | None \<Rightarrow> []) @ (if \<not> lo_groupDeleted o' then [MEMBER_LEFT groupId userId] else [])"

definition groups_leave ::
  "uuid \<Rightarrow> uuid \<Rightarrow> db \<Rightarrow> db \<times> app_event list \<times> (exn + leave_outcome)" where
  "groups_leave userId groupId d = (case leave_read userId groupId d of
     Inl e \<Rightarrow> (d, [], Inl e)
   | Inr plan \<Rightarrow>
       (case leave_write groupId plan d of
          Inl e \<Rightarrow> (d, [], Inl (PrismaExn e))
        | Inr (d1, out) \<Rightarrow> (d1, leave_events userId groupId out, Inr out)))"

text \<open>\<open>transferOwnership\<close>: again the transaction's reads, then its two updates.\<close>

definition transfer_read :: "uuid \<Rightarrow> uuid \<Rightarrow> uuid \<Rightarrow> db \<Rightarrow> exn + uuid \<times> uuid" where
  "transfer_read callerId groupId targetUserId d =
     (case find_membership callerId groupId d of
        None \<Rightarrow> Inl (forbidden ''Only the group owner can transfer ownership'')
      | Some caller \<Rightarrow>
          (if gm_role caller \<noteq> OWNER
           then Inl (forbidden ''Only the group owner can transfer ownership'')
           else case find_membership targetUserId groupId d of
               None \<Rightarrow> Inl (not_found ''That user is not a member of this group'')
             | Some target \<Rightarrow> Inr (gm_id target, gm_id caller)))"

definition transfer_write :: "uuid \<times> uuid \<Rightarrow> db \<Rightarrow> prisma_error + db" where
  "transfer_write p d = (case set_role (fst p) OWNER d of
     Inl e \<Rightarrow> Inl e
   | Inr d1 \<Rightarrow> set_role (snd p) MEMBER d1)"

definition transfer_ownership ::
  "uuid \<Rightarrow> uuid \<Rightarrow> uuid \<Rightarrow> db \<Rightarrow> db \<times> app_event list \<times> (exn + uuid \<times> uuid)" where
  "transfer_ownership callerId groupId targetUserId d =
     (if callerId = targetUserId then (d, [], Inl (bad_request ''You already own this group''))
      else case transfer_read callerId groupId targetUserId d of
          Inl e \<Rightarrow> (d, [], Inl e)
        | Inr p \<Rightarrow>
            (case transfer_write p d of
               Inl e \<Rightarrow> (d, [], Inl (PrismaExn e))
             | Inr d1 \<Rightarrow>
                 (d1, [OWNER_CHANGED groupId callerId targetUserId], Inr (callerId, targetUserId))))"

definition assert_member :: "uuid \<Rightarrow> uuid \<Rightarrow> db \<Rightarrow> exn + member_row" where
  "assert_member userId groupId d =
     (if \<not> is_uuid (JStr groupId) then Inl (forbidden NOT_A_MEMBER_MESSAGE)
      else case find_membership userId groupId d of
          None \<Rightarrow> Inl (forbidden NOT_A_MEMBER_MESSAGE)
        | Some m \<Rightarrow> Inr m)"

definition mark_read :: "time \<Rightarrow> uuid \<Rightarrow> uuid \<Rightarrow> db \<Rightarrow> db \<times> app_event list \<times> (exn + time)" where
  "mark_read now userId groupId d =
     (case db_update_member (\<lambda>m. gm_groupId m = as_uuid groupId \<and> gm_userId m = as_uuid userId)
             (\<lambda>m. m\<lparr>gm_lastReadAt := Some now\<rparr>) d of
        Inl e \<Rightarrow> (d, [], Inl (PrismaExn e))
      | Inr d1 \<Rightarrow> (d1, [READ_MARKED groupId userId now], Inr now))"

section \<open>The membership rule as an interface\<close>

text \<open>\<open>GroupMemberGuard.canActivate\<close>, over the injected service's check.\<close>

definition group_member_guard ::
  "(uuid \<Rightarrow> uuid \<Rightarrow> 's \<Rightarrow> exn + 'm) \<Rightarrow> auth_user option \<Rightarrow> uuid \<Rightarrow> 's \<Rightarrow> exn + 'm" where
  "group_member_guard check user groupId s = (case user of
     None \<Rightarrow> Inl (unauthorized ''Unauthorized'')
   | Some u \<Rightarrow> check (au_userId u) groupId s)"

text \<open>A guarded route: guards run before the parameter pipes, then the handler.\<close>

definition guarded ::
  "(uuid \<Rightarrow> uuid \<Rightarrow> 's \<Rightarrow> exn + 'm) \<Rightarrow> auth_user option \<Rightarrow> uuid \<Rightarrow> 's
    \<Rightarrow> (uuid \<Rightarrow> uuid \<Rightarrow> exn + 'a) \<Rightarrow> exn + 'a" where
  "guarded check user groupId s handler = (case group_member_guard check user groupId s of
     Inl e \<Rightarrow> Inl e
   | Inr _ \<Rightarrow> (case user of None \<Rightarrow> Inl (unauthorized ''Unauthorized'')
              | Some u \<Rightarrow> (case parse_uuid_pipe groupId of
                            Inl e \<Rightarrow> Inl e | Inr i \<Rightarrow> handler (au_userId u) i)))"

locale membership_rule =
  fixes check :: "uuid \<Rightarrow> uuid \<Rightarrow> 's \<Rightarrow> exn + 'm"
    and member :: "'s \<Rightarrow> uuid \<Rightarrow> uuid \<Rightarrow> bool"
  assumes check_sound: "check u g s = Inr m \<Longrightarrow> member s u g \<and> uuid_re g"
    and check_complete: "member s u g \<Longrightarrow> uuid_re g \<Longrightarrow> \<exists>m. check u g s = Inr m"
    and check_opaque: "check u g s = Inl e \<Longrightarrow> e = forbidden NOT_A_MEMBER_MESSAGE"
begin

lemma check_iff: "(\<exists>m. check u g s = Inr m) \<longleftrightarrow> member s u g \<and> uuid_re g"
  using check_sound check_complete by blast

lemma check_denied: "\<not> (member s u g \<and> uuid_re g) \<Longrightarrow> check u g s = Inl (forbidden NOT_A_MEMBER_MESSAGE)"
  using check_iff check_opaque by (cases "check u g s") blast+

lemma guarded_member:
  "member s (au_userId u) g \<Longrightarrow> uuid_re g \<Longrightarrow> guarded check (Some u) g s h = h (au_userId u) g"
  using check_complete [of s "au_userId u" g]
  by (auto simp: guarded_def group_member_guard_def parse_uuid_pipe_def is_uuid_def)

lemma guarded_denied:
  "\<not> (member s (au_userId u) g \<and> uuid_re g) \<Longrightarrow>
     guarded check (Some u) g s h = Inl (forbidden NOT_A_MEMBER_MESSAGE)"
  by (simp add: guarded_def group_member_guard_def check_denied)

lemma guarded_anonymous: "guarded check None g s h = Inl (unauthorized ''Unauthorized'')"
  by (simp add: guarded_def group_member_guard_def)

end

lemma find_membership_SomeD:
  "find_membership u g d = Some m \<Longrightarrow> m \<in> set (db_members d) \<and> gm_groupId m = as_uuid g \<and> gm_userId m = as_uuid u"
  by (auto simp: find_membership_def dest: find_SomeD)

lemma is_member_iff: "is_member d u g \<longleftrightarrow> (\<exists>m. find_membership u g d = Some m)"
proof -
  have "list_ex P ms \<longleftrightarrow> (\<exists>m. List.find P ms = Some m)" for P and ms :: "member_row list"
    by (induction ms) auto
  then show ?thesis by (simp add: is_member_def find_membership_def)
qed

interpretation db_rule: membership_rule assert_member is_member
  by unfold_locales
    (auto simp: assert_member_def is_uuid_def is_member_iff split: if_splits option.splits)

section \<open>The routes of GroupsController\<close>

definition ctl_create ::
  "uuid \<Rightarrow> uuid \<Rightarrow> time \<Rightarrow> auth_user \<Rightarrow> jsval \<Rightarrow> db \<Rightarrow> db \<times> (exn + group_row)" where
  "ctl_create gid mid now user name d = (case create_group_dto name of
     None \<Rightarrow> (d, Inl validation_failed)
   | Some n \<Rightarrow> groups_create gid mid now (au_userId user) n d)"

definition ctl_find_mine :: "auth_user \<Rightarrow> db \<Rightarrow> (group_row \<times> nat \<times> nat) list" where
  "ctl_find_mine user d = find_my_groups (au_userId user) d"

definition ctl_find_one ::
  "auth_user option \<Rightarrow> uuid \<Rightarrow> db \<Rightarrow> exn + group_row \<times> joined_member list" where
  "ctl_find_one user groupId d = guarded assert_member user groupId d (\<lambda>_ i. find_one i d)"

definition ctl_join ::
  "uuid \<Rightarrow> time \<Rightarrow> auth_user \<Rightarrow> uuid \<Rightarrow> db \<Rightarrow> db \<times> app_event list \<times> (exn + group_row)" where
  "ctl_join mid now user groupId d = (case parse_uuid_pipe groupId of
     Inl e \<Rightarrow> (d, [], Inl e)
   | Inr i \<Rightarrow> groups_join mid now (au_userId user) i d)"

text \<open>A guarded route whose handler writes: a refusal leaves the store alone and emits nothing.\<close>

definition guarded_write ::
  "auth_user option \<Rightarrow> uuid \<Rightarrow> db \<Rightarrow> (uuid \<Rightarrow> uuid \<Rightarrow> db \<times> app_event list \<times> (exn + 'a))
    \<Rightarrow> db \<times> app_event list \<times> (exn + 'a)" where
  "guarded_write user groupId d handler =
     (case guarded assert_member user groupId d (\<lambda>u i. Inr (u, i)) of
        Inl e \<Rightarrow> (d, [], Inl e)
      | Inr (u, i) \<Rightarrow> handler u i)"

definition ctl_mark_read ::
  "time \<Rightarrow> auth_user option \<Rightarrow> uuid \<Rightarrow> db \<Rightarrow> db \<times> app_event list \<times> (exn + time)" where
  "ctl_mark_read now user groupId d = guarded_write user groupId d (\<lambda>u i. mark_read now u i d)"

definition ctl_leave ::
  "auth_user option \<Rightarrow> uuid \<Rightarrow> db \<Rightarrow> db \<times> app_event list \<times> (exn + leave_outcome)" where
  "ctl_leave user groupId d = guarded_write user groupId d (\<lambda>u i. groups_leave u i d)"

text \<open>\<open>valid_uuid\<close> is class-validator's check of the DTO field.\<close>

definition ctl_transfer ::
  "(string \<Rightarrow> bool) \<Rightarrow> auth_user option \<Rightarrow> uuid \<Rightarrow> uuid \<Rightarrow> db \<Rightarrow> db \<times> app_event list \<times> (exn + uuid \<times> uuid)" where
  "ctl_transfer valid_uuid user groupId target d =
     guarded_write user groupId d (\<lambda>u i. if valid_uuid target then transfer_ownership u i target d
        else (d, [], Inl validation_failed))"

lemma guarded_write_denied:
  "\<not> (is_member d (au_userId u) g \<and> uuid_re g) \<Longrightarrow>
     guarded_write (Some u) g d h = (d, [], Inl (forbidden NOT_A_MEMBER_MESSAGE))"
  by (simp add: guarded_write_def db_rule.guarded_denied)

lemma guarded_write_member:
  "is_member d (au_userId u) g \<Longrightarrow> uuid_re g \<Longrightarrow> guarded_write (Some u) g d h = h (au_userId u) g"
  by (simp add: guarded_write_def db_rule.guarded_member)

section \<open>Every group has exactly one owner\<close>

definition owner_count :: "uuid \<Rightarrow> db \<Rightarrow> nat" where
  "owner_count gid d = count_where (\<lambda>m. gm_groupId m = gid \<and> gm_role m = OWNER) (db_members d)"

definition one_owner :: "db \<Rightarrow> bool" where
  "one_owner d \<longleftrightarrow> list_all (\<lambda>g. owner_count (g_id g) d = 1) (db_groups d)"

definition groups_inv :: "db \<Rightarrow> bool" where
  "groups_inv d \<longleftrightarrow> db_wf d \<and> one_owner d"

lemma one_ownerD: "one_owner d \<Longrightarrow> has_group d g \<Longrightarrow> owner_count g d = 1"
  by (auto simp: one_owner_def has_group_def list_all_iff list_ex_iff)

lemma wf_members: "db_wf d \<Longrightarrow> no_clash member_clash (db_members d)"
  by (simp add: db_wf_def keys_ok_def)

lemma member_has_group: "db_wf d \<Longrightarrow> m \<in> set (db_members d) \<Longrightarrow> has_group d (gm_groupId m)"
  by (auto simp: db_wf_def refs_ok_def list_all_iff)

lemma same_member_id:
  "db_wf d \<Longrightarrow> a \<in> set (db_members d) \<Longrightarrow> b \<in> set (db_members d) \<Longrightarrow> gm_id a = gm_id b \<Longrightarrow> a = b"
  using members.same_row [OF wf_members] by (auto simp: member_clash_def)

lemma same_member_key:
  "db_wf d \<Longrightarrow> a \<in> set (db_members d) \<Longrightarrow> b \<in> set (db_members d)
   \<Longrightarrow> gm_groupId a = gm_groupId b \<Longrightarrow> gm_userId a = gm_userId b \<Longrightarrow> a = b"
  using members.same_row [OF wf_members] by (auto simp: member_clash_def)

lemma count_member_id:
  "db_wf d \<Longrightarrow> m \<in> set (db_members d) \<Longrightarrow> count_where (\<lambda>r. gm_id r = gm_id m) (db_members d) = 1"
  by (subst count_where_one) (auto intro: members.distinct_rows wf_members dest: same_member_id)

lemma the_owner:
  assumes "groups_inv d" and "a \<in> set (db_members d)" and "b \<in> set (db_members d)"
    and "gm_groupId a = gm_groupId b" and "gm_role a = OWNER" and "gm_role b = OWNER"
  shows "a = b"
proof -
  have wf: "db_wf d" and one: "one_owner d"
    using assms(1) by (simp_all add: groups_inv_def)
  have "owner_count (gm_groupId a) d = 1"
    by (rule one_ownerD [OF one member_has_group [OF wf assms(2)]])
  then obtain r where
    "\<forall>r' \<in> set (db_members d). gm_groupId r' = gm_groupId a \<and> gm_role r' = OWNER \<longrightarrow> r' = r"
    unfolding owner_count_def
    by (subst (asm) count_where_one [OF members.distinct_rows [OF wf_members [OF wf]]]) blast
  with assms show ?thesis by metis
qed

subsection \<open>create and join\<close>

lemma groups_create_inv [inv_intros]:
  assumes "groups_inv d" and "groups_create gid mid now u name d = (d', r)"
  shows "groups_inv d'"
proof (cases r)
  case (Inl e)
  then have "d' = d"
    using assms(2) by (auto simp: groups_create_def Let_def split: sum.splits)
  with assms(1) show ?thesis by simp
next
  case (Inr g)
  let ?g = "\<lparr>g_id = gid, g_name = name, g_createdBy = as_uuid u, g_createdAt = now\<rparr>"
  let ?m = "\<lparr>gm_id = mid, gm_groupId = gid, gm_userId = as_uuid u, gm_role = OWNER, gm_joinedAt = now,
             gm_lastReadAt = None\<rparr>"
  have wf: "db_wf d" and one: "one_owner d"
    using assms(1) by (simp_all add: groups_inv_def)
  from assms(2) Inr obtain d1 where d1: "db_create_group ?g d = Inr d1"
    and d2: "db_create_member ?m d1 = Inr d'"
    by (auto simp: groups_create_def Let_def split: sum.splits)
  from d1 wf have d1_eq: "d1 = d\<lparr>db_groups := db_groups d @ [?g]\<rparr>"
    and fresh: "\<not> has_group d gid"
    by (auto simp: db_create_group_def db_wf_def keys_ok_def has_group_def list_ex_iff group_clash_def
        dest!: groups.insert_Some split: option.splits if_splits)
  have wf1: "db_wf d1" using d1 wf by (rule db_create_group_wf)
  from d2 wf1 have d2_eq: "d' = d1\<lparr>db_members := db_members d1 @ [?m]\<rparr>"
    by (auto simp: db_create_member_def db_wf_def keys_ok_def
        dest!: members.insert_Some split: option.splits if_splits)
  have wf2: "db_wf d'" using d2 wf1 by (rule db_create_member_wf)
  have "owner_count gid d = 0"
    using fresh member_has_group [OF wf] by (auto simp: owner_count_def)
  moreover have "owner_count (g_id h) d' = owner_count (g_id h) d" if "h \<in> set (db_groups d)" for h
    using that fresh by (auto simp: d2_eq d1_eq owner_count_def has_group_def list_ex_iff)
  ultimately have "one_owner d'"
    using one by (auto simp: one_owner_def list_all_iff d2_eq d1_eq owner_count_def)
  with wf2 show ?thesis by (simp add: groups_inv_def)
qed

lemma groups_join_Inr:
  assumes "groups_join mid now u g d = (d', evs, Inr r)"
  shows "db_members d' = db_members d @ [\<lparr>gm_id = mid, gm_groupId = as_uuid g,
           gm_userId = as_uuid u, gm_role = MEMBER, gm_joinedAt = now, gm_lastReadAt = None\<rparr>]"
    and "db_groups d' = db_groups d" and "\<not> is_member d u g" and "find_group g d = Some r"
    and "db_create_member \<lparr>gm_id = mid, gm_groupId = as_uuid g,
           gm_userId = as_uuid u, gm_role = MEMBER, gm_joinedAt = now, gm_lastReadAt = None\<rparr> d = Inr d'"
  using assms
  by (auto simp: groups_join_def Let_def db_create_member_def insert_row_def is_member_def
      member_clash_def list_ex_iff split: option.splits sum.splits if_splits)

lemma groups_join_inv [inv_intros]:
  assumes "groups_inv d" and "groups_join mid now u g d = (d', evs, r)"
  shows "groups_inv d'"
proof (cases r)
  case (Inl e)
  then have "d' = d"
    using assms(2) by (auto simp: groups_join_def Let_def split: option.splits sum.splits)
  with assms(1) show ?thesis by simp
next
  case (Inr x)
  note j = groups_join_Inr [OF assms(2) [unfolded Inr]]
  have "db_wf d'"
    using j(5) assms(1) by (auto simp: groups_inv_def intro: db_create_member_wf)
  moreover have "one_owner d'"
    using assms(1) by (simp add: groups_inv_def one_owner_def owner_count_def j(1,2))
  ultimately show ?thesis by (simp add: groups_inv_def)
qed

subsection \<open>leave, transferOwnership and markRead\<close>

lemma set_role_Inr:
  "set_role i r d = Inr d' \<Longrightarrow>
     d' = d\<lparr>db_members := update_where (\<lambda>m. gm_id m = i) (\<lambda>m. m\<lparr>gm_role := r\<rparr>) (db_members d)\<rparr>"
  by (simp add: set_role_def db_update_member_def split: if_splits)

lemma set_role_wf [inv_intros]: "set_role i r d = Inr d' \<Longrightarrow> db_wf d \<Longrightarrow> db_wf d'"
  unfolding set_role_def by (erule db_update_member_wf) simp_all

lemma owner_count_set_role:
  assumes "set_role i r d = Inr d'"
  shows "owner_count g d' = count_where (\<lambda>m. gm_groupId m = g
           \<and> (if gm_id m = i then r else gm_role m) = OWNER) (db_members d)"
  unfolding owner_count_def set_role_Inr [OF assms]
  by (auto simp: count_where_update_where intro!: count_where_cong)

lemma db_delete_member_Inr:
  "db_delete_member P d = Inr d' \<Longrightarrow> d' = d\<lparr>db_members := delete_where P (db_members d)\<rparr>"
  by (simp add: db_delete_member_def split: if_splits)

lemma owner_count_delete:
  assumes "db_delete_member P d = Inr d'"
  shows "owner_count g d' = count_where (\<lambda>m. (gm_groupId m = g \<and> gm_role m = OWNER) \<and> \<not> P m)
           (db_members d)"
  unfolding owner_count_def db_delete_member_Inr [OF assms]
  by (simp add: count_where_delete_where)

lemma leave_read_cases:
  assumes "leave_read u g d = Inr plan"
  obtains (member) me where "find_membership u g d = Some me" "gm_role me \<noteq> OWNER"
      "plan = DropMember (gm_id me)"
  | (last) me where "find_membership u g d = Some me" "gm_role me = OWNER"
      "\<forall>m \<in> set (db_members d). gm_groupId m = as_uuid g \<longrightarrow> gm_userId m = as_uuid u" "plan = DropGroup"
  | (owner) me s where "find_membership u g d = Some me" "gm_role me = OWNER"
      "first_by (\<lambda>m. (gm_joinedAt m, gm_id m))
         (\<lambda>m. gm_groupId m = as_uuid g \<and> gm_userId m \<noteq> as_uuid u) (db_members d) = Some s"
      "plan = Promote (gm_id s) (gm_userId s) (gm_id me)"
  using assms
  by (auto simp: leave_read_def split: option.splits if_splits)

text \<open>Handing the OWNER role from \<open>me\<close> to \<open>s\<close>: the owners that remain, group by group.\<close>

lemma promote_count:
  assumes inv: "groups_inv d" and me: "me \<in> set (db_members d)" "gm_role me = OWNER"
    and s: "s \<in> set (db_members d)" "gm_groupId s = gm_groupId me" "gm_userId s \<noteq> gm_userId me"
  shows "count_where (\<lambda>m. (gm_groupId m = h \<and> (if gm_id m = gm_id s then OWNER else gm_role m) = OWNER)
             \<and> gm_id m \<noteq> gm_id me) (db_members d)
         = (if h = gm_groupId me then 1 else owner_count h d)"
proof -
  have wf: "db_wf d" using inv by (simp add: groups_inv_def)
  have ids: "gm_id m = gm_id s \<longleftrightarrow> m = s" "gm_id m = gm_id me \<longleftrightarrow> m = me"
    if "m \<in> set (db_members d)" for m
    using same_member_id [OF wf that] s(1) me(1) by auto
  have sole: "m = me" if "m \<in> set (db_members d)" "gm_groupId m = gm_groupId me" "gm_role m = OWNER" for m
    using the_owner [OF inv that(1) me(1)] that me(2) by simp
  have "count_where (\<lambda>m. (gm_groupId m = h \<and> (if gm_id m = gm_id s then OWNER else gm_role m) = OWNER)
             \<and> gm_id m \<noteq> gm_id me) (db_members d)
      = count_where (\<lambda>m. if h = gm_groupId me then gm_id m = gm_id s
             else gm_groupId m = h \<and> gm_role m = OWNER) (db_members d)"
    by (rule count_where_cong) (use ids sole s in auto)
  also have "\<dots> = (if h = gm_groupId me then 1 else owner_count h d)"
    using count_member_id [OF wf s(1)] by (simp add: owner_count_def)
  finally show ?thesis .
qed

lemma groups_leave_inv [inv_intros]:
  assumes inv: "groups_inv d" and run: "groups_leave u g d = (d', evs, r)"
  shows "groups_inv d'"
proof (cases r)
  case (Inl e)
  then have "d' = d"
    using run by (auto simp: groups_leave_def split: sum.splits)
  with inv show ?thesis by simp
next
  case (Inr out)
  with run obtain plan where plan: "leave_read u g d = Inr plan"
    and wr: "leave_write g plan d = Inr (d', out)"
    by (auto simp: groups_leave_def split: sum.splits)
  have wf: "db_wf d" and one: "one_owner d"
    using inv by (simp_all add: groups_inv_def)
  from plan show ?thesis
  proof (cases rule: leave_read_cases)
    case (member me)
    with wr have del: "db_delete_member (\<lambda>m. gm_id m = gm_id me) d = Inr d'"
      by (auto simp: leave_write_def split: sum.splits)
    note me = find_membership_SomeD [OF member(1)]
    have "owner_count h d' = owner_count h d" for h
      unfolding owner_count_delete [OF del] unfolding owner_count_def
      by (rule count_where_cong) (use me member(2) same_member_id [OF wf] in auto)
    moreover have "db_groups d' = db_groups d"
      using db_delete_member_Inr [OF del] by simp
    ultimately show ?thesis
      using one db_delete_member_wf [OF del wf] by (simp add: groups_inv_def one_owner_def)
  next
    case (last me)
    with wr have del: "db_delete_group (as_uuid g) d = Inr d'"
      by (auto simp: leave_write_def split: sum.splits)
    then have ms: "db_members d' = delete_where (\<lambda>m. gm_groupId m = as_uuid g) (db_members d)"
      and gs: "db_groups d' = delete_where (\<lambda>x. g_id x = as_uuid g) (db_groups d)"
      by (auto simp: db_delete_group_def split: if_splits)
    have "owner_count h d' = owner_count h d" if "h \<noteq> as_uuid g" for h
      unfolding owner_count_def ms count_where_delete_where
      by (rule count_where_cong) (use that in auto)
    then have "one_owner d'"
      using one by (auto simp: one_owner_def list_all_iff gs row_simps)
    then show ?thesis
      using db_delete_group_wf [OF del wf] by (simp add: groups_inv_def)
  next
    case (owner me s)
    with wr obtain d1 where d1: "set_role (gm_id s) OWNER d = Inr d1"
      and d2: "db_delete_member (\<lambda>m. gm_id m = gm_id me) d1 = Inr d'"
      by (auto simp: leave_write_def split: sum.splits)
    note me = find_membership_SomeD [OF owner(1)] and s = first_by_SomeD [OF owner(3)]
    have count: "owner_count h d' = (if h = gm_groupId me then 1 else owner_count h d)" for h
    proof -
      have "owner_count h d' = count_where (\<lambda>m. (gm_groupId m = h
          \<and> (if gm_id m = gm_id s then OWNER else gm_role m) = OWNER) \<and> gm_id m \<noteq> gm_id me) (db_members d)"
        unfolding owner_count_delete [OF d2] set_role_Inr [OF d1]
        by (auto simp: count_where_update_where intro!: count_where_cong)
      then show ?thesis
        using promote_count [OF inv _ owner(2) s(1), of h] me s(2) by simp
    qed
    have groups: "db_groups d' = db_groups d"
      using db_delete_member_Inr [OF d2] set_role_Inr [OF d1] by simp
    have "owner_count (g_id x) d' = 1" if "x \<in> set (db_groups d')" for x
      using that one unfolding groups by (auto simp: count one_owner_def list_all_iff)
    then show ?thesis
      using db_delete_member_wf [OF d2 set_role_wf [OF d1 wf]]
      by (simp add: groups_inv_def one_owner_def list_all_iff)
  qed
qed

lemma transfer_read_Inr:
  assumes "transfer_read c g t d = Inr p"
  obtains caller target where "find_membership c g d = Some caller" "gm_role caller = OWNER"
    "find_membership t g d = Some target" "p = (gm_id target, gm_id caller)"
  using assms by (auto simp: transfer_read_def split: option.splits if_splits)

lemma transfer_ownership_inv [inv_intros]:
  assumes inv: "groups_inv d" and other: "as_uuid c \<noteq> as_uuid t" and run: "transfer_ownership c g t d = (d', evs, r)"
  shows "groups_inv d'"
proof (cases r)
  case (Inl e)
  then have "d' = d"
    using run by (auto simp: transfer_ownership_def split: sum.splits if_splits)
  with inv show ?thesis by simp
next
  case (Inr out)
  with run obtain p where p: "transfer_read c g t d = Inr p" and wr: "transfer_write p d = Inr d'"
    by (auto simp: transfer_ownership_def split: sum.splits if_splits)
  have wf: "db_wf d" and one: "one_owner d"
    using inv by (simp_all add: groups_inv_def)
  from p obtain caller target where caller: "find_membership c g d = Some caller" "gm_role caller = OWNER"
    and target: "find_membership t g d = Some target" and p_eq: "p = (gm_id target, gm_id caller)"
    by (rule transfer_read_Inr)
  from wr p_eq obtain d1 where d1: "set_role (gm_id target) OWNER d = Inr d1"
    and d2: "set_role (gm_id caller) MEMBER d1 = Inr d'"
    by (auto simp: transfer_write_def split: sum.splits)
  note me = find_membership_SomeD [OF caller(1)] and s = find_membership_SomeD [OF target]
  have count: "owner_count h d' = (if h = gm_groupId caller then 1 else owner_count h d)" for h
  proof -
    have "owner_count h d' = count_where (\<lambda>m. (gm_groupId m = h
        \<and> (if gm_id m = gm_id target then OWNER else gm_role m) = OWNER) \<and> gm_id m \<noteq> gm_id caller)
        (db_members d)"
      unfolding owner_count_set_role [OF d2] set_role_Inr [OF d1]
      by (auto simp: count_where_update_where intro!: count_where_cong)
    then show ?thesis
      using promote_count [OF inv _ caller(2), of target h] me s other by simp
  qed
  have groups: "db_groups d' = db_groups d"
    using set_role_Inr [OF d2] set_role_Inr [OF d1] by simp
  have "owner_count (g_id x) d' = 1" if "x \<in> set (db_groups d)" for x
    using that one by (auto simp: count one_owner_def list_all_iff)
  then show ?thesis
    using set_role_wf [OF d2 set_role_wf [OF d1 wf]]
    by (simp add: groups_inv_def one_owner_def list_all_iff groups)
qed

lemma mark_read_inv [inv_intros]:
  assumes inv: "groups_inv d" and run: "mark_read now u g d = (d', evs, r)"
  shows "groups_inv d'"
proof (cases "d' = d")
  case True
  with inv show ?thesis by simp
next
  case False
  let ?P = "\<lambda>m. gm_groupId m = as_uuid g \<and> gm_userId m = as_uuid u" and ?f = "\<lambda>m. m\<lparr>gm_lastReadAt := Some now\<rparr>"
  from False run have up: "db_update_member ?P ?f d = Inr d'"
    by (auto simp: mark_read_def split: sum.splits)
  then have d': "d' = d\<lparr>db_members := update_where ?P ?f (db_members d)\<rparr>"
    by (simp add: db_update_member_def split: if_splits)
  have "owner_count h d' = owner_count h d" for h
    unfolding owner_count_def d' by (auto simp: count_where_update_where intro!: count_where_cong)
  then have "one_owner d'"
    using inv by (simp add: groups_inv_def one_owner_def d')
  moreover have "db_wf d'"
    using inv by (intro db_update_member_wf [OF up]) (simp_all add: groups_inv_def)
  ultimately show ?thesis by (simp add: groups_inv_def)
qed

section \<open>Properties\<close>

lemma sample_groups_inv: "groups_inv sample_db"
  by (simp add: groups_inv_def sample_db_wf) code_simp

lemma delete_by_id_is_delete_by_key:
  assumes "db_wf d" and "me \<in> set (db_members d)"
  shows "delete_where (\<lambda>m. gm_id m = gm_id me) (db_members d)
       = delete_where (\<lambda>m. gm_groupId m = gm_groupId me \<and> gm_userId m = gm_userId me) (db_members d)"
  unfolding delete_where_def
  by (rule filter_cong) (use assms same_member_id same_member_key in \<open>blast+\<close>)

lemma member_list_ex: "m \<in> set (db_members d) \<Longrightarrow> list_ex (\<lambda>r. gm_id r = gm_id m) (db_members d)"
  by (auto simp: list_ex_iff)

lemma set_role_member:
  "m \<in> set (db_members d) \<Longrightarrow> set_role (gm_id m) r d = Inr (d\<lparr>db_members :=
     update_where (\<lambda>x. gm_id x = gm_id m) (\<lambda>x. x\<lparr>gm_role := r\<rparr>) (db_members d)\<rparr>)"
  by (simp add: set_role_def db_update_member_def member_list_ex)

lemma update_keeps_id:
  "list_ex (\<lambda>x. gm_id x = i) (update_where P (\<lambda>x. x\<lparr>gm_role := r\<rparr>) ms) = list_ex (\<lambda>x. gm_id x = i) ms"
  by (induction ms) auto

lemma delete_update_swap:
  assumes "\<And>m. Q m \<Longrightarrow> \<not> P m" and "\<And>m. Q (f m) = Q m"
  shows "delete_where Q (update_where P f ms) = update_where P f (delete_where Q ms)"
  using assms by (induction ms) auto

text \<open>
  C28. When an owner leaves a group that has other members, the store after the leave is the old
  one without the owner's membership row and with the longest-standing remaining member (least
  \<open>joinedAt\<close>, ties by id) as OWNER; the room is told of the new owner first and of the departure
  second, and the answer names the successor.
\<close>

theorem owner_leave_promotes_longest_standing:
  assumes inv: "groups_inv d" and me: "find_membership u g d = Some me" and own: "gm_role me = OWNER"
    and other: "m0 \<in> set (db_members d)" "gm_groupId m0 = as_uuid g" "gm_userId m0 \<noteq> as_uuid u"
    and ids: "\<forall>m \<in> set (db_members d). gm_userId m \<noteq> []"
  shows "\<exists>s \<in> set (db_members d). gm_groupId s = as_uuid g \<and> gm_userId s \<noteq> as_uuid u
     \<and> (\<forall>m \<in> set (db_members d). gm_groupId m = as_uuid g \<and> gm_userId m \<noteq> as_uuid u
          \<longrightarrow> (gm_joinedAt s, gm_id s) \<le> (gm_joinedAt m, gm_id m))
     \<and> groups_leave u g d =
         (d\<lparr>db_members := update_where (\<lambda>m. gm_id m = gm_id s) (\<lambda>m. m\<lparr>gm_role := OWNER\<rparr>)
              (delete_where (\<lambda>m. gm_groupId m = as_uuid g \<and> gm_userId m = as_uuid u) (db_members d))\<rparr>,
          [OWNER_CHANGED g u (gm_userId s), MEMBER_LEFT g u],
          Inr \<lparr>lo_groupDeleted = False, lo_newOwnerId = Some (gm_userId s)\<rparr>)"
proof -
  have wf: "db_wf d" using inv by (simp add: groups_inv_def)
  note me_in = find_membership_SomeD [OF me]
  let ?key = "\<lambda>m. (gm_joinedAt m, gm_id m)" and ?P = "\<lambda>m. gm_groupId m = as_uuid g \<and> gm_userId m \<noteq> as_uuid u"
  from other obtain s where s: "first_by ?key ?P (db_members d) = Some s"
    by (cases "first_by ?key ?P (db_members d)") auto
  note s_in = first_by_SomeD [OF s]
  have plan: "leave_read u g d = Inr (Promote (gm_id s) (gm_userId s) (gm_id me))"
    by (simp add: leave_read_def me own s)
  have "gm_id me \<noteq> gm_id s"
    using same_member_id [OF wf _ s_in(1)] me_in s_in(2) by auto
  then have "delete_where (\<lambda>m. gm_id m = gm_id me)
        (update_where (\<lambda>m. gm_id m = gm_id s) (\<lambda>m. m\<lparr>gm_role := OWNER\<rparr>) (db_members d))
      = update_where (\<lambda>m. gm_id m = gm_id s) (\<lambda>m. m\<lparr>gm_role := OWNER\<rparr>)
        (delete_where (\<lambda>m. gm_groupId m = as_uuid g \<and> gm_userId m = as_uuid u) (db_members d))"
    using delete_by_id_is_delete_by_key [OF wf, of me] me_in
    by (subst delete_update_swap) auto
  then have "leave_write g (Promote (gm_id s) (gm_userId s) (gm_id me)) d =
      Inr (d\<lparr>db_members := update_where (\<lambda>m. gm_id m = gm_id s) (\<lambda>m. m\<lparr>gm_role := OWNER\<rparr>)
              (delete_where (\<lambda>m. gm_groupId m = as_uuid g \<and> gm_userId m = as_uuid u) (db_members d))\<rparr>,
           \<lparr>lo_groupDeleted = False, lo_newOwnerId = Some (gm_userId s)\<rparr>)"
    using me_in s_in(1)
    by (simp add: leave_write_def set_role_member db_delete_member_def update_keeps_id member_list_ex)
  with plan s_in ids show ?thesis
    by (intro bexI [of _ s]) (auto simp: groups_leave_def leave_events_def)
qed

text \<open>Witness for C28: in the sample store Ann (owner) leaves; Cy joined before Bob and succeeds her.\<close>

theorem owner_leave_promotes_longest_standing_witness:
  "\<exists>s \<in> set (db_members sample_db). gm_userId s = sample_id 3
     \<and> snd (groups_leave (sample_id 1) (sample_id 4) sample_db) =
         ([OWNER_CHANGED (sample_id 4) (sample_id 1) (sample_id 3), MEMBER_LEFT (sample_id 4) (sample_id 1)],
          Inr \<lparr>lo_groupDeleted = False, lo_newOwnerId = Some (sample_id 3)\<rparr>)"
proof -
  have me: "find_membership (sample_id 1) (sample_id 4) sample_db = Some (sample_member 5 1 OWNER 100)"
    and run: "snd (groups_leave (sample_id 1) (sample_id 4) sample_db) =
         ([OWNER_CHANGED (sample_id 4) (sample_id 1) (sample_id 3), MEMBER_LEFT (sample_id 4) (sample_id 1)],
          Inr \<lparr>lo_groupDeleted = False, lo_newOwnerId = Some (sample_id 3)\<rparr>)"
    by code_simp+
  have other: "sample_member 6 2 MEMBER 200 \<in> set (db_members sample_db)"
    by (simp add: sample_db_def)
  have "\<forall>m \<in> set (db_members sample_db). gm_userId m \<noteq> []"
    by (simp add: sample_db_def sample_member_def)
  moreover have "sample_id 2 \<noteq> sample_id 1" by code_simp
  ultimately show ?thesis
    using owner_leave_promotes_longest_standing [OF sample_groups_inv me _ other] run
    by (auto simp: sample_member_def)
qed

text \<open>
  A successful transfer of ownership to somebody else swaps the two roles and nothing else: the caller was the
  OWNER and becomes MEMBER, the target was a member of the group and becomes its only OWNER, every
  other row of the store is untouched (the group's \<open>createdBy\<close> in particular), and the one event is
  OWNER_CHANGED.
\<close>

lemma transfer_swaps_roles:
  assumes inv: "groups_inv d" and other: "as_uuid c \<noteq> as_uuid t" and run: "transfer_ownership c g t d = (d', evs, Inr out)"
  shows "(\<exists>caller target. find_membership c g d = Some caller \<and> gm_role caller = OWNER
            \<and> find_membership t g d = Some target
            \<and> d' = d\<lparr>db_members := map (\<lambda>m. if m = target then m\<lparr>gm_role := OWNER\<rparr>
                 else if m = caller then m\<lparr>gm_role := MEMBER\<rparr> else m) (db_members d)\<rparr>)
     \<and> c \<noteq> t \<and> evs = [OWNER_CHANGED g c t] \<and> out = (c, t)"
proof -
  have wf: "db_wf d" using inv by (simp add: groups_inv_def)
  from run have ne: "c \<noteq> t" and evs: "evs = [OWNER_CHANGED g c t] \<and> out = (c, t)"
    by (auto simp: transfer_ownership_def split: if_splits sum.splits)
  from run obtain p where p: "transfer_read c g t d = Inr p" and wr: "transfer_write p d = Inr d'"
    by (auto simp: transfer_ownership_def split: if_splits sum.splits)
  from p obtain caller target where caller: "find_membership c g d = Some caller" "gm_role caller = OWNER"
    and target: "find_membership t g d = Some target" and p_eq: "p = (gm_id target, gm_id caller)"
    by (rule transfer_read_Inr)
  note c_in = find_membership_SomeD [OF caller(1)] and t_in = find_membership_SomeD [OF target]
  have ids: "gm_id m = gm_id caller \<longleftrightarrow> m = caller" "gm_id m = gm_id target \<longleftrightarrow> m = target"
    if "m \<in> set (db_members d)" for m
    using same_member_id [OF wf that] c_in t_in by auto
  have differ: "target \<noteq> caller" using c_in t_in other by auto
  from wr obtain d1 where d1: "set_role (gm_id target) OWNER d = Inr d1"
    and d2: "set_role (gm_id caller) MEMBER d1 = Inr d'"
    by (auto simp: transfer_write_def p_eq split: sum.splits)
  have "update_where (\<lambda>m. gm_id m = gm_id caller) (\<lambda>m. m\<lparr>gm_role := MEMBER\<rparr>)
          (update_where (\<lambda>m. gm_id m = gm_id target) (\<lambda>m. m\<lparr>gm_role := OWNER\<rparr>) (db_members d))
      = map (\<lambda>m. if m = target then m\<lparr>gm_role := OWNER\<rparr>
                 else if m = caller then m\<lparr>gm_role := MEMBER\<rparr> else m) (db_members d)"
    unfolding update_where_def map_map comp_def
  proof (rule map_cong [OF refl])
    fix m assume m: "m \<in> set (db_members d)"
    have "gm_id target \<noteq> gm_id caller"
      using ids [of target] t_in differ by simp
    with differ show "(if gm_id (if gm_id m = gm_id target then m\<lparr>gm_role := OWNER\<rparr> else m) = gm_id caller
           then (if gm_id m = gm_id target then m\<lparr>gm_role := OWNER\<rparr> else m)\<lparr>gm_role := MEMBER\<rparr>
           else if gm_id m = gm_id target then m\<lparr>gm_role := OWNER\<rparr> else m)
         = (if m = target then m\<lparr>gm_role := OWNER\<rparr>
            else if m = caller then m\<lparr>gm_role := MEMBER\<rparr> else m)"
    proof (cases "m = target")
      case True
      with \<open>gm_id target \<noteq> gm_id caller\<close> show ?thesis by simp
    next
      case False
      with ids [OF m] show ?thesis by simp
    qed
  qed
  then have "d' = d\<lparr>db_members := map (\<lambda>m. if m = target then m\<lparr>gm_role := OWNER\<rparr>
                 else if m = caller then m\<lparr>gm_role := MEMBER\<rparr> else m) (db_members d)\<rparr>"
    using set_role_Inr [OF d1] set_role_Inr [OF d2] by simp
  with ne evs show ?thesis
    by (intro conjI exI [of _ caller] exI [of _ target]) (simp_all add: caller target)
qed

text \<open>Example: Ann hands the sample group to Bob.\<close>

lemma transfer_swaps_roles_example:
  "\<exists>d'. transfer_ownership (sample_id 1) (sample_id 4) (sample_id 2) sample_db
       = (d', [OWNER_CHANGED (sample_id 4) (sample_id 1) (sample_id 2)], Inr (sample_id 1, sample_id 2))
     \<and> sample_id 1 \<noteq> sample_id 2"
proof -
  obtain d' evs out where run: "transfer_ownership (sample_id 1) (sample_id 4) (sample_id 2) sample_db
      = (d', evs, Inr out)"
  proof -
    have "\<not> isl (snd (snd (transfer_ownership (sample_id 1) (sample_id 4) (sample_id 2) sample_db)))"
      by code_simp
    then show ?thesis
      using that by (metis prod.collapse sum.collapse(2))
  qed
  have "as_uuid (sample_id 1) \<noteq> as_uuid (sample_id 2)" by code_simp
  from transfer_swaps_roles [OF sample_groups_inv this run] run show ?thesis by auto
qed

text \<open>
  C32. The guard against a transfer to oneself compares texts, and the database compares ids: an owner
  who spells their own id in another case passes it, the target found is their own row, and that row
  is made OWNER and then MEMBER. The group is left without an owner.
\<close>

theorem transfer_to_oneself_leaves_no_owner:
  assumes inv: "groups_inv d" and me: "find_membership c g d = Some me" "gm_role me = OWNER"
    and spelt: "t \<noteq> c" "as_uuid t = as_uuid c"
  shows "\<exists>d'. transfer_ownership c g t d = (d', [OWNER_CHANGED g c t], Inr (c, t))
     \<and> has_group d' (as_uuid g) \<and> owner_count (as_uuid g) d' = 0"
proof -
  have wf: "db_wf d" using inv by (simp add: groups_inv_def)
  note m = find_membership_SomeD [OF me(1)]
  let ?d1 = "d\<lparr>db_members := update_where (\<lambda>x. gm_id x = gm_id me) (\<lambda>x. x\<lparr>gm_role := OWNER\<rparr>) (db_members d)\<rparr>"
  let ?d2 = "?d1\<lparr>db_members := update_where (\<lambda>x. gm_id x = gm_id me) (\<lambda>x. x\<lparr>gm_role := MEMBER\<rparr>) (db_members ?d1)\<rparr>"
  have "find_membership t g d = Some me"
    using me(1) spelt(2) by (simp add: find_membership_def)
  then have read: "transfer_read c g t d = Inr (gm_id me, gm_id me)"
    by (simp add: transfer_read_def me)
  have "transfer_write (gm_id me, gm_id me) d = Inr ?d2"
    using m by (simp add: transfer_write_def set_role_member)
      (simp add: set_role_def db_update_member_def update_keeps_id member_list_ex)
  then have "transfer_ownership c g t d = (?d2, [OWNER_CHANGED g c t], Inr (c, t))"
    using read spelt(1) by (simp add: transfer_ownership_def)
  moreover have "gm_role x \<noteq> OWNER"
    if x: "x \<in> set (db_members ?d2)" "gm_groupId x = as_uuid g" for x
  proof -
    obtain y where y: "y \<in> set (db_members d)" "gm_groupId y = as_uuid g"
      "x = (if gm_id y = gm_id me then y\<lparr>gm_role := MEMBER\<rparr> else y)"
      using x by (auto simp: row_simps split: if_splits)
    with the_owner [OF inv y(1), of me] m me(2) show ?thesis by auto
  qed
  then have "owner_count (as_uuid g) ?d2 = 0"
    by (auto simp: owner_count_def)
  moreover have "has_group ?d2 (as_uuid g)"
    using member_has_group [OF wf, of me] m by simp
  ultimately show ?thesis by blast
qed

text \<open>Witness for C32: Ann names herself in capitals; the text passes the UUID check of the route.\<close>

theorem transfer_to_oneself_leaves_no_owner_witness:
  "uuid_re (sample_caps 1) \<and> (\<exists>d'. transfer_ownership (sample_id 1) (sample_id 4) (sample_caps 1) sample_db
       = (d', [OWNER_CHANGED (sample_id 4) (sample_id 1) (sample_caps 1)], Inr (sample_id 1, sample_caps 1))
     \<and> owner_count (sample_id 4) d' = 0)"
proof -
  have k: "find_membership (sample_id 1) (sample_id 4) sample_db = Some (sample_member 5 1 OWNER 100)"
    "sample_caps 1 \<noteq> sample_id 1" "uuid_re (sample_caps 1)"
    by code_simp+
  have "gm_role (sample_member 5 1 OWNER 100) = OWNER" by (simp add: sample_member_def)
  from transfer_to_oneself_leaves_no_owner [OF sample_groups_inv k(1) this k(2)] k(3) show ?thesis
    by auto
qed

text \<open>
  No probing: on every guarded route a caller who is not a member gets the same 403 with the
  same message, whether the group exists, has never existed, or the id is no UUID at all, and the
  store stays as it is; a member with a well-formed id reaches the handler.
\<close>

lemma guarded_routes_do_not_leak:
  "(\<not> (is_member d (au_userId u) g \<and> uuid_re g) \<longrightarrow>
      ctl_find_one (Some u) g d = Inl (forbidden NOT_A_MEMBER_MESSAGE)
      \<and> ctl_leave (Some u) g d = (d, [], Inl (forbidden NOT_A_MEMBER_MESSAGE))
      \<and> ctl_mark_read now (Some u) g d = (d, [], Inl (forbidden NOT_A_MEMBER_MESSAGE))
      \<and> ctl_transfer valid_uuid (Some u) g t d = (d, [], Inl (forbidden NOT_A_MEMBER_MESSAGE)))
   \<and> (is_member d (au_userId u) g \<and> uuid_re g \<longrightarrow>
      ctl_find_one (Some u) g d = find_one g d
      \<and> ctl_leave (Some u) g d = groups_leave (au_userId u) g d
      \<and> ctl_mark_read now (Some u) g d = mark_read now (au_userId u) g d)"
  by (simp add: ctl_find_one_def ctl_leave_def ctl_mark_read_def ctl_transfer_def
      guarded_write_denied guarded_write_member db_rule.guarded_denied db_rule.guarded_member)

text \<open>Example: Dan, who is in no group, asks for the sample group and for a malformed id.\<close>

lemma guarded_routes_do_not_leak_example:
  "ctl_find_one (Some \<lparr>au_userId = sample_id 11, au_email = ''dan@x.com''\<rparr>) (sample_id 4) sample_db
     = ctl_find_one (Some \<lparr>au_userId = sample_id 11, au_email = ''dan@x.com''\<rparr>) ''42'' sample_db"
proof -
  let ?u = "\<lparr>au_userId = sample_id 11, au_email = ''dan@x.com''\<rparr>"
  have "\<not> (is_member sample_db (au_userId ?u) (sample_id 4) \<and> uuid_re (sample_id 4))"
    "\<not> (is_member sample_db (au_userId ?u) ''42'' \<and> uuid_re ''42'')"
    by code_simp+
  then show ?thesis
    using guarded_routes_do_not_leak [of sample_db ?u "sample_id 4" 0 uuid_re "[]"]
      guarded_routes_do_not_leak [of sample_db ?u "''42''" 0 uuid_re "[]"] by simp
qed

text \<open>
  Joining: in a well-formed store, an existing user who is not yet in an existing group becomes
  a plain MEMBER, the room hears MEMBER_JOINED with the new row's public shape, and the membership
  check passes from then on; a second join is a 409 that writes and emits nothing; joining a group
  that does not exist is a 404.
\<close>

lemma join_then_member:
  assumes run: "groups_join mid now u g d = (d', evs, Inr grp)" and g: "uuid_re g"
  shows "(\<exists>m. assert_member u g d' = Inr m \<and> gm_role m = MEMBER \<and> gm_joinedAt m = now
            \<and> evs = [MEMBER_JOINED g (member_select d' m)])
     \<and> \<not> is_member d u g
     \<and> groups_join mid' now' u g d' = (d', [], Inl (conflict ''You are already a member of this group''))"
proof -
  let ?m = "\<lparr>gm_id = mid, gm_groupId = as_uuid g, gm_userId = as_uuid u, gm_role = MEMBER, gm_joinedAt = now,
             gm_lastReadAt = None\<rparr>"
  note j = groups_join_Inr [OF run]
  have "List.find (\<lambda>m. gm_groupId m = as_uuid g \<and> gm_userId m = as_uuid u) (ms @ [?m]) = Some ?m"
    if "\<not> list_ex (\<lambda>m. gm_groupId m = as_uuid g \<and> gm_userId m = as_uuid u) ms" for ms
    using that by (induction ms) auto
  then have found: "find_membership u g d' = Some ?m"
    using j(3) by (simp add: find_membership_def is_member_def j(1))
  then have "assert_member u g d' = Inr ?m"
    using g by (simp add: assert_member_def is_uuid_def)
  moreover have "evs = [MEMBER_JOINED g (member_select d' ?m)]"
    using run by (auto simp: groups_join_def Let_def split: option.splits sum.splits)
  moreover have "insert_row member_clash \<lparr>gm_id = mid', gm_groupId = as_uuid g, gm_userId = as_uuid u,
      gm_role = MEMBER, gm_joinedAt = now', gm_lastReadAt = None\<rparr> (db_members d') = None"
    by (subst members.insert_None) (auto simp: j(1) member_clash_def)
  then have "groups_join mid' now' u g d'
      = (d', [], Inl (conflict ''You are already a member of this group''))"
    using j(2,4) by (simp add: groups_join_def find_group_def db_create_member_def translate_p2002_def)
  ultimately show ?thesis using j(3) by auto
qed

text \<open>Example: after Cy has left the sample group, Cy joins it again.\<close>

lemma join_then_member_example:
  "\<exists>d' m. assert_member (sample_id 3) (sample_id 4) d' = Inr m \<and> gm_role m = MEMBER"
proof -
  let ?d = "fst (groups_leave (sample_id 3) (sample_id 4) sample_db)"
  have "\<not> isl (snd (snd (groups_join (sample_id 12) 400 (sample_id 3) (sample_id 4) ?d)))"
    by code_simp
  then obtain d' evs grp where
    "groups_join (sample_id 12) 400 (sample_id 3) (sample_id 4) ?d = (d', evs, Inr grp)"
    by (metis prod.collapse sum.collapse(2))
  from join_then_member [OF this sample_id_uuid(1)] show ?thesis by blast
qed

text \<open>
  Two transfers whose transactions interleave: both may read the caller as OWNER before either
  writes (PostgreSQL's default isolation lets them), and then both commit. In the sample group the
  outcome is two owners, although each transfer alone keeps the single-owner invariant.
\<close>

lemma interleaved_transfers_leave_two_owners:
  "\<exists>p1 p2 d1 d2.
      transfer_read (sample_id 1) (sample_id 4) (sample_id 2) sample_db = Inr p1
    \<and> transfer_read (sample_id 1) (sample_id 4) (sample_id 3) sample_db = Inr p2
    \<and> transfer_write p1 sample_db = Inr d1 \<and> transfer_write p2 d1 = Inr d2
    \<and> owner_count (sample_id 4) sample_db = 1 \<and> owner_count (sample_id 4) d1 = 1
    \<and> owner_count (sample_id 4) d2 = 2"
proof -
  have r: "transfer_read (sample_id 1) (sample_id 4) (sample_id 2) sample_db = Inr (sample_id 6, sample_id 5)"
    "transfer_read (sample_id 1) (sample_id 4) (sample_id 3) sample_db = Inr (sample_id 7, sample_id 5)"
    by code_simp+
  have "case transfer_write (sample_id 6, sample_id 5) sample_db of Inl _ \<Rightarrow> False | Inr d1 \<Rightarrow>
      (case transfer_write (sample_id 7, sample_id 5) d1 of Inl _ \<Rightarrow> False | Inr d2 \<Rightarrow>
         owner_count (sample_id 4) sample_db = 1 \<and> owner_count (sample_id 4) d1 = 1
       \<and> owner_count (sample_id 4) d2 = 2)"
    by code_simp
  with r show ?thesis by (auto split: sum.splits)
qed

text \<open>
  An owner's leave that interleaves with the leave of the very member it promotes: the member's
  transaction has read its row as MEMBER, the owner's transaction promotes that row and commits,
  and then the member's delete goes through. The group is left with a member and no owner.
\<close>

lemma interleaved_leaves_leave_no_owner:
  "\<exists>p1 p2 d1 d2 o1 o2.
      leave_read (sample_id 3) (sample_id 4) sample_db = Inr p2
    \<and> leave_read (sample_id 1) (sample_id 4) sample_db = Inr p1
    \<and> leave_write (sample_id 4) p1 sample_db = Inr (d1, o1)
    \<and> leave_write (sample_id 4) p2 d1 = Inr (d2, o2)
    \<and> lo_newOwnerId o1 = Some (sample_id 3)
    \<and> has_group d2 (sample_id 4) \<and> is_member d2 (sample_id 2) (sample_id 4)
    \<and> owner_count (sample_id 4) d2 = 0"
proof -
  have r: "leave_read (sample_id 3) (sample_id 4) sample_db = Inr (DropMember (sample_id 7))"
    "leave_read (sample_id 1) (sample_id 4) sample_db
       = Inr (Promote (sample_id 7) (sample_id 3) (sample_id 5))"
    by code_simp+
  have k: "case leave_write (sample_id 4) (Promote (sample_id 7) (sample_id 3) (sample_id 5)) sample_db of
      Inl _ \<Rightarrow> False | Inr (d1, o1) \<Rightarrow>
      (case leave_write (sample_id 4) (DropMember (sample_id 7)) d1 of Inl _ \<Rightarrow> False | Inr (d2, o2) \<Rightarrow>
         lo_newOwnerId o1 = Some (sample_id 3) \<and> has_group d2 (sample_id 4)
       \<and> is_member d2 (sample_id 2) (sample_id 4) \<and> owner_count (sample_id 4) d2 = 0)"
    by code_simp
  then obtain d1 o1 where w1: "leave_write (sample_id 4)
      (Promote (sample_id 7) (sample_id 3) (sample_id 5)) sample_db = Inr (d1, o1)"
    by (cases "leave_write (sample_id 4)
      (Promote (sample_id 7) (sample_id 3) (sample_id 5)) sample_db") auto
  with k obtain d2 o2 where w2: "leave_write (sample_id 4) (DropMember (sample_id 7)) d1 = Inr (d2, o2)"
    by (cases "leave_write (sample_id 4) (DropMember (sample_id 7)) d1") auto
  from k r w1 w2 show ?thesis by simp
qed

end
