(* ===== verification/Tokens.thy ===== *)
theory Tokens
  imports ChatGroups
begin

text \<open>
  Refresh tokens: \<open>TokenService\<close> (backend/src/auth/token.service.ts) and
  \<open>RefreshTokenPurgeService\<close> (backend/src/auth/refresh-token-purge.service.ts). SHA-256, the JWT
  signature, the random bytes and ids and the clock are arguments. \<open>rotate\<close> is composed of the
  statements the code awaits one by one (look-up with its checks, the claim transaction, the family
  revocation), so that the concurrent executions are interleavings of the same functions.

  The interface \<open>session_families\<close> is what a session relies on: a family known to the store and
  without a live token never gets one again. It is interpreted on the step relation \<open>token_step\<close> of
  concurrent refreshes, logins, logouts and purges. The lemmas show rotation with reuse detection: at
  most one live token per family, a replay burns the family, a burnt family stays dead, concurrent
  presenters of a token get at most one new one.
\<close>

section \<open>Parameters of the token policy (auth.constants.ts)\<close>

definition REFRESH_TOKEN_PURGE_GRACE_MS :: int where
  "REFRESH_TOKEN_PURGE_GRACE_MS = 7 * 24 * 60 * 60 * 1000"

definition REFRESH_TOKEN_BYTES :: nat where
  "REFRESH_TOKEN_BYTES = 48"

record auth_tokens =
  at_accessToken :: string
  at_refreshToken :: string

section \<open>TokenService\<close>

definition sign_access_token :: "(jwt_payload \<Rightarrow> string) \<Rightarrow> user_row \<Rightarrow> string" where
  "sign_access_token sign user = sign \<lparr>jp_sub = u_id user, jp_email = u_email user\<rparr>"

definition new_token_row :: "uuid \<Rightarrow> uuid \<Rightarrow> string \<Rightarrow> uuid \<Rightarrow> time \<Rightarrow> time \<Rightarrow> token_row" where
  "new_token_row tid userId tokenHash familyId ttl now =
     \<lparr>rt_id = tid, rt_userId = userId, rt_tokenHash = tokenHash, rt_familyId = familyId,
      rt_expiresAt = now + ttl, rt_revokedAt = None, rt_createdAt = now\<rparr>"

definition persist_refresh_token ::
  "(string \<Rightarrow> string) \<Rightarrow> time \<Rightarrow> uuid \<Rightarrow> string \<Rightarrow> time \<Rightarrow> uuid \<Rightarrow> uuid \<Rightarrow> db \<Rightarrow> db \<times> (exn + string)" where
  "persist_refresh_token hash ttl tid raw now userId familyId d =
     (case db_create_token (new_token_row tid userId (hash raw) familyId ttl now) d of
        Inl e \<Rightarrow> (d, Inl (PrismaExn e))
      | Inr d1 \<Rightarrow> (d1, Inr raw))"

definition issue_for_new_session ::
  "(string \<Rightarrow> string) \<Rightarrow> (jwt_payload \<Rightarrow> string) \<Rightarrow> time \<Rightarrow> uuid \<Rightarrow> uuid \<Rightarrow> string \<Rightarrow> time \<Rightarrow> user_row
     \<Rightarrow> db \<Rightarrow> db \<times> (exn + auth_tokens)" where
  "issue_for_new_session hash sign ttl tid familyId raw now user d =
     (case persist_refresh_token hash ttl tid raw now (u_id user) familyId d of
        (d1, Inl e) \<Rightarrow> (d1, Inl e)
      | (d1, Inr r) \<Rightarrow>
          (d1, Inr \<lparr>at_accessToken = sign_access_token sign user, at_refreshToken = r\<rparr>))"

definition find_token :: "string \<Rightarrow> db \<Rightarrow> token_row option" where
  "find_token h d = List.find (\<lambda>t. rt_tokenHash t = h) (db_tokens d)"

text \<open>\<open>revokedAt: null\<close> in the filter keeps the time stamp of rows already revoked.\<close>

definition revoke_family :: "time \<Rightarrow> uuid \<Rightarrow> db \<Rightarrow> db" where
  "revoke_family now familyId d =
     snd (db_update_tokens (\<lambda>t. rt_familyId t = familyId \<and> rt_revokedAt t = None)
            (\<lambda>t. t\<lparr>rt_revokedAt := Some now\<rparr>) d)"

text \<open>What the reads of \<open>rotate\<close> decide: refuse, burn the family and refuse, or go on to the claim.\<close>

datatype rotate_decision = Refuse exn | Burn uuid | Claim token_row user_row

definition rotate_check :: "(string \<Rightarrow> string) \<Rightarrow> time \<Rightarrow> string \<Rightarrow> db \<Rightarrow> rotate_decision" where
  "rotate_check hash now rawToken d = (case find_token (hash rawToken) d of
     None \<Rightarrow> Refuse (unauthorized ''Invalid refresh token'')
   | Some existing \<Rightarrow>
       (if rt_revokedAt existing \<noteq> None then Burn (rt_familyId existing)
        else if rt_expiresAt existing \<le> now then Refuse (unauthorized ''Refresh token expired'')
        else case find_user (rt_userId existing) d of
            None \<Rightarrow> Refuse (unauthorized ''Invalid refresh token'')
          | Some user \<Rightarrow> Claim existing user))"

text \<open>
  The claim transaction: a conditional update (the compare-and-swap on \<open>revokedAt\<close>), then the
  replacement in the same family. \<open>None\<close> is the lost race; a failing insert rolls back and throws.
\<close>

definition rotate_claim ::
  "(string \<Rightarrow> string) \<Rightarrow> time \<Rightarrow> uuid \<Rightarrow> string \<Rightarrow> time \<Rightarrow> token_row \<Rightarrow> user_row \<Rightarrow> db
     \<Rightarrow> prisma_error + db \<times> string option" where
  "rotate_claim hash ttl tid raw now existing user d =
     (case db_update_tokens (\<lambda>t. rt_id t = rt_id existing \<and> rt_revokedAt t = None)
             (\<lambda>t. t\<lparr>rt_revokedAt := Some now\<rparr>) d of
        (claimed, d1) \<Rightarrow>
          (if claimed = 0 then Inr (d1, None)
           else case db_create_token
                       (new_token_row tid (u_id user) (hash raw) (rt_familyId existing) ttl now) d1 of
               Inl e \<Rightarrow> Inl e
             | Inr d2 \<Rightarrow> Inr (d2, Some raw)))"

definition reuse_detected :: exn where
  "reuse_detected = unauthorized ''Refresh token reuse detected''"

definition rotate ::
  "(string \<Rightarrow> string) \<Rightarrow> (jwt_payload \<Rightarrow> string) \<Rightarrow> time \<Rightarrow> uuid \<Rightarrow> string \<Rightarrow> time \<Rightarrow> string \<Rightarrow> db
     \<Rightarrow> db \<times> (exn + user_row \<times> auth_tokens)" where
  "rotate hash sign ttl tid raw now rawToken d = (case rotate_check hash now rawToken d of
     Refuse e \<Rightarrow> (d, Inl e)
   | Burn fam \<Rightarrow> (revoke_family now fam d, Inl reuse_detected)
   | Claim existing user \<Rightarrow>
       (case rotate_claim hash ttl tid raw now existing user d of
          Inl e \<Rightarrow> (d, Inl (PrismaExn e))
        | Inr (d1, None) \<Rightarrow> (revoke_family now (rt_familyId existing) d1, Inl reuse_detected)
        | Inr (d1, Some r) \<Rightarrow>
            (d1, Inr (user, \<lparr>at_accessToken = sign_access_token sign user, at_refreshToken = r\<rparr>))))"

definition revoke_by_token :: "(string \<Rightarrow> string) \<Rightarrow> time \<Rightarrow> string \<Rightarrow> db \<Rightarrow> db" where
  "revoke_by_token hash now rawToken d = (case find_token (hash rawToken) d of
     None \<Rightarrow> d
   | Some existing \<Rightarrow> revoke_family now (rt_familyId existing) d)"

section \<open>RefreshTokenPurgeService\<close>

definition purge_expired :: "time \<Rightarrow> time \<Rightarrow> db \<Rightarrow> db \<times> nat" where
  "purge_expired graceMs now d =
     (case db_delete_tokens (\<lambda>t. rt_expiresAt t < now - graceMs) d of (n, d1) \<Rightarrow> (d1, n))"

section \<open>Live tokens\<close>

definition live :: "token_row \<Rightarrow> bool" where
  "live t \<longleftrightarrow> rt_revokedAt t = None"

definition live_count :: "uuid \<Rightarrow> db \<Rightarrow> nat" where
  "live_count fam d = count_where (\<lambda>t. rt_familyId t = fam \<and> live t) (db_tokens d)"

text \<open>The invariant: one live token per family at most, and one user per family.\<close>

definition tokens_inv :: "db \<Rightarrow> bool" where
  "tokens_inv d \<longleftrightarrow> db_wf d
     \<and> list_all (\<lambda>t. live_count (rt_familyId t) d \<le> 1) (db_tokens d)
     \<and> list_all (\<lambda>t. list_all (\<lambda>t'. rt_familyId t = rt_familyId t' \<longrightarrow> rt_userId t = rt_userId t')
          (db_tokens d)) (db_tokens d)"

lemma live_count_le: "tokens_inv d \<Longrightarrow> live_count fam d \<le> 1"
proof (cases "\<exists>t \<in> set (db_tokens d). rt_familyId t = fam")
  case True
  then show "tokens_inv d \<Longrightarrow> live_count fam d \<le> 1"
    by (auto simp: tokens_inv_def list_all_iff)
next
  case False
  then have "live_count fam d = 0"
    by (auto simp: live_count_def)
  then show "tokens_inv d \<Longrightarrow> live_count fam d \<le> 1" by simp
qed

lemma tokens_invI:
  assumes "db_wf d" and "\<And>fam. live_count fam d \<le> 1"
    and "\<And>t t'. t \<in> set (db_tokens d) \<Longrightarrow> t' \<in> set (db_tokens d) \<Longrightarrow> rt_familyId t = rt_familyId t'
           \<Longrightarrow> rt_userId t = rt_userId t'"
  shows "tokens_inv d"
  unfolding tokens_inv_def list_all_iff by (intro conjI ballI impI assms)

lemma family_user:
  "tokens_inv d \<Longrightarrow> t \<in> set (db_tokens d) \<Longrightarrow> t' \<in> set (db_tokens d) \<Longrightarrow> rt_familyId t = rt_familyId t'
   \<Longrightarrow> rt_userId t = rt_userId t'"
  unfolding tokens_inv_def list_all_iff by (elim conjE) (drule bspec, assumption, drule bspec, assumption, erule mp)

lemma wf_tokens: "db_wf d \<Longrightarrow> no_clash token_clash (db_tokens d)"
  by (simp add: db_wf_def keys_ok_def)

lemma find_token_Some:
  "find_token h d = Some t \<Longrightarrow> t \<in> set (db_tokens d) \<and> rt_tokenHash t = h"
  by (auto simp: find_token_def dest: find_SomeD)

lemma find_token_row:
  assumes "db_wf d" and "t \<in> set (db_tokens d)"
  shows "find_token (rt_tokenHash t) d = Some t"
  unfolding find_token_def
  by (rule tokens.find_key [OF wf_tokens [OF assms(1)] assms(2)]) (auto simp: token_clash_def)

lemma same_token_id:
  "db_wf d \<Longrightarrow> a \<in> set (db_tokens d) \<Longrightarrow> b \<in> set (db_tokens d) \<Longrightarrow> rt_id a = rt_id b \<Longrightarrow> a = b"
  using tokens.same_row [OF wf_tokens] by (auto simp: token_clash_def)

subsection \<open>Revocation\<close>

definition stamp :: "time \<Rightarrow> (token_row \<Rightarrow> bool) \<Rightarrow> token_row \<Rightarrow> token_row" where
  "stamp now P t = (if P t \<and> live t then t\<lparr>rt_revokedAt := Some now\<rparr> else t)"

lemma stamp_simps [simp]:
  "rt_id (stamp now P t) = rt_id t" "rt_userId (stamp now P t) = rt_userId t"
  "rt_tokenHash (stamp now P t) = rt_tokenHash t" "rt_familyId (stamp now P t) = rt_familyId t"
  "rt_expiresAt (stamp now P t) = rt_expiresAt t" "live (stamp now P t) \<longleftrightarrow> live t \<and> \<not> P t"
  by (auto simp: stamp_def live_def)

lemma stamp_dead: "\<not> live t \<Longrightarrow> stamp now P t = t"
  by (simp add: stamp_def)

lemma revoke_family_tokens:
  "db_tokens (revoke_family now fam d) = map (stamp now (\<lambda>t. rt_familyId t = fam)) (db_tokens d)"
  by (simp add: revoke_family_def db_update_tokens_def update_where_def stamp_def live_def)

lemma revoke_family_frame:
  "revoke_family now fam d = d\<lparr>db_tokens := db_tokens (revoke_family now fam d)\<rparr>"
  by (simp add: revoke_family_def db_update_tokens_def)

lemma revoke_family_wf [inv_intros]: "db_wf d \<Longrightarrow> db_wf (revoke_family now fam d)"
  unfolding revoke_family_def
  by (rule db_update_tokens_wf [where f = "\<lambda>t. t\<lparr>rt_revokedAt := Some now\<rparr>"])
    (auto simp: db_update_tokens_def)

lemma count_where_map: "count_where P (map f xs) = count_where (\<lambda>x. P (f x)) xs"
  by (induction xs) auto

lemma count_where_mono:
  "(\<And>x. x \<in> set xs \<Longrightarrow> P x \<Longrightarrow> Q x) \<Longrightarrow> count_where P xs \<le> count_where Q xs"
  by (induction xs) auto

lemma count_where_filter: "count_where P (filter Q xs) \<le> count_where P xs"
  by (induction xs) auto

lemma live_count_revoke_family:
  "live_count f (revoke_family now fam d) = (if f = fam then 0 else live_count f d)"
  by (auto simp: live_count_def revoke_family_tokens count_where_map intro!: count_where_cong)

lemma revoke_family_inv [inv_intros]:
  assumes "tokens_inv d"
  shows "tokens_inv (revoke_family now fam d)"
proof (rule tokens_invI)
  show "db_wf (revoke_family now fam d)"
    using assms by (auto simp: tokens_inv_def intro: revoke_family_wf)
  show "live_count f (revoke_family now fam d) \<le> 1" for f
    using live_count_le [OF assms, of f] by (simp add: live_count_revoke_family)
  show "rt_userId t = rt_userId t'"
    if "t \<in> set (db_tokens (revoke_family now fam d))" "t' \<in> set (db_tokens (revoke_family now fam d))"
      "rt_familyId t = rt_familyId t'" for t t'
  proof -
    from that(1,2) obtain a b where "a \<in> set (db_tokens d)" "b \<in> set (db_tokens d)"
      and "t = stamp now (\<lambda>t. rt_familyId t = fam) a" "t' = stamp now (\<lambda>t. rt_familyId t = fam) b"
      by (auto simp: revoke_family_tokens)
    with that(3) family_user [OF assms, of a b] show ?thesis by simp
  qed
qed

subsection \<open>Claim and insertion\<close>

lemma rotate_claim_Some:
  assumes run: "rotate_claim hash ttl tid raw now t u d = Inr (d', Some r)" and wf: "db_wf d"
  obtains x where "x \<in> set (db_tokens d)" "rt_id x = rt_id t" "live x" "r = raw"
    "d' = d\<lparr>db_tokens := map (stamp now (\<lambda>y. rt_id y = rt_id t)) (db_tokens d)
            @ [new_token_row tid (u_id u) (hash raw) (rt_familyId t) ttl now]\<rparr>"
    "db_wf d'" "\<forall>y \<in> set (db_tokens d). rt_id y \<noteq> tid \<and> rt_tokenHash y \<noteq> hash raw"
proof -
  let ?new = "new_token_row tid (u_id u) (hash raw) (rt_familyId t) ttl now"
  let ?d1 = "d\<lparr>db_tokens := map (stamp now (\<lambda>y. rt_id y = rt_id t)) (db_tokens d)\<rparr>"
  have upd: "db_update_tokens (\<lambda>y. rt_id y = rt_id t \<and> rt_revokedAt y = None)
      (\<lambda>y. y\<lparr>rt_revokedAt := Some now\<rparr>) d
      = (count_where (\<lambda>y. rt_id y = rt_id t \<and> live y) (db_tokens d), ?d1)"
    by (simp add: db_update_tokens_def update_where_def stamp_def live_def)
  from run have nz: "count_where (\<lambda>y. rt_id y = rt_id t \<and> live y) (db_tokens d) \<noteq> 0"
    and ins: "db_create_token ?new ?d1 = Inr d'" and r: "r = raw"
    by (auto simp: rotate_claim_def upd split: if_splits sum.splits)
  from nz obtain x where x: "x \<in> set (db_tokens d)" "rt_id x = rt_id t" "live x"
    by (auto simp: count_where_def filter_empty_conv)
  have "db_wf ?d1"
    by (rule db_update_tokens_wf [OF upd _ wf]) simp
  with ins have wf': "db_wf d'" by (rule db_create_token_wf)
  from ins obtain ts where ts: "insert_row token_clash ?new (db_tokens ?d1) = Some ts"
    and d': "d' = ?d1\<lparr>db_tokens := ts\<rparr>"
    by (auto simp: db_create_token_def split: option.splits if_splits)
  from tokens.insert_Some [OF ts wf_tokens [OF \<open>db_wf ?d1\<close>]]
  have ts_eq: "ts = db_tokens ?d1 @ [?new]" and fresh: "\<forall>y \<in> set (db_tokens ?d1). \<not> token_clash ?new y"
    by auto
  show ?thesis
  proof (rule that [OF x r _ wf'])
    show "d' = d\<lparr>db_tokens := map (stamp now (\<lambda>y. rt_id y = rt_id t)) (db_tokens d) @ [?new]\<rparr>"
      by (simp add: d' ts_eq)
    show "\<forall>y \<in> set (db_tokens d). rt_id y \<noteq> tid \<and> rt_tokenHash y \<noteq> hash raw"
      using fresh by (auto simp: token_clash_def new_token_row_def)
  qed
qed

lemma rotate_claim_None:
  assumes run: "rotate_claim hash ttl tid raw now t u d = Inr (d', None)"
  shows "d' = d" and "\<forall>x \<in> set (db_tokens d). rt_id x = rt_id t \<longrightarrow> \<not> live x"
proof -
  have dead: "\<forall>x \<in> set (db_tokens d). \<not> (rt_id x = rt_id t \<and> rt_revokedAt x = None)"
    and d': "d' = d\<lparr>db_tokens := update_where (\<lambda>y. rt_id y = rt_id t \<and> rt_revokedAt y = None)
                    (\<lambda>y. y\<lparr>rt_revokedAt := Some now\<rparr>) (db_tokens d)\<rparr>"
    using run by (auto simp: rotate_claim_def db_update_tokens_def split: if_splits sum.splits)
  from dead have "update_where (\<lambda>y. rt_id y = rt_id t \<and> rt_revokedAt y = None)
                    (\<lambda>y. y\<lparr>rt_revokedAt := Some now\<rparr>) (db_tokens d) = db_tokens d"
    by (auto simp: update_where_def intro: map_idI)
  with d' show "d' = d" by simp
  from dead show "\<forall>x \<in> set (db_tokens d). rt_id x = rt_id t \<longrightarrow> \<not> live x"
    by (auto simp: live_def)
qed

text \<open>The claim keeps the invariant when the row it claims is the row it read.\<close>

lemma claim_tokens_inv:
  assumes inv: "tokens_inv d" and x: "x \<in> set (db_tokens d)" "live x"
    and fam: "rt_familyId new = rt_familyId x" "rt_userId new = rt_userId x"
    and d': "db_tokens d' = map (stamp now (\<lambda>y. rt_id y = rt_id x)) (db_tokens d) @ [new]"
    and wf: "db_wf d'"
  shows "tokens_inv d'"
proof (rule tokens_invI [OF wf])
  fix f
  have "live_count f d' = count_where (\<lambda>y. rt_familyId y = f \<and> live y \<and> rt_id y \<noteq> rt_id x) (db_tokens d)
      + (if rt_familyId new = f \<and> live new then 1 else 0)"
    by (simp add: live_count_def d' count_where_map)
  also have "\<dots> \<le> 1"
  proof (cases "f = rt_familyId x")
    case True
    have dist: "distinct (db_tokens d)"
      using inv tokens.distinct_rows wf_tokens by (auto simp: tokens_inv_def)
    have "live_count f d \<le> 1" by (rule live_count_le [OF inv])
    then have "\<forall>y \<in> set (db_tokens d). \<forall>z \<in> set (db_tokens d). rt_familyId y = f \<and> live y
        \<longrightarrow> rt_familyId z = f \<and> live z \<longrightarrow> y = z"
      unfolding live_count_def count_where_le_one [OF dist] .
    note only = this [rule_format, OF _ x(1)]
    have "y = x" if "y \<in> set (db_tokens d)" "rt_familyId y = f" "live y" for y
      by (rule only) (use that x(2) True in simp_all)
    then have zero: "count_where (\<lambda>y. rt_familyId y = f \<and> live y \<and> rt_id y \<noteq> rt_id x) (db_tokens d) = 0"
      by auto
    show ?thesis unfolding zero by simp
  next
    case False
    have "count_where (\<lambda>y. rt_familyId y = f \<and> live y \<and> rt_id y \<noteq> rt_id x) (db_tokens d) \<le> live_count f d"
      unfolding live_count_def by (rule count_where_mono) simp
    with live_count_le [OF inv, of f] False fam show ?thesis by simp
  qed
  finally show "live_count f d' \<le> 1" .
next
  fix a b
  assume ab: "a \<in> set (db_tokens d')" "b \<in> set (db_tokens d')" "rt_familyId a = rt_familyId b"
  have src: "\<exists>c0 \<in> set (db_tokens d). rt_familyId c0 = rt_familyId c \<and> rt_userId c0 = rt_userId c"
    if "c \<in> set (db_tokens d')" for c
    using that x(1) fam by (auto simp: d')
  from src [OF ab(1)] src [OF ab(2)] ab(3) show "rt_userId a = rt_userId b"
    using family_user [OF inv] by metis
qed

lemma append_tokens_inv:
  assumes inv: "tokens_inv d" and fresh: "\<forall>y \<in> set (db_tokens d). rt_familyId y \<noteq> rt_familyId new"
    and d': "db_tokens d' = db_tokens d @ [new]" and wf: "db_wf d'"
  shows "tokens_inv d'"
proof (rule tokens_invI [OF wf])
  fix f
  have "live_count f d = 0" if "f = rt_familyId new"
    using fresh that by (auto simp: live_count_def)
  then show "live_count f d' \<le> 1"
    using live_count_le [OF inv, of f] by (cases "f = rt_familyId new") (auto simp: live_count_def d')
next
  fix a b
  assume "a \<in> set (db_tokens d')" "b \<in> set (db_tokens d')" "rt_familyId a = rt_familyId b"
  then show "rt_userId a = rt_userId b"
    using family_user [OF inv, of a b] fresh by (auto simp: d')
qed

subsection \<open>The operations keep the invariant\<close>

lemma rotate_check_Claim:
  "rotate_check hash now rawToken d = Claim t u \<Longrightarrow>
     t \<in> set (db_tokens d) \<and> rt_tokenHash t = hash rawToken \<and> live t \<and> now < rt_expiresAt t
     \<and> find_user (rt_userId t) d = Some u \<and> u_id u = rt_userId t"
  by (auto simp: rotate_check_def live_def dest: find_token_Some find_user_Some
      split: option.splits if_splits)

lemma rotate_check_Burn:
  "rotate_check hash now rawToken d = Burn fam \<Longrightarrow>
     \<exists>t \<in> set (db_tokens d). rt_tokenHash t = hash rawToken \<and> \<not> live t \<and> rt_familyId t = fam"
  by (auto simp: rotate_check_def live_def dest: find_token_Some split: option.splits if_splits)

text \<open>A claim by a presenter whose row, once read, has kept its identity.\<close>

lemma rotate_claim_inv:
  assumes inv: "tokens_inv d" and run: "rotate_claim hash ttl tid raw now t u d = Inr (d', Some r)"
    and ident: "\<forall>y \<in> set (db_tokens d). rt_id y = rt_id t \<longrightarrow>
       rt_familyId y = rt_familyId t \<and> rt_userId y = rt_userId t"
    and user: "u_id u = rt_userId t"
  shows "tokens_inv d'"
proof -
  have wf: "db_wf d" using inv by (simp add: tokens_inv_def)
  from rotate_claim_Some [OF run wf] obtain x where x: "x \<in> set (db_tokens d)" "rt_id x = rt_id t" "live x"
    and d': "d' = d\<lparr>db_tokens := map (stamp now (\<lambda>y. rt_id y = rt_id t)) (db_tokens d)
            @ [new_token_row tid (u_id u) (hash raw) (rt_familyId t) ttl now]\<rparr>" and wf': "db_wf d'"
    by metis
  show ?thesis
    by (rule claim_tokens_inv [OF inv x(1) x(3) _ _ _ wf',
          where new = "new_token_row tid (u_id u) (hash raw) (rt_familyId t) ttl now"])
      (use x ident user in \<open>auto simp: d' new_token_row_def\<close>)
qed

lemma claim_same_ident:
  assumes "tokens_inv d" and "t \<in> set (db_tokens d)"
  shows "\<forall>y \<in> set (db_tokens d). rt_id y = rt_id t \<longrightarrow>
       rt_familyId y = rt_familyId t \<and> rt_userId y = rt_userId t"
  using assms same_token_id by (auto simp: tokens_inv_def)

lemma rotate_inv [inv_intros]:
  assumes inv: "tokens_inv d"
  shows "tokens_inv (fst (rotate hash sign ttl tid raw now rawToken d))"
proof (cases "rotate_check hash now rawToken d")
  case (Refuse e)
  with inv show ?thesis by (simp add: rotate_def)
next
  case (Burn fam)
  with inv show ?thesis by (simp add: rotate_def revoke_family_inv)
next
  case (Claim t u)
  note c = rotate_check_Claim [OF Claim]
  show ?thesis
  proof (cases "rotate_claim hash ttl tid raw now t u d")
    case (Inl e)
    with inv Claim show ?thesis by (simp add: rotate_def)
  next
    case (Inr p)
    obtain d1 o1 where p: "p = (d1, o1)" by (cases p)
    show ?thesis
    proof (cases o1)
      case None
      have "d1 = d"
        by (rule rotate_claim_None(1)) (use Inr p None in simp)
      with Inr p None Claim revoke_family_inv [OF inv] show ?thesis
        by (simp add: rotate_def)
    next
      case (Some r)
      have "tokens_inv d1"
        by (rule rotate_claim_inv [OF inv _ claim_same_ident [OF inv]]) (use Inr p Some c in auto)
      with Inr p Some Claim show ?thesis by (simp add: rotate_def)
    qed
  qed
qed

lemma issue_Inr:
  assumes run: "issue_for_new_session hash sign ttl tid fam raw now user d = (d', Inr toks)"
    and wf: "db_wf d"
  shows "d' = d\<lparr>db_tokens := db_tokens d @ [new_token_row tid (u_id user) (hash raw) fam ttl now]\<rparr>"
    "db_wf d'" "at_refreshToken toks = raw" "at_accessToken toks = sign_access_token sign user"
    "\<forall>y \<in> set (db_tokens d). rt_id y \<noteq> tid \<and> rt_tokenHash y \<noteq> hash raw"
proof -
  let ?new = "new_token_row tid (u_id user) (hash raw) fam ttl now"
  from run have ins: "db_create_token ?new d = Inr d'" and toks: "toks = \<lparr>at_accessToken = sign_access_token sign user, at_refreshToken = raw\<rparr>"
    by (auto simp: issue_for_new_session_def persist_refresh_token_def split: sum.splits prod.splits)
  from ins show "db_wf d'" using wf by (rule db_create_token_wf)
  from ins obtain ts where ts: "insert_row token_clash ?new (db_tokens d) = Some ts"
    and d': "d' = d\<lparr>db_tokens := ts\<rparr>"
    by (auto simp: db_create_token_def split: option.splits if_splits)
  from tokens.insert_Some [OF ts wf_tokens [OF wf]]
  show "d' = d\<lparr>db_tokens := db_tokens d @ [?new]\<rparr>"
    and "\<forall>y \<in> set (db_tokens d). rt_id y \<noteq> tid \<and> rt_tokenHash y \<noteq> hash raw"
    by (auto simp: d' token_clash_def new_token_row_def)
  from toks show "at_refreshToken toks = raw" "at_accessToken toks = sign_access_token sign user"
    by simp_all
qed

lemma issue_Inl:
  "issue_for_new_session hash sign ttl tid fam raw now user d = (d', Inl e) \<Longrightarrow> d' = d"
  by (auto simp: issue_for_new_session_def persist_refresh_token_def split: sum.splits prod.splits)

lemma issue_inv [inv_intros]:
  assumes inv: "tokens_inv d" and fresh: "\<forall>y \<in> set (db_tokens d). rt_familyId y \<noteq> fam"
  shows "tokens_inv (fst (issue_for_new_session hash sign ttl tid fam raw now user d))"
proof (cases "snd (issue_for_new_session hash sign ttl tid fam raw now user d)")
  case (Inl e)
  then have "fst (issue_for_new_session hash sign ttl tid fam raw now user d) = d"
    using issue_Inl by (metis prod.collapse)
  with inv show ?thesis by simp
next
  case (Inr toks)
  let ?r = "issue_for_new_session hash sign ttl tid fam raw now user d"
  have run: "?r = (fst ?r, Inr toks)" using Inr by (metis prod.collapse)
  have wf: "db_wf d" using inv by (simp add: tokens_inv_def)
  note i = issue_Inr [OF run wf]
  show ?thesis
    by (rule append_tokens_inv [OF inv _ _ i(2)])
      (use fresh i(1) in \<open>auto simp: new_token_row_def\<close>)
qed

lemma purge_tokens:
  "db_tokens (fst (purge_expired g now d)) = filter (\<lambda>t. now - g \<le> rt_expiresAt t) (db_tokens d)"
  by (auto simp: purge_expired_def db_delete_tokens_def delete_where_def intro: filter_cong)

lemma purge_inv [inv_intros]:
  assumes inv: "tokens_inv d"
  shows "tokens_inv (fst (purge_expired g now d))"
proof (rule tokens_invI)
  obtain n d1 where del: "db_delete_tokens (\<lambda>t. rt_expiresAt t < now - g) d = (n, d1)" by force
  then show "db_wf (fst (purge_expired g now d))"
    using inv by (auto simp: purge_expired_def tokens_inv_def intro: db_delete_tokens_wf)
  show "live_count f (fst (purge_expired g now d)) \<le> 1" for f
  proof -
    have "live_count f (fst (purge_expired g now d)) \<le> live_count f d"
      unfolding live_count_def purge_tokens by (rule count_where_filter)
    with live_count_le [OF inv, of f] show ?thesis by simp
  qed
  show "rt_userId a = rt_userId b"
    if "a \<in> set (db_tokens (fst (purge_expired g now d)))"
      "b \<in> set (db_tokens (fst (purge_expired g now d)))" "rt_familyId a = rt_familyId b" for a b
    using that family_user [OF inv, of a b] by (simp add: purge_tokens)
qed

lemma revoke_by_token_inv [inv_intros]: "tokens_inv d \<Longrightarrow> tokens_inv (revoke_by_token hash now raw d)"
  by (simp add: revoke_by_token_def revoke_family_inv split: option.split)

section \<open>Concurrent refreshes\<close>

text \<open>
  A request that presents a refresh token is a small program of its own: between its awaits any other
  request may run. \<open>present_step\<close> is one statement of \<open>rotate\<close>; the transaction is one statement.
  The first component of a state is the token presented.
\<close>

datatype presenter =
    Presenting string
  | Claiming string token_row user_row
  | Burning string uuid
  | Rotated string token_row string
  | Refused string exn
  | Burnt string uuid

definition present_step ::
  "(string \<Rightarrow> string) \<Rightarrow> time \<Rightarrow> uuid \<Rightarrow> string \<Rightarrow> time \<Rightarrow> presenter \<Rightarrow> db \<Rightarrow> presenter \<times> db" where
  "present_step hash ttl tid raw now p d = (case p of
     Presenting tok \<Rightarrow> (case rotate_check hash now tok d of
         Refuse e \<Rightarrow> (Refused tok e, d)
       | Burn fam \<Rightarrow> (Burning tok fam, d)
       | Claim t u \<Rightarrow> (Claiming tok t u, d))
   | Claiming tok t u \<Rightarrow> (case rotate_claim hash ttl tid raw now t u d of
         Inl e \<Rightarrow> (Refused tok (PrismaExn e), d)
       | Inr (d1, None) \<Rightarrow> (Burning tok (rt_familyId t), d1)
       | Inr (d1, Some r) \<Rightarrow> (Rotated tok t r, d1))
   | Burning tok fam \<Rightarrow> (Burnt tok fam, revoke_family now fam d)
   | _ \<Rightarrow> (p, d))"

text \<open>What a finished request answers.\<close>

definition presenter_answer :: "presenter \<Rightarrow> (exn + string) option" where
  "presenter_answer p = (case p of
     Rotated _ _ r \<Rightarrow> Some (Inr r) | Refused _ e \<Rightarrow> Some (Inl e) | Burnt _ _ \<Rightarrow> Some (Inl reuse_detected)
   | _ \<Rightarrow> None)"

lemma present_alone:
  assumes "present_step hash ttl tid raw now (Presenting tok) d = (p1, d1)"
    and "present_step hash ttl tid raw now p1 d1 = (p2, d2)"
    and "present_step hash ttl tid raw now p2 d2 = (p3, d3)"
  shows "d3 = fst (rotate hash sign ttl tid raw now tok d)"
    and "presenter_answer p3
       = Some (map_sum id (\<lambda>r. at_refreshToken (snd r)) (snd (rotate hash sign ttl tid raw now tok d)))"
  using assms
  by (auto simp: present_step_def rotate_def presenter_answer_def
      split: rotate_decision.splits sum.splits option.splits prod.splits)

text \<open>
  The store with the requests in flight. \<open>tw_log\<close> remembers every token row ever stored, so that the
  rules can say that random draws (row ids, raw tokens, family ids) do not repeat.
\<close>

record token_world =
  tw_db :: db
  tw_log :: "token_row list"
  tw_procs :: "presenter list"

definition log_rows :: "token_row list \<Rightarrow> db \<Rightarrow> token_row list" where
  "log_rows log d = log @ filter (\<lambda>t. \<not> list_ex (\<lambda>l. rt_id l = rt_id t) log) (db_tokens d)"

definition fresh_draw :: "(string \<Rightarrow> string) \<Rightarrow> uuid \<Rightarrow> string \<Rightarrow> token_row list \<Rightarrow> bool" where
  "fresh_draw hash tid raw log \<longleftrightarrow> list_all (\<lambda>l. rt_id l \<noteq> tid \<and> rt_tokenHash l \<noteq> hash raw) log"

definition known_family :: "token_row list \<Rightarrow> uuid \<Rightarrow> bool" where
  "known_family log fam \<longleftrightarrow> list_ex (\<lambda>l. rt_familyId l = fam) log"

definition stored :: "db \<Rightarrow> token_world \<Rightarrow> token_world" where
  "stored d w = w\<lparr>tw_db := d, tw_log := log_rows (tw_log w) d\<rparr>"

definition token_start :: "db \<Rightarrow> token_world" where
  "token_start d = \<lparr>tw_db = d, tw_log = db_tokens d, tw_procs = []\<rparr>"

inductive token_step ::
  "(string \<Rightarrow> string) \<Rightarrow> (jwt_payload \<Rightarrow> string) \<Rightarrow> time \<Rightarrow> time \<Rightarrow> token_world \<Rightarrow> token_world \<Rightarrow> bool"
  for hash sign ttl grace where
  arrive: "token_step hash sign ttl grace w (w\<lparr>tw_procs := tw_procs w @ [Presenting tok]\<rparr>)"
| advance: "i < length (tw_procs w) \<Longrightarrow> fresh_draw hash tid raw (tw_log w)
     \<Longrightarrow> present_step hash ttl tid raw now (tw_procs w ! i) (tw_db w) = (p, d)
     \<Longrightarrow> token_step hash sign ttl grace w (stored d (w\<lparr>tw_procs := (tw_procs w)[i := p]\<rparr>))"
| login: "fresh_draw hash tid raw (tw_log w) \<Longrightarrow> \<not> known_family (tw_log w) fam
     \<Longrightarrow> token_step hash sign ttl grace w
          (stored (fst (issue_for_new_session hash sign ttl tid fam raw now user (tw_db w))) w)"
| logout: "token_step hash sign ttl grace w (stored (revoke_by_token hash now tok (tw_db w)) w)"
| purge: "token_step hash sign ttl grace w (stored (fst (purge_expired grace now (tw_db w))) w)"

inductive_cases token_stepE: "token_step hash sign ttl grace w w'"

text \<open>A scheduler that runs a given list of moves, to exhibit executions.\<close>

datatype token_move =
  Arrive string | Advance nat uuid string time | Login uuid uuid string time user_row
  | Logout time string | Purge time

definition token_move_step ::
  "(string \<Rightarrow> string) \<Rightarrow> (jwt_payload \<Rightarrow> string) \<Rightarrow> time \<Rightarrow> time \<Rightarrow> token_move \<Rightarrow> token_world \<Rightarrow> token_world option"
  where
  "token_move_step hash sign ttl grace m w = (case m of
     Arrive tok \<Rightarrow> Some (w\<lparr>tw_procs := tw_procs w @ [Presenting tok]\<rparr>)
   | Advance i tid raw now \<Rightarrow>
       (if i < length (tw_procs w) \<and> fresh_draw hash tid raw (tw_log w)
        then (case present_step hash ttl tid raw now (tw_procs w ! i) (tw_db w) of
                (p, d) \<Rightarrow> Some (stored d (w\<lparr>tw_procs := (tw_procs w)[i := p]\<rparr>)))
        else None)
   | Login tid fam raw now user \<Rightarrow>
       (if fresh_draw hash tid raw (tw_log w) \<and> \<not> known_family (tw_log w) fam
        then Some (stored (fst (issue_for_new_session hash sign ttl tid fam raw now user (tw_db w))) w)
        else None)
   | Logout now tok \<Rightarrow> Some (stored (revoke_by_token hash now tok (tw_db w)) w)
   | Purge now \<Rightarrow> Some (stored (fst (purge_expired grace now (tw_db w))) w))"

fun token_run ::
  "(string \<Rightarrow> string) \<Rightarrow> (jwt_payload \<Rightarrow> string) \<Rightarrow> time \<Rightarrow> time \<Rightarrow> token_move list \<Rightarrow> token_world \<Rightarrow> token_world option"
  where
  "token_run hash sign ttl grace [] w = Some w"
| "token_run hash sign ttl grace (m # ms) w =
     (case token_move_step hash sign ttl grace m w of
        None \<Rightarrow> None | Some w1 \<Rightarrow> token_run hash sign ttl grace ms w1)"

lemma token_move_sound:
  "token_move_step hash sign ttl grace m w = Some w' \<Longrightarrow> token_step hash sign ttl grace w w'"
  by (cases m) (auto simp: token_move_step_def intro: token_step.intros split: if_splits prod.splits)

lemma token_run_sound:
  "token_run hash sign ttl grace ms w = Some w' \<Longrightarrow> (token_step hash sign ttl grace)\<^sup>*\<^sup>* w w'"
  by (induction ms arbitrary: w)
    (auto split: option.splits dest!: token_move_sound intro: converse_rtranclp_into_rtranclp)

subsection \<open>How the rows evolve\<close>

definition token_ident :: "token_row \<Rightarrow> uuid \<times> string \<times> uuid \<times> uuid" where
  "token_ident t = (rt_id t, rt_tokenHash t, rt_familyId t, rt_userId t)"

text \<open>
  Every row of the new store is an old one that has not come back to life, or one drawn afresh, and
  then it extends a family that had a live token, or founds one.
\<close>

definition evolves :: "token_row list \<Rightarrow> db \<Rightarrow> db \<Rightarrow> bool" where
  "evolves log d d' \<longleftrightarrow> (\<forall>x' \<in> set (db_tokens d').
     (\<exists>x \<in> set (db_tokens d). token_ident x = token_ident x' \<and> (live x' \<longrightarrow> live x))
   \<or> ((\<forall>l \<in> set log. rt_id l \<noteq> rt_id x' \<and> rt_tokenHash l \<noteq> rt_tokenHash x')
      \<and> (known_family log (rt_familyId x') \<longrightarrow>
          (\<exists>x \<in> set (db_tokens d). live x \<and> rt_familyId x = rt_familyId x'))))"

definition logged :: "token_row list \<Rightarrow> db \<Rightarrow> bool" where
  "logged log d \<longleftrightarrow> (\<forall>x \<in> set (db_tokens d). \<exists>l \<in> set log. token_ident l = token_ident x)"

definition dead_family :: "db \<Rightarrow> uuid \<Rightarrow> bool" where
  "dead_family d fam \<longleftrightarrow> (\<forall>x \<in> set (db_tokens d). rt_familyId x = fam \<longrightarrow> \<not> live x)"

definition dead_row :: "db \<Rightarrow> uuid \<Rightarrow> bool" where
  "dead_row d i \<longleftrightarrow> (\<forall>x \<in> set (db_tokens d). rt_id x = i \<longrightarrow> \<not> live x)"

lemma dead_family_count: "dead_family d fam \<longleftrightarrow> live_count fam d = 0"
  by (auto simp: dead_family_def live_count_def)

lemma token_ident_eq:
  "token_ident a = token_ident b \<longleftrightarrow> rt_id a = rt_id b \<and> rt_tokenHash a = rt_tokenHash b
     \<and> rt_familyId a = rt_familyId b \<and> rt_userId a = rt_userId b"
  by (simp add: token_ident_def)

lemma token_ident_stamp [simp]: "token_ident (stamp now P t) = token_ident t"
  by (simp add: token_ident_eq)

lemma evolves_refl: "evolves log d d"
  by (auto simp: evolves_def)

lemma evolves_revoke: "evolves log d (revoke_family now fam d)"
  by (auto simp: evolves_def revoke_family_tokens)

lemma evolves_revoke_by_token: "evolves log d (revoke_by_token hash now tok d)"
  by (simp add: revoke_by_token_def evolves_refl evolves_revoke split: option.split)

lemma evolves_purge: "evolves log d (fst (purge_expired g now d))"
  by (auto simp: evolves_def purge_tokens)

lemma fresh_drawD:
  "fresh_draw hash tid raw log \<Longrightarrow> l \<in> set log \<Longrightarrow> rt_id l \<noteq> tid \<and> rt_tokenHash l \<noteq> hash raw"
  by (auto simp: fresh_draw_def list_all_iff)

lemma evolves_append:
  assumes "fresh_draw hash tid raw log" and "rt_id new = tid" "rt_tokenHash new = hash raw"
    and "known_family log (rt_familyId new) \<Longrightarrow>
       \<exists>x \<in> set (db_tokens d). live x \<and> rt_familyId x = rt_familyId new"
    and "\<And>x'. x' \<in> set (db_tokens d') \<Longrightarrow> x' = new \<or>
       (\<exists>x \<in> set (db_tokens d). token_ident x = token_ident x' \<and> (live x' \<longrightarrow> live x))"
  shows "evolves log d d'"
  unfolding evolves_def
proof
  fix x' assume "x' \<in> set (db_tokens d')"
  from assms(5) [OF this] show "(\<exists>x \<in> set (db_tokens d). token_ident x = token_ident x' \<and> (live x' \<longrightarrow> live x))
   \<or> ((\<forall>l \<in> set log. rt_id l \<noteq> rt_id x' \<and> rt_tokenHash l \<noteq> rt_tokenHash x')
      \<and> (known_family log (rt_familyId x') \<longrightarrow>
          (\<exists>x \<in> set (db_tokens d). live x \<and> rt_familyId x = rt_familyId x')))"
  proof
    assume "x' = new"
    with fresh_drawD [OF assms(1)] assms(2,3) assms(4) show ?thesis
      by (intro disjI2) simp
  qed (rule disjI1)
qed

lemma evolves_issue:
  assumes wf: "db_wf d" and fresh: "fresh_draw hash tid raw log" "\<not> known_family log fam"
  shows "evolves log d (fst (issue_for_new_session hash sign ttl tid fam raw now user d))"
proof (cases "issue_for_new_session hash sign ttl tid fam raw now user d")
  case (Pair d' r)
  show ?thesis
  proof (cases r)
    case (Inl e)
    with Pair issue_Inl show ?thesis by (metis evolves_refl fst_conv)
  next
    case (Inr toks)
    from issue_Inr(1) [OF Pair [unfolded Inr] wf]
    have "evolves log d d'"
      by (intro evolves_append [OF fresh(1), where new = "new_token_row tid (u_id user) (hash raw) fam ttl now"])
        (use fresh(2) in \<open>auto simp: new_token_row_def\<close>)
    with Pair show ?thesis by simp
  qed
qed

lemma evolves_claim:
  assumes wf: "db_wf d" and run: "rotate_claim hash ttl tid raw now t u d = Inr (d', Some r)"
    and fresh: "fresh_draw hash tid raw log"
    and ident: "\<forall>y \<in> set (db_tokens d). rt_id y = rt_id t \<longrightarrow> rt_familyId y = rt_familyId t"
  shows "evolves log d d'"
proof -
  from rotate_claim_Some [OF run wf] obtain x where x: "x \<in> set (db_tokens d)" "rt_id x = rt_id t" "live x"
    and d': "d' = d\<lparr>db_tokens := map (stamp now (\<lambda>y. rt_id y = rt_id t)) (db_tokens d)
            @ [new_token_row tid (u_id u) (hash raw) (rt_familyId t) ttl now]\<rparr>"
    by metis
  show ?thesis
    by (intro evolves_append [OF fresh, where new = "new_token_row tid (u_id u) (hash raw) (rt_familyId t) ttl now"])
      (use x ident in \<open>auto simp: d' new_token_row_def\<close>)
qed

lemma set_log_rows: "set log \<subseteq> set (log_rows log d)"
  by (auto simp: log_rows_def)

lemma known_log_rows: "known_family log fam \<Longrightarrow> known_family (log_rows log d) fam"
  using set_log_rows by (auto simp: known_family_def list_ex_iff)

lemma logged_log_rows:
  assumes "evolves log d d'" and "logged log d"
  shows "logged (log_rows log d') d'"
  unfolding logged_def
proof
  fix x' assume x': "x' \<in> set (db_tokens d')"
  with assms(1) consider
      (old) x where "x \<in> set (db_tokens d)" "token_ident x = token_ident x'"
    | (new) "\<forall>l \<in> set log. rt_id l \<noteq> rt_id x'"
    by (auto simp: evolves_def)
  then show "\<exists>l \<in> set (log_rows log d'). token_ident l = token_ident x'"
  proof cases
    case old
    with assms(2) set_log_rows show ?thesis by (metis logged_def subsetD)
  next
    case new
    with x' have "x' \<in> set (log_rows log d')"
      by (auto simp: log_rows_def list_ex_iff)
    then show ?thesis by blast
  qed
qed

lemma no_clash_log_rows:
  assumes ev: "evolves log d d'" and lg: "logged log d" and nc: "no_clash token_clash log" and wf: "db_wf d'"
  shows "no_clash token_clash (log_rows log d')"
proof -
  have "\<not> token_clash l x'" if l: "l \<in> set log" and x': "x' \<in> set (db_tokens d')"
    "\<not> list_ex (\<lambda>l. rt_id l = rt_id x') log" for l x'
  proof -
    from x'(2) have new: "\<forall>l \<in> set log. rt_id l \<noteq> rt_id x'" by (simp add: list_ex_iff)
    have "\<not> (\<exists>x \<in> set (db_tokens d). token_ident x = token_ident x')"
      using lg new by (force simp: logged_def token_ident_eq)
    with ev x'(1) l show ?thesis
      by (auto simp: evolves_def token_clash_def)
  qed
  moreover have "sorted_wrt (\<lambda>a b. \<not> token_clash a b)
      (filter (\<lambda>t. \<not> list_ex (\<lambda>l. rt_id l = rt_id t) log) (db_tokens d'))"
    using wf_tokens [OF wf] by (simp add: no_clash_def sorted_wrt_filter)
  ultimately show ?thesis
    using nc by (auto simp: no_clash_def log_rows_def sorted_wrt_append)
qed

lemma dead_family_evolves:
  assumes "evolves log d d'" and "known_family log fam" and "dead_family d fam"
  shows "dead_family d' fam"
  unfolding dead_family_def
proof (intro ballI impI notI)
  fix x' assume x': "x' \<in> set (db_tokens d')" "rt_familyId x' = fam" "live x'"
  with assms(1,2) have "\<exists>x \<in> set (db_tokens d). live x \<and> rt_familyId x = fam"
    by (auto simp: evolves_def token_ident_eq)
  with assms(3) show False by (auto simp: dead_family_def)
qed

lemma dead_row_evolves:
  assumes "evolves log d d'" and "l \<in> set log" "rt_id l = i" and "dead_row d i"
  shows "dead_row d' i"
  unfolding dead_row_def
proof (intro ballI impI notI)
  fix x' assume x': "x' \<in> set (db_tokens d')" "rt_id x' = i" "live x'"
  with assms(1) consider
      (old) x where "x \<in> set (db_tokens d)" "token_ident x = token_ident x'" "live x"
    | (new) "\<forall>l \<in> set log. rt_id l \<noteq> rt_id x'"
    unfolding evolves_def by blast
  then have "\<exists>x \<in> set (db_tokens d). live x \<and> rt_id x = i"
    using assms(2,3) x'(2) by cases (auto simp: token_ident_eq)
  with assms(4) show False by (auto simp: dead_row_def)
qed

subsection \<open>The invariant of the concurrent store\<close>

definition proc_ok :: "(string \<Rightarrow> string) \<Rightarrow> token_row list \<Rightarrow> db \<Rightarrow> presenter \<Rightarrow> bool" where
  "proc_ok hash log d p = (case p of
     Claiming tok t u \<Rightarrow> token_ident t \<in> token_ident ` set log \<and> rt_tokenHash t = hash tok
        \<and> u_id u = rt_userId t
   | Burning tok fam \<Rightarrow> known_family log fam
   | Rotated tok t r \<Rightarrow> token_ident t \<in> token_ident ` set log \<and> rt_tokenHash t = hash tok
        \<and> dead_row d (rt_id t)
   | Burnt tok fam \<Rightarrow> known_family log fam \<and> dead_family d fam
   | _ \<Rightarrow> True)"

definition winner_id :: "presenter \<Rightarrow> uuid option" where
  "winner_id p = (case p of Rotated _ t _ \<Rightarrow> Some (rt_id t) | _ \<Rightarrow> None)"

definition one_winner :: "presenter list \<Rightarrow> bool" where
  "one_winner ps \<longleftrightarrow> (\<forall>i j a. i < length ps \<longrightarrow> j < length ps
     \<longrightarrow> winner_id (ps ! i) = Some a \<longrightarrow> winner_id (ps ! j) = Some a \<longrightarrow> i = j)"

definition world_inv :: "(string \<Rightarrow> string) \<Rightarrow> token_world \<Rightarrow> bool" where
  "world_inv hash w \<longleftrightarrow> tokens_inv (tw_db w) \<and> no_clash token_clash (tw_log w)
     \<and> logged (tw_log w) (tw_db w)
     \<and> (\<forall>p \<in> set (tw_procs w). proc_ok hash (tw_log w) (tw_db w) p)
     \<and> one_winner (tw_procs w)"

lemma proc_ok_evolves:
  assumes "evolves log d d'" and "proc_ok hash log d p"
  shows "proc_ok hash (log_rows log d') d' p"
proof -
  have row: "dead_row d' (rt_id t)" if "token_ident t \<in> token_ident ` set log" "dead_row d (rt_id t)" for t
    using that dead_row_evolves [OF assms(1)] by (auto simp: token_ident_eq)
  have ident: "token_ident t \<in> token_ident ` set (log_rows log d')"
    if "token_ident t \<in> token_ident ` set log" for t
    using that set_log_rows by blast
  show ?thesis
    using assms(2) row ident known_log_rows dead_family_evolves [OF assms(1)]
    by (auto simp: proc_ok_def split: presenter.splits)
qed

text \<open>A step that stores an evolved database and leaves the requests alone.\<close>

lemma world_inv_stored:
  assumes inv: "world_inv hash w" and ev: "evolves (tw_log w) (tw_db w) d'" and d': "tokens_inv d'"
  shows "world_inv hash (stored d' w)"
proof -
  have "db_wf d'" using d' by (simp add: tokens_inv_def)
  with inv show ?thesis
    using logged_log_rows [OF ev] no_clash_log_rows [OF ev] proc_ok_evolves [OF ev] d'
    by (simp add: world_inv_def stored_def)
qed

lemma one_winner_update:
  assumes "one_winner ps" and "i < length ps"
    and "\<And>a j. winner_id p = Some a \<Longrightarrow> j < length ps \<Longrightarrow> j \<noteq> i \<Longrightarrow> winner_id (ps ! j) \<noteq> Some a"
  shows "one_winner (ps[i := p])"
  unfolding one_winner_def
proof (intro allI impI)
  fix k j a
  assume "k < length (ps[i := p])" "j < length (ps[i := p])"
    and wk: "winner_id (ps[i := p] ! k) = Some a" and wj: "winner_id (ps[i := p] ! j) = Some a"
  then have len: "k < length ps" "j < length ps" by simp_all
  show "k = j"
  proof (cases "k = i \<or> j = i")
    case True
    then show ?thesis using assms(2,3) wk wj len by (metis nth_list_update_eq nth_list_update_neq)
  next
    case False
    then show ?thesis using assms(1) wk wj len by (auto simp: one_winner_def)
  qed
qed

lemma ident_in_log:
  assumes "logged log d" and "t \<in> set (db_tokens d)"
  shows "token_ident t \<in> token_ident ` set log" and "known_family log (rt_familyId t)"
proof -
  from assms obtain l where "l \<in> set log" "token_ident l = token_ident t"
    by (auto simp: logged_def)
  then show "token_ident t \<in> token_ident ` set log" by (metis imageI)
  from \<open>l \<in> set log\<close> \<open>token_ident l = token_ident t\<close> show "known_family log (rt_familyId t)"
    by (auto simp: known_family_def list_ex_iff token_ident_eq)
qed

lemma known_of_ident: "token_ident t \<in> token_ident ` set log \<Longrightarrow> known_family log (rt_familyId t)"
  by (auto simp: known_family_def list_ex_iff token_ident_eq)

text \<open>A logged row keeps its hash, family and user for as long as its id is in the store.\<close>

lemma same_ident:
  assumes nc: "no_clash token_clash log" and lg: "logged log d" and t: "token_ident t \<in> token_ident ` set log"
    and y: "y \<in> set (db_tokens d)" "rt_id y = rt_id t"
  shows "rt_familyId y = rt_familyId t \<and> rt_userId y = rt_userId t"
proof -
  from t obtain l where l: "l \<in> set log" "token_ident l = token_ident t" by force
  from lg y obtain l' where l': "l' \<in> set log" "token_ident l' = token_ident y" by (auto simp: logged_def)
  have "token_clash l l'" using l l' y by (simp add: token_clash_def token_ident_eq)
  with tokens.same_row [OF nc l(1) l'(1)] have "l = l'" by simp
  with l l' show ?thesis by (simp add: token_ident_eq)
qed

definition step_ok ::
  "(string \<Rightarrow> string) \<Rightarrow> token_row list \<Rightarrow> db \<Rightarrow> presenter \<Rightarrow> presenter \<Rightarrow> db \<Rightarrow> bool" where
  "step_ok hash log d p p' d' \<longleftrightarrow> evolves log d d' \<and> tokens_inv d' \<and> proc_ok hash (log_rows log d') d' p'
     \<and> (\<forall>a. winner_id p' = Some a \<longrightarrow> winner_id p = Some a \<or> \<not> dead_row d a)"

lemma step_ok_same:
  "tokens_inv d \<Longrightarrow> proc_ok hash log d p' \<Longrightarrow> winner_id p' = None \<Longrightarrow> step_ok hash log d p p' d"
  by (simp add: step_ok_def evolves_refl proc_ok_evolves [OF evolves_refl])

lemma claiming_step_ok:
  assumes inv: "tokens_inv d" and nc: "no_clash token_clash log" and lg: "logged log d"
    and ok: "proc_ok hash log d (Claiming tok t u)" and fresh: "fresh_draw hash tid raw log"
    and run: "rotate_claim hash ttl tid raw now t u d = Inr (d', Some r)"
  shows "step_ok hash log d (Claiming tok t u) (Rotated tok t r) d'"
proof -
  have wf: "db_wf d" using inv by (simp add: tokens_inv_def)
  from ok have t: "token_ident t \<in> token_ident ` set log" "rt_tokenHash t = hash tok" "u_id u = rt_userId t"
    by (simp_all add: proc_ok_def)
  have ident: "\<forall>y \<in> set (db_tokens d). rt_id y = rt_id t \<longrightarrow>
      rt_familyId y = rt_familyId t \<and> rt_userId y = rt_userId t"
    using same_ident [OF nc lg t(1)] by blast
  have ev: "evolves log d d'"
    by (rule evolves_claim [OF wf run fresh]) (use ident in blast)
  from rotate_claim_Some [OF run wf] obtain x where x: "x \<in> set (db_tokens d)" "rt_id x = rt_id t" "live x"
    and d': "d' = d\<lparr>db_tokens := map (stamp now (\<lambda>y. rt_id y = rt_id t)) (db_tokens d)
            @ [new_token_row tid (u_id u) (hash raw) (rt_familyId t) ttl now]\<rparr>"
    by metis
  from t(1) obtain l where "l \<in> set log" "rt_id l = rt_id t" by (auto simp: token_ident_eq)
  with fresh_drawD [OF fresh] have "rt_id t \<noteq> tid" by metis
  then have "dead_row d' (rt_id t)"
    by (auto simp: dead_row_def d' new_token_row_def)
  moreover have "token_ident t \<in> token_ident ` set (log_rows log d')"
    using t(1) set_log_rows by blast
  moreover have "\<not> dead_row d (rt_id t)"
    using x by (auto simp: dead_row_def)
  ultimately show ?thesis
    using ev rotate_claim_inv [OF inv run ident t(3)] t(2)
    by (simp add: step_ok_def proc_ok_def winner_id_def)
qed

lemma present_step_ok:
  assumes inv: "tokens_inv d" and nc: "no_clash token_clash log" and lg: "logged log d"
    and ok: "proc_ok hash log d p" and fresh: "fresh_draw hash tid raw log"
    and run: "present_step hash ttl tid raw now p d = (p', d')"
  shows "step_ok hash log d p p' d'"
proof (cases p)
  case (Presenting tok)
  show ?thesis
  proof (cases "rotate_check hash now tok d")
    case (Refuse e)
    with run Presenting inv show ?thesis
      by (auto simp: present_step_def proc_ok_def winner_id_def intro: step_ok_same)
  next
    case (Burn fam)
    from rotate_check_Burn [OF this] obtain t where "t \<in> set (db_tokens d)" "rt_familyId t = fam" by blast
    with ident_in_log(2) [OF lg] have "known_family log fam" by blast
    with run Presenting Burn inv show ?thesis
      by (auto simp: present_step_def proc_ok_def winner_id_def intro: step_ok_same)
  next
    case (Claim t u)
    with rotate_check_Claim [OF Claim] ident_in_log(1) [OF lg, of t] run Presenting inv show ?thesis
      by (auto simp: present_step_def proc_ok_def winner_id_def intro!: step_ok_same)
  qed
next
  case (Claiming tok t u)
  show ?thesis
  proof (cases "rotate_claim hash ttl tid raw now t u d")
    case (Inl e)
    with run Claiming inv show ?thesis
      by (auto simp: present_step_def proc_ok_def winner_id_def intro: step_ok_same)
  next
    case (Inr q)
    obtain d1 o1 where q: "q = (d1, o1)" by (cases q)
    show ?thesis
    proof (cases o1)
      case None
      have "d1 = d" by (rule rotate_claim_None(1)) (use Inr q None in simp)
      moreover have "known_family log (rt_familyId t)"
        using ok Claiming known_of_ident by (auto simp: proc_ok_def)
      ultimately show ?thesis
        using run Claiming Inr q None inv
        by (auto simp: present_step_def proc_ok_def winner_id_def intro!: step_ok_same)
    next
      case (Some r)
      with Inr q run Claiming have "p' = Rotated tok t r" "d' = d1"
        by (simp_all add: present_step_def)
      moreover have "step_ok hash log d (Claiming tok t u) (Rotated tok t r) d1"
        by (rule claiming_step_ok [OF inv nc lg _ fresh]) (use ok Claiming Inr q Some in simp_all)
      ultimately show ?thesis using Claiming by simp
    qed
  qed
next
  case (Burning tok fam)
  with run have "p' = Burnt tok fam" "d' = revoke_family now fam d" by (auto simp: present_step_def)
  moreover have "dead_family (revoke_family now fam d) fam"
    by (simp add: dead_family_count live_count_revoke_family)
  ultimately show ?thesis
    using ok Burning revoke_family_inv [OF inv] evolves_revoke known_log_rows
    by (auto simp: step_ok_def proc_ok_def winner_id_def)
next
  case (Rotated tok t r)
  with run ok inv proc_ok_evolves [OF evolves_refl ok] show ?thesis
    by (simp add: present_step_def step_ok_def evolves_refl)
next
  case (Refused tok e)
  with run inv show ?thesis
    by (auto simp: present_step_def proc_ok_def winner_id_def intro: step_ok_same)
next
  case (Burnt tok fam)
  with run ok inv show ?thesis
    by (auto simp: present_step_def winner_id_def intro: step_ok_same)
qed

lemma advance_inv:
  assumes inv: "world_inv hash w" and i: "i < length (tw_procs w)"
    and fresh: "fresh_draw hash tid raw (tw_log w)"
    and run: "present_step hash ttl tid raw now (tw_procs w ! i) (tw_db w) = (p, d)"
  shows "world_inv hash (stored d (w\<lparr>tw_procs := (tw_procs w)[i := p]\<rparr>))"
proof -
  from inv have w: "tokens_inv (tw_db w)" "no_clash token_clash (tw_log w)" "logged (tw_log w) (tw_db w)"
    "\<And>q. q \<in> set (tw_procs w) \<Longrightarrow> proc_ok hash (tw_log w) (tw_db w) q" "one_winner (tw_procs w)"
    by (simp_all add: world_inv_def)
  have ok: "step_ok hash (tw_log w) (tw_db w) (tw_procs w ! i) p d"
    by (rule present_step_ok [OF w(1-3) w(4) fresh run]) (use i in simp)
  then have ev: "evolves (tw_log w) (tw_db w) d" and d: "tokens_inv d"
    and p: "proc_ok hash (log_rows (tw_log w) d) d p"
    and win: "\<And>a. winner_id p = Some a \<Longrightarrow> winner_id (tw_procs w ! i) = Some a \<or> \<not> dead_row (tw_db w) a"
    by (simp_all add: step_ok_def)
  have "db_wf d" using d by (simp add: tokens_inv_def)
  moreover have "one_winner ((tw_procs w)[i := p])"
  proof (rule one_winner_update [OF w(5) i])
    fix a j assume a: "winner_id p = Some a" and j: "j < length (tw_procs w)" "j \<noteq> i"
    show "winner_id (tw_procs w ! j) \<noteq> Some a"
    proof
      assume wj: "winner_id (tw_procs w ! j) = Some a"
      with w(5) i j have "winner_id (tw_procs w ! i) \<noteq> Some a"
        unfolding one_winner_def by blast
      with win [OF a] have "\<not> dead_row (tw_db w) a" by blast
      moreover have "dead_row (tw_db w) a"
        using w(4) [of "tw_procs w ! j"] j wj
        by (auto simp: winner_id_def proc_ok_def split: presenter.splits)
      ultimately show False by contradiction
    qed
  qed
  moreover have "\<forall>q \<in> set ((tw_procs w)[i := p]). proc_ok hash (log_rows (tw_log w) d) d q"
  proof
    fix q assume "q \<in> set ((tw_procs w)[i := p])"
    then have "q = p \<or> q \<in> set (tw_procs w)"
      using set_update_subset_insert by fastforce
    with p w(4) proc_ok_evolves [OF ev] show "proc_ok hash (log_rows (tw_log w) d) d q" by blast
  qed
  ultimately show ?thesis
    using d logged_log_rows [OF ev w(3)] no_clash_log_rows [OF ev w(3) w(2)]
    by (simp add: world_inv_def stored_def)
qed

lemma token_step_inv:
  assumes "token_step hash sign ttl grace w w'" and inv: "world_inv hash w"
  shows "world_inv hash w'"
  using assms(1)
proof (cases rule: token_step.cases)
  case (arrive tok)
  have "one_winner (tw_procs w @ [Presenting tok])"
    using inv by (auto simp: world_inv_def one_winner_def nth_append winner_id_def split: if_splits)
  with inv show ?thesis
    by (auto simp: arrive world_inv_def proc_ok_def)
next
  case (advance i tid raw now p d)
  with advance_inv [OF inv] show ?thesis by blast
next
  case (login tid raw fam now user)
  have ti: "tokens_inv (tw_db w)" and wf: "db_wf (tw_db w)" and lg: "logged (tw_log w) (tw_db w)"
    using inv by (simp_all add: world_inv_def tokens_inv_def)
  have "\<forall>y \<in> set (db_tokens (tw_db w)). rt_familyId y \<noteq> fam"
    using ident_in_log(2) [OF lg] login(3) by blast
  from world_inv_stored [OF inv evolves_issue [OF wf login(2,3)] issue_inv [OF ti this]]
  show ?thesis by (simp add: login)
next
  case (logout now tok)
  with world_inv_stored [OF inv evolves_revoke_by_token revoke_by_token_inv] inv show ?thesis
    by (simp add: world_inv_def)
next
  case (purge now)
  with world_inv_stored [OF inv evolves_purge purge_inv] inv show ?thesis
    by (simp add: world_inv_def)
qed

lemma token_start_inv: "tokens_inv d \<Longrightarrow> world_inv hash (token_start d)"
  by (auto simp: world_inv_def token_start_def logged_def one_winner_def tokens_inv_def
      intro: wf_tokens)

lemma token_reach_inv:
  assumes "(token_step hash sign ttl grace)\<^sup>*\<^sup>* w w'" and "world_inv hash w"
  shows "world_inv hash w'"
  using assms by (induction rule: rtranclp_induct) (auto dest: token_step_inv)

section \<open>The interface of session families\<close>

locale session_families =
  fixes step :: "'s \<Rightarrow> 's \<Rightarrow> bool"
    and known :: "'s \<Rightarrow> 'f \<Rightarrow> bool"
    and alive :: "'s \<Rightarrow> 'f \<Rightarrow> bool"
  assumes known_grows: "step s s' \<Longrightarrow> known s f \<Longrightarrow> known s' f"
    and no_revival: "step s s' \<Longrightarrow> known s f \<Longrightarrow> alive s' f \<Longrightarrow> alive s f"
begin

lemma stays_dead:
  assumes "step\<^sup>*\<^sup>* s s'" and "known s f" and "\<not> alive s f"
  shows "known s' f \<and> \<not> alive s' f"
  using assms by (induction rule: rtranclp_induct) (auto dest: known_grows no_revival)

end

definition tracked_step ::
  "(string \<Rightarrow> string) \<Rightarrow> (jwt_payload \<Rightarrow> string) \<Rightarrow> time \<Rightarrow> time \<Rightarrow> token_world \<Rightarrow> token_world \<Rightarrow> bool" where
  "tracked_step hash sign ttl grace w w' \<longleftrightarrow> world_inv hash w \<and> token_step hash sign ttl grace w w'"

lemma step_evolves:
  assumes inv: "world_inv hash w" and "token_step hash sign ttl grace w w'"
  shows "tw_db w' = tw_db w \<and> tw_log w' = tw_log w
    \<or> evolves (tw_log w) (tw_db w) (tw_db w') \<and> tw_log w' = log_rows (tw_log w) (tw_db w')"
  using assms(2)
proof (cases rule: token_step.cases)
  case (advance i tid raw now p d)
  have "step_ok hash (tw_log w) (tw_db w) (tw_procs w ! i) p d"
    by (rule present_step_ok [OF _ _ _ _ advance(3,4)]) (use inv advance(2) in \<open>simp_all add: world_inv_def\<close>)
  with advance show ?thesis by (simp add: step_ok_def stored_def)
next
  case (login tid raw fam now user)
  with inv evolves_issue [OF _ login(2,3)] show ?thesis
    by (simp add: world_inv_def tokens_inv_def stored_def)
qed (simp_all add: stored_def evolves_revoke_by_token evolves_purge)

interpretation families: session_families "tracked_step hash sign ttl grace"
    "\<lambda>w. known_family (tw_log w)" "\<lambda>w f. \<not> dead_family (tw_db w) f"
  for hash sign ttl grace
proof
  fix w w' f
  assume st: "tracked_step hash sign ttl grace w w'" and kn: "known_family (tw_log w) f"
  with step_evolves [of hash w sign ttl grace w'] show "known_family (tw_log w') f"
    by (auto simp: tracked_step_def intro: known_log_rows)
  assume "\<not> dead_family (tw_db w') f"
  with st kn step_evolves [of hash w sign ttl grace w'] show "\<not> dead_family (tw_db w) f"
    by (auto simp: tracked_step_def dest: dead_family_evolves)
qed

lemma tracked_steps:
  assumes "(token_step hash sign ttl grace)\<^sup>*\<^sup>* w w'" and "world_inv hash w"
  shows "(tracked_step hash sign ttl grace)\<^sup>*\<^sup>* w w'"
  using assms
proof (induction rule: rtranclp_induct)
  case (step y z)
  with token_reach_inv [OF step(1)] have "tracked_step hash sign ttl grace y z"
    by (simp add: tracked_step_def)
  with step show ?case by simp
qed simp

section \<open>Properties\<close>

lemma find_token_eq:
  assumes "db_wf d" and "t \<in> set (db_tokens d)" and "rt_tokenHash t = h"
  shows "find_token h d = Some t"
  using find_token_row [OF assms(1,2)] assms(3) by simp

text \<open>
  C5. Rotation is single use. When a presented token is exchanged, its row was live and unexpired and
  belongs to the user returned; afterwards the new token is the only live one of the family, and
  expires one lifetime from now. Presenting the old token again, at any later time, is answered with
  the reuse exception, and leaves the family, the new token included, without a live token.
\<close>

theorem rotation_single_use:
  assumes inv: "tokens_inv d"
    and run: "rotate hash sign ttl tid raw now tok d = (d', Inr (user, toks))"
  shows "\<exists>t \<in> set (db_tokens d). rt_tokenHash t = hash tok \<and> live t \<and> now < rt_expiresAt t
           \<and> u_id user = rt_userId t
           \<and> filter (\<lambda>x. rt_familyId x = rt_familyId t \<and> live x) (db_tokens d')
               = [new_token_row tid (u_id user) (hash raw) (rt_familyId t) ttl now]
           \<and> toks = \<lparr>at_accessToken = sign_access_token sign user, at_refreshToken = raw\<rparr>
           \<and> (\<forall>tid' raw' now'. rotate hash sign ttl tid' raw' now' tok d'
                = (revoke_family now' (rt_familyId t) d', Inl reuse_detected))
           \<and> (\<forall>now'. live_count (rt_familyId t) (revoke_family now' (rt_familyId t) d') = 0)"
proof -
  have wf: "db_wf d" using inv by (simp add: tokens_inv_def)
  from run obtain t r where c: "rotate_check hash now tok d = Claim t user"
    and cl: "rotate_claim hash ttl tid raw now t user d = Inr (d', Some r)"
    and toks: "toks = \<lparr>at_accessToken = sign_access_token sign user, at_refreshToken = r\<rparr>"
    by (auto simp: rotate_def split: rotate_decision.splits sum.splits option.splits prod.splits)
  note c' = rotate_check_Claim [OF c]
  from rotate_claim_Some [OF cl wf] obtain r_raw: "r = raw"
    and d': "d' = d\<lparr>db_tokens := map (stamp now (\<lambda>y. rt_id y = rt_id t)) (db_tokens d)
            @ [new_token_row tid (u_id user) (hash raw) (rt_familyId t) ttl now]\<rparr>" and wf': "db_wf d'"
    by metis
  let ?new = "new_token_row tid (u_id user) (hash raw) (rt_familyId t) ttl now"
  have inv': "tokens_inv d'"
    using rotate_inv [OF inv, of hash sign ttl tid raw now tok] run by simp
  have new: "rt_familyId ?new = rt_familyId t" "live ?new"
    by (simp_all add: new_token_row_def live_def)
  have "count_where (\<lambda>x. rt_familyId x = rt_familyId t \<and> live x)
      (map (stamp now (\<lambda>y. rt_id y = rt_id t)) (db_tokens d)) = 0"
    using live_count_le [OF inv', of "rt_familyId t"] new by (simp add: live_count_def d')
  then have only: "filter (\<lambda>x. rt_familyId x = rt_familyId t \<and> live x) (db_tokens d') = [?new]"
    using new by (simp add: d' count_where_def filter_map)
  let ?old = "stamp now (\<lambda>y. rt_id y = rt_id t) t"
  have "find_token (hash tok) d' = Some ?old"
    by (rule find_token_eq [OF wf']) (use c' in \<open>auto simp: d'\<close>)
  moreover have "rt_revokedAt ?old \<noteq> None"
    using c' by (simp add: stamp_def live_def)
  ultimately have "rotate_check hash now' tok d' = Burn (rt_familyId t)" for now'
    by (auto simp: rotate_check_def)
  then have "rotate hash sign ttl tid' raw' now' tok d'
      = (revoke_family now' (rt_familyId t) d', Inl reuse_detected)" for tid' raw' now'
    by (simp add: rotate_def)
  then show ?thesis
    using c' only toks r_raw live_count_revoke_family by (intro bexI [of _ t]) simp_all
qed

text \<open>The sample store with one session of Bob, whose raw refresh token is \<open>r0\<close>.\<close>

definition sample_session :: db where
  "sample_session = fst (issue_for_new_session id jp_sub 1000 (sample_id 20) (sample_id 21) ''r0'' 0
     (sample_user 2 ''bob'') sample_db)"

lemma sample_session_inv: "tokens_inv sample_session"
  by code_simp

text \<open>Witness for C5: Bob exchanges \<open>r0\<close> for \<open>r1\<close>.\<close>

theorem rotation_single_use_witness:
  "\<exists>d' x. rotate id jp_sub 1000 (sample_id 22) ''r1'' 10 ''r0'' sample_session = (d', Inr x)
     \<and> snd (rotate id jp_sub 1000 (sample_id 23) ''r2'' 20 ''r0'' d') = Inl reuse_detected"
proof -
  have "\<not> isl (snd (rotate id jp_sub 1000 (sample_id 22) ''r1'' 10 ''r0'' sample_session))"
    by code_simp
  then obtain d' user toks where
    run: "rotate id jp_sub 1000 (sample_id 22) ''r1'' 10 ''r0'' sample_session = (d', Inr (user, toks))"
    by (metis prod.collapse sum.collapse(2))
  from rotation_single_use [OF sample_session_inv run] run show ?thesis
    by (intro exI [of _ d'] exI [of _ "(user, toks)"]) auto
qed

text \<open>
  C6. Concurrent refreshes with one token: however the statements of any number of refreshes, logins,
  logouts and purges interleave, two different requests that both obtain a new token have presented
  different tokens, so a stolen copy and the original never both succeed.
\<close>

theorem at_most_one_winner:
  assumes "tokens_inv d" and "(token_step hash sign ttl grace)\<^sup>*\<^sup>* (token_start d) w"
    and i: "i < length (tw_procs w)" "tw_procs w ! i = Rotated tok t r"
    and j: "j < length (tw_procs w)" "tw_procs w ! j = Rotated tok' t' r'" and ne: "i \<noteq> j"
  shows "tok \<noteq> tok'"
proof
  assume same: "tok = tok'"
  have inv: "world_inv hash w"
    by (rule token_reach_inv [OF assms(2) token_start_inv [OF assms(1)]])
  then have nc: "no_clash token_clash (tw_log w)" by (simp add: world_inv_def)
  from inv i j have ok: "proc_ok hash (tw_log w) (tw_db w) (Rotated tok t r)"
    "proc_ok hash (tw_log w) (tw_db w) (Rotated tok' t' r')"
    by (auto simp: world_inv_def) (metis nth_mem)+
  then obtain l l' where l: "l \<in> set (tw_log w)" "token_ident l = token_ident t"
    and l': "l' \<in> set (tw_log w)" "token_ident l' = token_ident t'"
    by (auto simp: proc_ok_def image_iff)
  have "rt_tokenHash l = rt_tokenHash l'"
    using ok same l(2) l'(2) by (simp add: proc_ok_def token_ident_eq)
  then have "l = l'"
    using tokens.same_row [OF nc l(1) l'(1)] by (simp add: token_clash_def)
  then have "winner_id (tw_procs w ! i) = winner_id (tw_procs w ! j)"
    using i j l(2) l'(2) by (simp add: winner_id_def token_ident_eq)
  then show False
    using inv i j ne by (auto simp: world_inv_def one_winner_def winner_id_def)
qed

text \<open>Bob and Ann, each with a session, refresh at the same time, Bob's token twice.\<close>

definition sample_race :: "token_move list" where
  "sample_race =
     [Login (sample_id 20) (sample_id 21) ''r0'' 0 (sample_user 2 ''bob''),
      Login (sample_id 22) (sample_id 23) ''s0'' 0 (sample_user 1 ''ann''),
      Arrive ''r0'', Arrive ''r0'', Arrive ''s0'',
      Advance 0 (sample_id 24) ''r1'' 10, Advance 2 (sample_id 24) ''r1'' 10,
      Advance 1 (sample_id 24) ''r1'' 10, Advance 0 (sample_id 24) ''r1'' 11,
      Advance 2 (sample_id 25) ''s1'' 12, Advance 1 (sample_id 26) ''r2'' 13,
      Advance 1 (sample_id 26) ''r2'' 14]"

definition sample_raced :: token_world where
  "sample_raced = the (token_run id jp_sub 1000 7 sample_race (token_start sample_db))"

lemma sample_db_tokens_inv: "tokens_inv sample_db"
  by code_simp

definition rotated_with :: "string \<Rightarrow> presenter \<Rightarrow> bool" where
  "rotated_with tok p \<longleftrightarrow> (case p of Rotated a _ _ \<Rightarrow> a = tok | _ \<Rightarrow> False)"

lemma rotated_withD: "rotated_with tok p \<Longrightarrow> \<exists>t r. p = Rotated tok t r"
  by (cases p) (simp_all add: rotated_with_def)

lemma sample_race_outcome:
  "case token_run id jp_sub 1000 7 sample_race (token_start sample_db) of None \<Rightarrow> False
   | Some w \<Rightarrow> length (tw_procs w) = 3 \<and> rotated_with ''r0'' (tw_procs w ! 0)
      \<and> tw_procs w ! 1 = Burnt ''r0'' (sample_id 21) \<and> rotated_with ''s0'' (tw_procs w ! 2)"
  by code_simp

lemma sample_race_run: "token_run id jp_sub 1000 7 sample_race (token_start sample_db) = Some sample_raced"
  using sample_race_outcome by (auto simp: sample_raced_def split: option.splits)

lemma sample_raced_shape:
  "length (tw_procs sample_raced) = 3"
  "rotated_with ''r0'' (tw_procs sample_raced ! 0)"
  "tw_procs sample_raced ! 1 = Burnt ''r0'' (sample_id 21)"
  "rotated_with ''s0'' (tw_procs sample_raced ! 2)"
  using sample_race_outcome by (simp_all add: sample_race_run)

lemmas sample_race_reach = token_run_sound [OF sample_race_run]

text \<open>Witness for C6: of the two requests with Bob's token one wins; Ann's wins too.\<close>

theorem at_most_one_winner_witness:
  "rotated_with ''r0'' (tw_procs sample_raced ! 0) \<and> rotated_with ''s0'' (tw_procs sample_raced ! 2)
   \<and> ''r0'' \<noteq> ''s0''"
proof -
  obtain t r t' r' where "tw_procs sample_raced ! 0 = Rotated ''r0'' t r"
    "tw_procs sample_raced ! 2 = Rotated ''s0'' t' r'"
    using sample_raced_shape rotated_withD by metis
  then have "''r0'' \<noteq> ''s0''"
    by (intro at_most_one_winner [OF sample_db_tokens_inv sample_race_reach, of 0 _ t r 2 _ t' r'])
      (simp_all add: sample_raced_shape)
  then show ?thesis by (simp add: sample_raced_shape)
qed



text \<open>
  The purge does not disturb rotation: it removes exactly the rows that expired more than the
  grace period ago and reports their number; a presented token whose row is still there is decided
  as before, so a consumed token keeps tripping the reuse detection until long after its expiry, and
  a token whose row went is refused as unknown, never accepted, and was not acceptable before.
\<close>

lemma purge_keeps_reuse_detection:
  assumes wf: "db_wf d" and g: "0 \<le> g" and later: "now \<le> now'"
  shows "rotate_check hash now' tok (fst (purge_expired g now d)) =
       (case find_token (hash tok) d of
          None \<Rightarrow> Refuse (unauthorized ''Invalid refresh token'')
        | Some t \<Rightarrow> (if rt_expiresAt t < now - g then Refuse (unauthorized ''Invalid refresh token'')
                   else rotate_check hash now' tok d))
    \<and> (\<forall>t u. rotate_check hash now' tok d = Claim t u
         \<longrightarrow> rotate_check hash now' tok (fst (purge_expired g now d)) = Claim t u)
    \<and> snd (purge_expired g now d) = count_where (\<lambda>t. rt_expiresAt t < now - g) (db_tokens d)"
proof -
  let ?p = "fst (purge_expired g now d)"
  obtain n d1 where del: "db_delete_tokens (\<lambda>t. rt_expiresAt t < now - g) d = (n, d1)" by force
  then have wf': "db_wf ?p"
    using wf by (auto simp: purge_expired_def intro: db_delete_tokens_wf)
  have users: "find_user i ?p = find_user i d" for i
    by (simp add: purge_expired_def db_delete_tokens_def find_user_def)
  have found: "find_token h ?p = (case find_token h d of None \<Rightarrow> None
      | Some t \<Rightarrow> if rt_expiresAt t < now - g then None else Some t)" for h
  proof (cases "find_token h ?p")
    case None
    then have "\<forall>t \<in> set (db_tokens d). now - g \<le> rt_expiresAt t \<longrightarrow> rt_tokenHash t \<noteq> h"
      by (auto simp: find_token_def find_None_iff purge_tokens)
    with None show ?thesis
      by (auto split: option.splits dest!: find_token_Some)
  next
    case (Some t)
    then have "t \<in> set (db_tokens d)" "rt_tokenHash t = h" "now - g \<le> rt_expiresAt t"
      using find_token_Some [OF Some] by (auto simp: purge_tokens)
    with find_token_eq [OF wf] Some show ?thesis by simp
  qed
  have eq: "rotate_check hash now' tok ?p = (case find_token (hash tok) d of
          None \<Rightarrow> Refuse (unauthorized ''Invalid refresh token'')
        | Some t \<Rightarrow> (if rt_expiresAt t < now - g then Refuse (unauthorized ''Invalid refresh token'')
                   else rotate_check hash now' tok d))"
    by (auto simp: rotate_check_def found users split: option.splits)
  moreover have "rotate_check hash now' tok ?p = Claim t u" if "rotate_check hash now' tok d = Claim t u" for t u
  proof -
    note c = rotate_check_Claim [OF that]
    with find_token_eq [OF wf] have "find_token (hash tok) d = Some t" by blast
    with c g later that show ?thesis by (simp add: eq)
  qed
  moreover have "snd (purge_expired g now d) = count_where (\<lambda>t. rt_expiresAt t < now - g) (db_tokens d)"
    by (simp add: purge_expired_def db_delete_tokens_def)
  ultimately show ?thesis by blast
qed

text \<open>Example: a purge that finds nothing to delete in Bob's session store.\<close>

lemma purge_keeps_reuse_detection_example:
  "snd (purge_expired REFRESH_TOKEN_PURGE_GRACE_MS 5000 sample_session) = 0
   \<and> rotate_check id 5000 ''r0'' (fst (purge_expired REFRESH_TOKEN_PURGE_GRACE_MS 5000 sample_session))
     = Refuse (unauthorized ''Refresh token expired'')"
proof -
  have wf: "db_wf sample_session" using sample_session_inv by (simp add: tokens_inv_def)
  have now: "case find_token (id ''r0'') sample_session of
      Some t \<Rightarrow> \<not> rt_expiresAt t < 5000 - REFRESH_TOKEN_PURGE_GRACE_MS | None \<Rightarrow> False"
    "count_where (\<lambda>t. rt_expiresAt t < 5000 - REFRESH_TOKEN_PURGE_GRACE_MS) (db_tokens sample_session) = 0"
    "rotate_check id 5000 ''r0'' sample_session = Refuse (unauthorized ''Refresh token expired'')"
    by code_simp+
  have "0 \<le> REFRESH_TOKEN_PURGE_GRACE_MS" by (simp add: REFRESH_TOKEN_PURGE_GRACE_MS_def)
  from purge_keeps_reuse_detection [OF wf this order_refl, of id 5000 "''r0''"] now show ?thesis
    by (auto split: option.splits)
qed

end
