(* ===== verification/Config.thy ===== *)
theory Config
  imports Queues Tokens
begin

text \<open>
  The startup contract (backend/src/config/env.validation.ts) and the Redis options derived from it
  (redis.config.ts), and the boot of the API process (main.ts, chat/redis-io.adapter.ts). A setting is a row of the table \<open>env_fields\<close>: its name, whether it is converted by
  \<open>Number\<close>, its default, its rules. A failed validation carries the names of the bad settings, all of
  them; the wording of the messages is left out.

  The lemmas show what a process that boots can rely on, and that the worker decorators, which read
  the environment themselves, read the values that were validated.
\<close>

section \<open>Settings\<close>

datatype env_value = EMissing | EText string | ENum "int option"

datatype env_default = Required | Optional | DefaultText string | DefaultNum int

datatype env_rule = IsEnum "string list" | IsInt | IsString | IsNotEmpty | AtLeast int | AtMost int | MinLength nat

record env_field =
  ef_name :: string
  ef_number :: bool
  ef_default :: env_default
  ef_rules :: "env_rule list"

definition text_field :: "string \<Rightarrow> env_default \<Rightarrow> env_rule list \<Rightarrow> env_field" where
  "text_field name dflt rules = \<lparr>ef_name = name, ef_number = False, ef_default = dflt, ef_rules = rules\<rparr>"

definition int_field :: "string \<Rightarrow> int \<Rightarrow> env_rule list \<Rightarrow> env_field" where
  "int_field name dflt rules =
     \<lparr>ef_name = name, ef_number = True, ef_default = DefaultNum dflt, ef_rules = IsInt # rules\<rparr>"

definition node_env :: "string list" where
  "node_env = [''development'', ''production'', ''test'']"

definition runtime_settings :: "env_field list" where
  "runtime_settings =
     [text_field ''NODE_ENV'' (DefaultText ''development'') [IsEnum node_env],
      int_field ''PORT'' 3000 [AtLeast 1, AtMost 65535]]"

definition database_settings :: "env_field list" where
  "database_settings = [text_field ''DATABASE_URL'' Required [IsString, IsNotEmpty]]"

definition jwt_settings :: "env_field list" where
  "jwt_settings =
     [text_field ''JWT_ACCESS_SECRET'' Required [IsString, IsNotEmpty, MinLength 32],
      text_field ''JWT_REFRESH_SECRET'' Required [IsString, IsNotEmpty, MinLength 32],
      text_field ''JWT_ACCESS_EXPIRES_IN'' (DefaultText ''15m'') [IsString, IsNotEmpty],
      text_field ''JWT_REFRESH_EXPIRES_IN'' (DefaultText ''7d'') [IsString, IsNotEmpty],
      text_field ''GOOGLE_CLIENT_ID'' Required [IsString, IsNotEmpty]]"

definition redis_settings :: "env_field list" where
  "redis_settings =
     [text_field ''REDIS_HOST'' (DefaultText ''localhost'') [IsString, IsNotEmpty],
      int_field ''REDIS_PORT'' 6379 [AtLeast 1, AtMost 65535],
      text_field ''REDIS_PASSWORD'' Optional [IsString],
      text_field ''SOCKET_CORS_ORIGIN'' (DefaultText ''http://localhost:3001'') [IsString, IsNotEmpty]]"

definition AI_RATE_LIMIT_max :: "string \<times> int" where
  "AI_RATE_LIMIT_max = (''AI_RATE_LIMIT_MAX'', 10)"

definition AI_RATE_LIMIT_duration :: "string \<times> int" where
  "AI_RATE_LIMIT_duration = (''AI_RATE_LIMIT_DURATION_MS'', 60000)"

definition ai_settings :: "env_field list" where
  "ai_settings =
     [text_field ''GOOGLE_GENERATIVE_AI_API_KEY'' Required [IsString, IsNotEmpty],
      text_field ''GEMINI_MODEL'' (DefaultText ''gemini-3.5-flash'') [IsString, IsNotEmpty],
      int_field ''AI_RATE_LIMIT_MAX'' (snd AI_RATE_LIMIT_max) [AtLeast 1],
      int_field ''AI_RATE_LIMIT_DURATION_MS'' (snd AI_RATE_LIMIT_duration) [AtLeast 1000]]"

definition schedule_settings :: "env_field list" where
  "schedule_settings =
     [int_field ''SUMMARY_INTERVAL_MS'' 86400000 [AtLeast 1000],
      int_field ''SUMMARY_WINDOW_MS'' 86400000 [AtLeast 1000],
      int_field ''TOKEN_PURGE_INTERVAL_MS'' 86400000 [AtLeast 1000],
      int_field ''REFRESH_TOKEN_PURGE_GRACE_MS'' REFRESH_TOKEN_PURGE_GRACE_MS [AtLeast 0]]"

definition worker_settings :: "env_field list" where
  "worker_settings =
     [int_field ''SCHEDULER_WORKER_CONCURRENCY'' (snd (WORKER_CONCURRENCY SCHEDULER)) [AtLeast 1],
      int_field ''AI_WORKER_CONCURRENCY'' (snd (WORKER_CONCURRENCY AI)) [AtLeast 1],
      int_field ''SUMMARY_WORKER_CONCURRENCY'' (snd (WORKER_CONCURRENCY SUMMARY)) [AtLeast 1],
      int_field ''NOTIFICATION_WORKER_CONCURRENCY'' (snd (WORKER_CONCURRENCY NOTIFICATION)) [AtLeast 1]]"

definition storage_settings :: "env_field list" where
  "storage_settings =
     [text_field ''SUPABASE_URL'' Optional [IsString],
      text_field ''SUPABASE_SERVICE_KEY'' Optional [IsString],
      text_field ''SUPABASE_BUCKET'' (DefaultText ''chat-uploads'') [IsString]]"

definition env_fields :: "env_field list" where
  "env_fields = runtime_settings @ database_settings @ jwt_settings @ redis_settings @ ai_settings
     @ schedule_settings @ worker_settings @ storage_settings"

section \<open>validateEnv\<close>

fun default_value :: "env_default \<Rightarrow> env_value" where
  "default_value (DefaultText s) = EText s"
| "default_value (DefaultNum n) = ENum (Some n)"
| "default_value Required = EMissing"
| "default_value Optional = EMissing"

definition read_field :: "(string \<Rightarrow> int option) \<Rightarrow> environment \<Rightarrow> env_field \<Rightarrow> env_value" where
  "read_field to_int env f = (case env (ef_name f) of
     None \<Rightarrow> default_value (ef_default f)
   | Some raw \<Rightarrow> (if ef_number f then ENum (to_int raw) else EText raw))"

fun rule_ok :: "env_value \<Rightarrow> env_rule \<Rightarrow> bool" where
  "rule_ok (EText s) (IsEnum vs) \<longleftrightarrow> s \<in> set vs"
| "rule_ok (EText s) IsString \<longleftrightarrow> True"
| "rule_ok (EText s) IsNotEmpty \<longleftrightarrow> s \<noteq> []"
| "rule_ok (EText s) (MinLength n) \<longleftrightarrow> n \<le> length s"
| "rule_ok (ENum (Some n)) IsInt \<longleftrightarrow> True"
| "rule_ok (ENum (Some n)) (AtLeast k) \<longleftrightarrow> k \<le> n"
| "rule_ok (ENum (Some n)) (AtMost k) \<longleftrightarrow> n \<le> k"
| "rule_ok _ _ \<longleftrightarrow> False"

definition field_ok :: "env_field \<Rightarrow> env_value \<Rightarrow> bool" where
  "field_ok f v \<longleftrightarrow> (v = EMissing \<and> ef_default f = Optional) \<or> list_all (rule_ok v) (ef_rules f)"

definition validate_env ::
  "(string \<Rightarrow> int option) \<Rightarrow> environment \<Rightarrow> string list + (string \<Rightarrow> env_value)" where
  "validate_env to_int env =
     (let bad = filter (\<lambda>f. \<not> field_ok f (read_field to_int env f)) env_fields
      in if bad \<noteq> [] then Inl (map ef_name bad)
         else Inr (\<lambda>name. case List.find (\<lambda>f. ef_name f = name) env_fields of
             Some f \<Rightarrow> read_field to_int env f
           | None \<Rightarrow> (case env name of None \<Rightarrow> EMissing | Some raw \<Rightarrow> EText raw)))"

section \<open>Redis options\<close>

record redis_options =
  ro_host :: string
  ro_port :: int
  ro_password :: "string option"

definition get_or_throw_text :: "(string \<Rightarrow> env_value) \<Rightarrow> string \<Rightarrow> exn + string" where
  "get_or_throw_text cfg key = (case cfg key of
     EText s \<Rightarrow> Inr s | _ \<Rightarrow> Inl (OtherExn (''Configuration key \"'' @ key @ ''\" does not exist'')))"

definition get_or_throw_int :: "(string \<Rightarrow> env_value) \<Rightarrow> string \<Rightarrow> exn + int" where
  "get_or_throw_int cfg key = (case cfg key of
     ENum (Some n) \<Rightarrow> Inr n | _ \<Rightarrow> Inl (OtherExn (''Configuration key \"'' @ key @ ''\" does not exist'')))"

definition redis_connection_options :: "(string \<Rightarrow> env_value) \<Rightarrow> exn + redis_options" where
  "redis_connection_options cfg = (case get_or_throw_text cfg ''REDIS_HOST'' of
     Inl e \<Rightarrow> Inl e
   | Inr host \<Rightarrow> (case get_or_throw_int cfg ''REDIS_PORT'' of
       Inl e \<Rightarrow> Inl e
     | Inr port \<Rightarrow> Inr \<lparr>ro_host = host, ro_port = port,
         ro_password = (case cfg ''REDIS_PASSWORD'' of EText p \<Rightarrow> (if p \<noteq> [] then Some p else None) | _ \<Rightarrow> None)\<rparr>))"

section \<open>The boot of the API process\<close>

text \<open>
  The Redis-backed adapter of Socket.IO (chat/redis-io.adapter.ts): the options of its pair of clients, once
  \<open>connectToRedis\<close> has run, and the origin of CORS; the server it creates has that origin, and the adapter if there
  is one. The clients connect lazily, so that no failure of Redis shows here.
\<close>

record io_adapter =
  ia_redis :: "redis_options option"
  ia_corsOrigin :: "string option"

definition fresh_adapter :: io_adapter where
  "fresh_adapter = \<lparr>ia_redis = None, ia_corsOrigin = None\<rparr>"

definition connect_to_redis :: "(string \<Rightarrow> env_value) \<Rightarrow> io_adapter \<Rightarrow> exn + io_adapter" where
  "connect_to_redis cfg a = (case get_or_throw_text cfg ''REDIS_HOST'' of
     Inl e \<Rightarrow> Inl e
   | Inr host \<Rightarrow> (case get_or_throw_int cfg ''REDIS_PORT'' of
       Inl e \<Rightarrow> Inl e
     | Inr port \<Rightarrow> (let opts = \<lparr>ro_host = host, ro_port = port,
           ro_password = (case cfg ''REDIS_PASSWORD'' of EText p \<Rightarrow> (if p \<noteq> [] then Some p else None) | _ \<Rightarrow> None)\<rparr>
         in case get_or_throw_text cfg ''SOCKET_CORS_ORIGIN'' of
             Inl e \<Rightarrow> Inl e
           | Inr origin \<Rightarrow> Inr (a\<lparr>ia_redis := Some opts, ia_corsOrigin := Some origin\<rparr>))))"

record io_server =
  is_corsOrigin :: "string option"
  is_adapter :: "redis_options option"

definition create_io_server :: "io_adapter \<Rightarrow> io_server" where
  "create_io_server a = \<lparr>is_corsOrigin = ia_corsOrigin a, is_adapter = ia_redis a\<rparr>"

text \<open>\<open>main.ts\<close>: what it does in order; a missing setting rejects, and nothing is listened to.\<close>

datatype boot_step = ServeUploads string "(string \<times> string) list" | EnableShutdownHooks | UseWebSocketAdapter io_adapter
  | Listen int

definition upload_headers :: "(string \<times> string) list" where
  "upload_headers = [(''X-Content-Type-Options'', ''nosniff''), (''Content-Security-Policy'', ''default-src 'none'; sandbox'')]"

definition bootstrap :: "(string \<Rightarrow> env_value) \<Rightarrow> boot_step list \<times> exn option" where
  "bootstrap cfg = (let before = [ServeUploads ''/uploads/'' upload_headers, EnableShutdownHooks] in
     case connect_to_redis cfg fresh_adapter of
       Inl e \<Rightarrow> (before, Some e)
     | Inr a \<Rightarrow> (case get_or_throw_int cfg ''PORT'' of
         Inl e \<Rightarrow> (before @ [UseWebSocketAdapter a], Some e)
       | Inr port \<Rightarrow> (before @ [UseWebSocketAdapter a, Listen port], None)))"

text \<open>The options that the adapter builds for itself are those that the queues and the workers' emitter use.\<close>

lemma adapter_shares_redis:
  "connect_to_redis cfg a = Inr a' \<Longrightarrow> redis_connection_options cfg = Inr r \<Longrightarrow> is_adapter (create_io_server a') = Some r"
  by (auto simp: connect_to_redis_def redis_connection_options_def create_io_server_def Let_def split: sum.splits)

section \<open>Properties\<close>

lemma distinct_settings: "distinct (map ef_name env_fields)"
  by code_simp

lemma validate_env_field:
  assumes "validate_env to_int env = Inr cfg" and f: "f \<in> set env_fields"
  shows "cfg (ef_name f) = read_field to_int env f" and "field_ok f (read_field to_int env f)"
proof -
  have found: "List.find (\<lambda>f'. ef_name f' = ef_name f) env_fields = Some f"
  proof -
    have "List.find (\<lambda>f'. ef_name f' = ef_name f) fs = Some f" if "distinct (map ef_name fs)" "f \<in> set fs" for fs
      using that by (induction fs) auto
    with distinct_settings f show ?thesis by blast
  qed
  from assms(1) have "filter (\<lambda>f. \<not> field_ok f (read_field to_int env f)) env_fields = []"
    and "cfg = (\<lambda>name. case List.find (\<lambda>f. ef_name f = name) env_fields of
             Some f \<Rightarrow> read_field to_int env f
           | None \<Rightarrow> (case env name of None \<Rightarrow> EMissing | Some raw \<Rightarrow> EText raw))"
    by (auto simp: validate_env_def Let_def split: if_splits)
  with f found show "cfg (ef_name f) = read_field to_int env f" "field_ok f (read_field to_int env f)"
    by (auto simp: filter_empty_conv)
qed

lemma is_int_ok: "rule_ok v IsInt \<longleftrightarrow> (\<exists>n. v = ENum (Some n))"
  by (cases "(v, IsInt)" rule: rule_ok.cases) auto

lemma missing_bad: "rule_ok EMissing r = False"
  by (cases r) auto

lemma int_field_valid:
  assumes run: "validate_env to_int env = Inr cfg" and f: "int_field name dflt rules \<in> set env_fields"
  shows "\<exists>n. cfg name = ENum (Some n) \<and> list_all (rule_ok (ENum (Some n))) rules
    \<and> (case env name of None \<Rightarrow> n = dflt | Some raw \<Rightarrow> to_int raw = Some n)"
proof -
  have cfg: "cfg name = read_field to_int env (int_field name dflt rules)"
    and ok: "field_ok (int_field name dflt rules) (cfg name)"
    using validate_env_field [OF run f] by (simp_all add: int_field_def)
  then have r: "rule_ok (cfg name) IsInt" "list_all (rule_ok (cfg name)) rules"
    by (simp_all add: field_ok_def int_field_def)
  then obtain n where n: "cfg name = ENum (Some n)" unfolding is_int_ok by blast
  with cfg have "case env name of None \<Rightarrow> n = dflt | Some raw \<Rightarrow> to_int raw = Some n"
    by (simp add: read_field_def int_field_def split: option.splits)
  with n r(2) show ?thesis by auto
qed

lemma text_field_valid:
  assumes run: "validate_env to_int env = Inr cfg" and f: "text_field name dflt (r # rules) \<in> set env_fields"
    and d: "dflt = Required \<or> dflt = DefaultText s0"
  shows "\<exists>s. cfg name = EText s \<and> list_all (rule_ok (EText s)) (r # rules)"
proof -
  have cfg: "cfg name = read_field to_int env (text_field name dflt (r # rules))"
    and ok: "field_ok (text_field name dflt (r # rules)) (cfg name)"
    using validate_env_field [OF run f] by (simp_all add: text_field_def)
  have "cfg name \<noteq> EMissing" using ok d by (auto simp: field_ok_def text_field_def missing_bad)
  with cfg d obtain s where "cfg name = EText s"
    by (auto simp: read_field_def text_field_def split: option.splits)
  with ok d show ?thesis by (auto simp: field_ok_def text_field_def)
qed

lemma in_settings:
  "int_field ''PORT'' 3000 [AtLeast 1, AtMost 65535] \<in> set env_fields"
  "int_field ''REDIS_PORT'' 6379 [AtLeast 1, AtMost 65535] \<in> set env_fields"
  "int_field ''SUMMARY_WINDOW_MS'' 86400000 [AtLeast 1000] \<in> set env_fields"
  "int_field ''SUMMARY_INTERVAL_MS'' 86400000 [AtLeast 1000] \<in> set env_fields"
  "int_field ''REFRESH_TOKEN_PURGE_GRACE_MS'' REFRESH_TOKEN_PURGE_GRACE_MS [AtLeast 0] \<in> set env_fields"
  "int_field (fst AI_RATE_LIMIT_max) (snd AI_RATE_LIMIT_max) [AtLeast 1] \<in> set env_fields"
  "int_field (fst AI_RATE_LIMIT_duration) (snd AI_RATE_LIMIT_duration) [AtLeast 1000] \<in> set env_fields"
  "int_field (fst (WORKER_CONCURRENCY w)) (snd (WORKER_CONCURRENCY w)) [AtLeast 1] \<in> set env_fields"
  "text_field ''JWT_ACCESS_SECRET'' Required [IsString, IsNotEmpty, MinLength 32] \<in> set env_fields"
  "text_field ''DATABASE_URL'' Required [IsString, IsNotEmpty] \<in> set env_fields"
  "text_field ''REDIS_HOST'' (DefaultText ''localhost'') [IsString, IsNotEmpty] \<in> set env_fields"
  "text_field ''SOCKET_CORS_ORIGIN'' (DefaultText ''http://localhost:3001'') [IsString, IsNotEmpty] \<in> set env_fields"
  by (cases w; simp add: env_fields_def runtime_settings_def database_settings_def jwt_settings_def
      redis_settings_def ai_settings_def schedule_settings_def worker_settings_def
      AI_RATE_LIMIT_max_def AI_RATE_LIMIT_duration_def)+

lemma rule_num_simps [simp]:
  "rule_ok (ENum (Some n)) (AtLeast k) = (k \<le> n)" "rule_ok (ENum (Some n)) (AtMost k) = (n \<le> k)"
  by simp_all


text \<open>The smallest environment that boots, and what \<open>Number\<close> makes of it.\<close>

definition sample_environment :: environment where
  "sample_environment = map_of [(''DATABASE_URL'', ''postgres://db''),
     (''JWT_ACCESS_SECRET'', ''0123456789abcdef0123456789abcdef''),
     (''JWT_REFRESH_SECRET'', ''0123456789abcdef0123456789abcdef''),
     (''GOOGLE_CLIENT_ID'', ''id''), (''GOOGLE_GENERATIVE_AI_API_KEY'', ''key''), (''AI_WORKER_CONCURRENCY'', ''4'')]"

definition sample_to_int :: "string \<Rightarrow> int option" where
  "sample_to_int s = (if list_all is_digit s then Some (int (undec s)) else None)"

lemma sample_environment_boots: "\<not> isl (validate_env sample_to_int sample_environment)"
  by code_simp


text \<open>
  The decorators and the schema agree. A worker's concurrency and the rate limit of the AI queue are
  read from the environment when the module is loaded, by a reader that falls back to a default on
  anything it cannot parse; once the configuration has been validated, what was read is what was
  validated, for every worker and both limits.
\<close>

lemma decorators_read_validated_values:
  assumes run: "validate_env to_int env = Inr cfg"
  shows "cfg (fst (WORKER_CONCURRENCY w)) = ENum (Some (concurrency_for to_int env w))
    \<and> cfg (fst AI_RATE_LIMIT_max)
        = ENum (Some (int_from_env to_int env (fst AI_RATE_LIMIT_max) (snd AI_RATE_LIMIT_max)))
    \<and> cfg (fst AI_RATE_LIMIT_duration)
        = ENum (Some (int_from_env to_int env (fst AI_RATE_LIMIT_duration) (snd AI_RATE_LIMIT_duration)))"
proof -
  have agree: "cfg key = ENum (Some (int_from_env to_int env key dflt))"
    if "int_field key dflt [AtLeast k] \<in> set env_fields" "1 \<le> k" for key dflt k
    using int_field_valid [OF run that(1)] that(2) by (auto simp: int_from_env_def split: option.splits)
  show ?thesis
    using agree [OF in_settings(6)] agree [OF in_settings(7)] agree [OF in_settings(8), of w]
    by (simp add: concurrency_for_def split: prod.splits)
qed

text \<open>Example: the AI worker with a concurrency of 4.\<close>

lemma decorators_read_validated_values_example:
  "\<exists>cfg. validate_env sample_to_int sample_environment = Inr cfg
     \<and> cfg ''AI_WORKER_CONCURRENCY'' = ENum (Some 4) \<and> cfg ''SUMMARY_WORKER_CONCURRENCY'' = ENum (Some 5)"
proof -
  obtain cfg where cfg: "validate_env sample_to_int sample_environment = Inr cfg"
    using sample_environment_boots by (cases "validate_env sample_to_int sample_environment") auto
  have "concurrency_for sample_to_int sample_environment AI = 4"
    "concurrency_for sample_to_int sample_environment SUMMARY = 5"
    by code_simp+
  with cfg decorators_read_validated_values [OF cfg, of AI] decorators_read_validated_values [OF cfg, of SUMMARY]
  show ?thesis by simp
qed

end
