(* ===== verification/Storage.thy ===== *)
theory Storage
  imports HttpErrors
begin

text \<open>
  Attachment storage (backend/src/storage/storage.service.ts): how a file name is sanitised, how the
  stored extension is derived, and the two backends, Supabase over HTTP and the local disk. The
  answer of the backend to a request is an argument. The lemmas show that the stored path cannot
  leave the group's directory, whatever the uploader calls the file.
\<close>

section \<open>File names\<close>

record uploaded_file =
  uf_originalname :: string
  uf_mimetype :: string
  uf_size :: nat
  uf_buffer :: string

record stored_file =
  sf_url :: string
  sf_name :: string
  sf_mime :: string
  sf_size :: nat

text \<open>\<open>replace(/\\.[^.]*$/, '')\<close>: the text before the last dot, or all of it.\<close>

definition drop_extension :: "string \<Rightarrow> string" where
  "drop_extension s = (if CHR ''.'' \<in> set s
     then rev (tl (dropWhile (\<lambda>c. c \<noteq> CHR ''.'') (rev s))) else s)"

definition word_char :: "char \<Rightarrow> bool" where
  "word_char c \<longleftrightarrow> is_digit c \<or> (65 \<le> cp c \<and> cp c \<le> 90) \<or> (97 \<le> cp c \<and> cp c \<le> 122) \<or> c = CHR ''_''"

definition name_char :: "char \<Rightarrow> bool" where
  "name_char c \<longleftrightarrow> word_char c \<or> c = CHR ''-''"

text \<open>\<open>replace(/[^\\w-]+/g, '_')\<close>: every run of other characters becomes one underscore.\<close>

fun squash :: "bool \<Rightarrow> string \<Rightarrow> string" where
  "squash in_run [] = []"
| "squash in_run (c # s) =
     (if name_char c then c # squash False s
      else if in_run then squash True s else CHR ''_'' # squash True s)"

text \<open>\<open>slice(-80)\<close>.\<close>

definition last_chars :: "nat \<Rightarrow> string \<Rightarrow> string" where
  "last_chars n s = drop (length s - n) s"

definition safe_stem :: "string \<Rightarrow> string" where
  "safe_stem name =
     (let s = last_chars 80 (squash False (drop_extension name)) in if s = [] then ''file'' else s)"

text \<open>
  The table of extensions. It is an object literal, so a look-up also finds the two members of
  \<open>Object.prototype\<close> whose names are in lower case; interpolated, they read as below.
\<close>

definition EXTENSION_FOR_MIME :: "string \<Rightarrow> string option" where
  "EXTENSION_FOR_MIME m = map_of
     [(''image/png'', ''png''), (''image/jpeg'', ''jpg''), (''image/jpg'', ''jpg''),
      (''image/gif'', ''gif''), (''image/webp'', ''webp''), (''application/pdf'', ''pdf''),
      (''constructor'', ''function Object() { [native code] }''), (''__proto__'', ''[object Object]'')] m"

definition FALLBACK_EXTENSION :: string where
  "FALLBACK_EXTENSION = ''bin''"

definition stored_extension :: "string \<Rightarrow> string" where
  "stored_extension mime =
     (case EXTENSION_FOR_MIME (to_lower mime) of Some e \<Rightarrow> e | None \<Rightarrow> FALLBACK_EXTENSION)"

definition object_path :: "uuid \<Rightarrow> uuid \<Rightarrow> uploaded_file \<Rightarrow> string" where
  "object_path groupId draw file =
     groupId @ ''/'' @ draw @ ''-'' @ safe_stem (uf_originalname file) @ ''.''
       @ stored_extension (uf_mimetype file)"

section \<open>The two backends\<close>

datatype storage_request =
    SupabasePost string string string
  | LocalWrite string string

datatype storage_answer = Done | Rejected | Threw string

record storage_env =
  st_url :: "string option"
  st_key :: "string option"
  st_bucket :: string
  st_answer :: "storage_request \<Rightarrow> storage_answer"

definition nonempty :: "string option \<Rightarrow> bool" where
  "nonempty s \<longleftrightarrow> s \<noteq> None \<and> s \<noteq> Some []"

definition configured :: "storage_env \<Rightarrow> bool" where
  "configured env \<longleftrightarrow> nonempty (st_url env) \<and> nonempty (st_key env)"

definition strip_slash :: "string \<Rightarrow> string" where
  "strip_slash s = (if s \<noteq> [] \<and> last s = CHR ''/'' then butlast s else s)"

text \<open>\<open>encodeURI\<close> on Latin-1: the reserved and unreserved characters stay, others become UTF-8 escapes.\<close>

definition uri_char :: "char \<Rightarrow> bool" where
  "uri_char c \<longleftrightarrow> word_char c \<or> c \<in> set '';,/?:@&=+$-.!~*()#'' \<or> c = CHR 0x27"

definition upper_hex :: "nat \<Rightarrow> char" where
  "upper_hex n = (if n < 10 then char_of (48 + n) else char_of (55 + n))"

definition percent :: "nat \<Rightarrow> string" where
  "percent b = CHR ''%'' # [upper_hex (b div 16), upper_hex (b mod 16)]"

definition encode_uri_char :: "char \<Rightarrow> string" where
  "encode_uri_char c =
     (if uri_char c then [c]
      else if cp c < 128 then percent (cp c)
      else percent (192 + cp c div 64) @ percent (128 + cp c mod 64))"

definition encode_uri :: "string \<Rightarrow> string" where
  "encode_uri s = concat (map encode_uri_char s)"

definition upload_to_supabase ::
  "storage_env \<Rightarrow> string \<Rightarrow> uploaded_file \<Rightarrow> storage_request list \<times> (exn + stored_file)" where
  "upload_to_supabase env path file =
     (let root = strip_slash (the (st_url env));
          req = SupabasePost (root @ ''/storage/v1/object/'' @ st_bucket env @ ''/'' @ encode_uri path)
                  (if uf_mimetype file \<noteq> [] then uf_mimetype file else ''application/octet-stream'')
                  (uf_buffer file)
      in ([req], case st_answer env req of
           Threw msg \<Rightarrow> Inl (OtherExn msg)
         | Rejected \<Rightarrow> Inl (service_unavailable ''Upload failed'')
         | Done \<Rightarrow> Inr \<lparr>sf_url = root @ ''/storage/v1/object/public/'' @ st_bucket env @ ''/'' @ encode_uri path,
                        sf_name = uf_originalname file, sf_mime = uf_mimetype file, sf_size = uf_size file\<rparr>))"

text \<open>The path written is relative to the uploads directory.\<close>

definition upload_to_local ::
  "storage_env \<Rightarrow> string \<Rightarrow> uploaded_file \<Rightarrow> storage_request list \<times> (exn + stored_file)" where
  "upload_to_local env path file =
     (let req = LocalWrite path (uf_buffer file)
      in ([req], case st_answer env req of
           Done \<Rightarrow> Inr \<lparr>sf_url = ''/api/uploads/'' @ path, sf_name = uf_originalname file,
                        sf_mime = uf_mimetype file, sf_size = uf_size file\<rparr>
         | Rejected \<Rightarrow> Inl (OtherExn ''write failed'')
         | Threw msg \<Rightarrow> Inl (OtherExn msg)))"

definition storage_upload ::
  "storage_env \<Rightarrow> uuid \<Rightarrow> uuid \<Rightarrow> uploaded_file \<Rightarrow> storage_request list \<times> (exn + stored_file)" where
  "storage_upload env draw groupId file =
     (if configured env then upload_to_supabase env (object_path groupId draw file) file
      else upload_to_local env (object_path groupId draw file) file)"

section \<open>What can be stored\<close>

lemma squash_chars: "c \<in> set (squash b s) \<Longrightarrow> name_char c"
  by (induction b s rule: squash.induct) (auto simp: name_char_def word_char_def split: if_splits)

lemma safe_stem_ok:
  "safe_stem n \<noteq> [] \<and> length (safe_stem n) \<le> 80 \<and> list_all name_char (safe_stem n)"
proof -
  let ?s = "last_chars 80 (squash False (drop_extension n))"
  have "length ?s \<le> 80" by (simp add: last_chars_def)
  moreover have "list_all name_char ?s"
    using squash_chars by (auto simp: last_chars_def list_all_iff dest: in_set_dropD)
  moreover have "list_all name_char ''file''" by code_simp
  ultimately show ?thesis by (auto simp: safe_stem_def Let_def)
qed

definition inert_extensions :: "string list" where
  "inert_extensions = [''png'', ''jpg'', ''gif'', ''webp'', ''pdf'', ''bin'']"

lemma stored_extension_inert:
  assumes "to_lower m \<notin> {''constructor'', ''__proto__''}"
  shows "stored_extension m \<in> set inert_extensions"
  using assms
  by (simp add: stored_extension_def EXTENSION_FOR_MIME_def inert_extensions_def FALLBACK_EXTENSION_def)

lemma name_char_uri: "name_char c \<Longrightarrow> uri_char c"
  by (auto simp: name_char_def uri_char_def)

lemma encode_uri_id: "list_all uri_char s \<Longrightarrow> encode_uri s = s"
  by (induction s) (simp_all add: encode_uri_def encode_uri_char_def)

lemma uuid_name_chars:
  assumes "uuid_re i"
  shows "list_all name_char i"
proof -
  have "name_char c" if "is_hex c" for c
    using that by (auto simp: is_hex_def name_char_def word_char_def)
  moreover have "name_char CHR ''-''" by (simp add: name_char_def)
  ultimately show ?thesis
    unfolding list_all_iff using uuid_re_chars [OF assms] by blast
qed

lemma inert_extension_chars: "e \<in> set inert_extensions \<Longrightarrow> list_all name_char e"
proof -
  have "list_all (list_all name_char) inert_extensions" by code_simp
  then show "e \<in> set inert_extensions \<Longrightarrow> list_all name_char e" by (simp add: list_all_iff)
qed

text \<open>
  C38. A stored object stays in its group's directory under a name the server chose: the path is the
  group id, one slash, the drawn id, a stem of 1 to 80 letters, digits, underscores and dashes, one
  dot, and an extension of the allow-list or \<open>bin\<close>; no second dot or slash comes from the file
  name, and the URL needs no escaping. This holds for every file name; the declared MIME type must not
  be the name of an inherited property of the extension table.
\<close>

theorem stored_path_is_contained:
  assumes "uuid_re g" and "uuid_re r" and "to_lower (uf_mimetype f) \<notin> {''constructor'', ''__proto__''}"
  shows "\<exists>stem ext. object_path g r f = g @ ''/'' @ r @ ''-'' @ stem @ ''.'' @ ext
     \<and> stem \<noteq> [] \<and> length stem \<le> 80 \<and> list_all name_char stem \<and> ext \<in> set inert_extensions
     \<and> filter (\<lambda>c. c = CHR ''.'' \<or> c = CHR ''/'') (object_path g r f) = ''/.''
     \<and> encode_uri (object_path g r f) = object_path g r f"
proof -
  let ?stem = "safe_stem (uf_originalname f)" and ?ext = "stored_extension (uf_mimetype f)"
  have ext: "?ext \<in> set inert_extensions" by (rule stored_extension_inert [OF assms(3)])
  have names: "list_all name_char g" "list_all name_char r" "list_all name_char ?stem" "list_all name_char ?ext"
    using assms(1,2) safe_stem_ok ext by (simp_all add: uuid_name_chars inert_extension_chars)
  have none: "filter (\<lambda>c. c = CHR ''.'' \<or> c = CHR ''/'') s = []" if "list_all name_char s" for s
  proof -
    have "\<not> name_char CHR ''.''" "\<not> name_char CHR ''/''" by code_simp+
    with that show ?thesis by (auto simp: filter_empty_conv list_all_iff)
  qed
  have uri: "list_all uri_char g" "list_all uri_char r" "list_all uri_char ?stem" "list_all uri_char ?ext"
    using names by (auto elim!: list.pred_mono_strong intro: name_char_uri)
  have punct: "uri_char CHR ''/''" "uri_char CHR ''-''" "uri_char CHR ''.''" by code_simp+
  have "list_all uri_char (object_path g r f)"
    using uri punct by (simp add: object_path_def)
  then have "encode_uri (object_path g r f) = object_path g r f" by (rule encode_uri_id)
  moreover have "filter (\<lambda>c. c = CHR ''.'' \<or> c = CHR ''/'') (object_path g r f) = ''/.''"
    using names by (simp add: object_path_def none)
  ultimately show ?thesis
    using safe_stem_ok ext by (intro exI [of _ ?stem] exI [of _ ?ext]) (simp add: object_path_def)
qed

text \<open>Witness for C38: a PNG that calls itself a path to a web page.\<close>

theorem stored_path_is_contained_witness:
  "\<exists>stem ext. object_path ''00000000-0000-7000-8000-000000000004'' ''00000000-0000-7000-8000-000000000005''
       \<lparr>uf_originalname = ''../../evil.html'', uf_mimetype = ''image/PNG'', uf_size = 3, uf_buffer = ''abc''\<rparr>
     = ''00000000-0000-7000-8000-000000000004/00000000-0000-7000-8000-000000000005-'' @ stem @ ''.'' @ ext
     \<and> ext \<in> set inert_extensions"
proof -
  have "uuid_re ''00000000-0000-7000-8000-000000000004''" "uuid_re ''00000000-0000-7000-8000-000000000005''"
    by code_simp+
  moreover have "to_lower (uf_mimetype \<lparr>uf_originalname = ''../../evil.html'', uf_mimetype = ''image/PNG'',
      uf_size = 3, uf_buffer = ''abc''\<rparr>) \<notin> {''constructor'', ''__proto__''}"
    by code_simp
  ultimately obtain stem ext where
    "object_path ''00000000-0000-7000-8000-000000000004'' ''00000000-0000-7000-8000-000000000005''
       \<lparr>uf_originalname = ''../../evil.html'', uf_mimetype = ''image/PNG'', uf_size = 3, uf_buffer = ''abc''\<rparr>
     = ''00000000-0000-7000-8000-000000000004'' @ ''/'' @ ''00000000-0000-7000-8000-000000000005'' @ ''-''
       @ stem @ ''.'' @ ext"
    "ext \<in> set inert_extensions"
    using stored_path_is_contained by blast
  then show ?thesis by (intro exI [of _ stem] exI [of _ ext]) simp
qed

end
