(* ===== verification/Messages.thy ===== *)
theory Messages
  imports ChatGroups Cursor Storage
begin

text \<open>
  Messages (backend/src/messages): \<open>MessagesService\<close> and \<open>MessagesController\<close> with their DTOs and
  limits. An operation takes the drawn id and the clock, the source's arguments and the store. What
  the database makes of a text as a UUID and of a case-insensitive \<open>contains\<close>, and what \<open>Number\<close>
  makes of a query parameter, are arguments.

  The interface \<open>keyset\<close> is what cursor pagination rests on: a query that returns the first rows
  below a position, in strictly descending key order. It is interpreted on the message table. The
  lemmas show that the pages of a history, followed by their cursors, are the whole history, that only
  the author changes a message, and how an edit can race with a deletion.
\<close>

section \<open>Limits and DTOs\<close>

definition MESSAGE_CONTENT_MAX_LENGTH :: nat where "MESSAGE_CONTENT_MAX_LENGTH = 4000"
definition SEARCH_RESULT_LIMIT :: nat where "SEARCH_RESULT_LIMIT = 50"
definition SEARCH_QUERY_MIN_LENGTH :: nat where "SEARCH_QUERY_MIN_LENGTH = 1"
definition SEARCH_QUERY_MAX_LENGTH :: nat where "SEARCH_QUERY_MAX_LENGTH = 100"
definition DEFAULT_PAGE_SIZE :: nat where "DEFAULT_PAGE_SIZE = 20"
definition MAX_PAGE_SIZE :: nat where "MAX_PAGE_SIZE = 100"
definition MAX_UPLOAD_MB :: nat where "MAX_UPLOAD_MB = 5"
definition MAX_UPLOAD_BYTES :: nat where "MAX_UPLOAD_BYTES = MAX_UPLOAD_MB * 1024 * 1024"

definition create_message_dto :: "jsval \<Rightarrow> string option" where
  "create_message_dto v = bounded_text 1 MESSAGE_CONTENT_MAX_LENGTH (trim_value v)"

definition search_messages_dto :: "jsval \<Rightarrow> string option" where
  "search_messages_dto v = bounded_text SEARCH_QUERY_MIN_LENGTH SEARCH_QUERY_MAX_LENGTH v"

text \<open>
  \<open>PaginationQueryDto\<close>: an absent \<open>limit\<close> is the default; \<open>to_int\<close> is \<open>Number\<close> of a text, \<open>None\<close>
  when that is no integer. The cursor is any text, or absent.
\<close>

definition pagination_query_dto ::
  "(string \<Rightarrow> int option) \<Rightarrow> string option \<Rightarrow> nat option" where
  "pagination_query_dto to_int limit = (case limit of
     None \<Rightarrow> Some DEFAULT_PAGE_SIZE
   | Some s \<Rightarrow> (case to_int s of
       Some n \<Rightarrow> (if 1 \<le> n \<and> n \<le> int MAX_PAGE_SIZE then Some (nat n) else None) | None \<Rightarrow> None))"

text \<open>The pattern \<open>ALLOWED_UPLOAD_MIME\<close>, which also accepts \<open>image/jpg\<close>.\<close>

definition allowed_upload_mime :: "string \<Rightarrow> bool" where
  "allowed_upload_mime m \<longleftrightarrow> m \<in> set [''image/png'', ''image/jpg'', ''image/jpeg'', ''image/gif'',
     ''image/webp'', ''application/pdf'']"

section \<open>MessagesService\<close>

text \<open>The attachment columns: url, name and MIME type.\<close>

record attachment =
  att_url :: string
  att_name :: string
  att_mime :: string

definition new_message_row ::
  "uuid \<Rightarrow> time \<Rightarrow> uuid \<Rightarrow> uuid option \<Rightarrow> string \<Rightarrow> message_type \<Rightarrow> attachment option \<Rightarrow> message_row" where
  "new_message_row mid now groupId senderId content type att =
     \<lparr>ms_id = mid, ms_groupId = groupId, ms_senderId = senderId, ms_content = content, ms_type = type,
      ms_createdAt = now, ms_editedAt = None, ms_deletedAt = None,
      ms_attachmentUrl = map_option att_url att, ms_attachmentName = map_option att_name att,
      ms_attachmentMime = map_option att_mime att\<rparr>"

definition persist_and_emit ::
  "message_row \<Rightarrow> db \<Rightarrow> db \<times> app_event list \<times> (exn + broadcast_message)" where
  "persist_and_emit row d = (case db_create_message row d of
     Inl e \<Rightarrow> (d, [], Inl (PrismaExn e))
   | Inr d1 \<Rightarrow> (let message = message_select d1 row in (d1, [MESSAGE_CREATED message], Inr message)))"

definition messages_create ::
  "uuid \<Rightarrow> time \<Rightarrow> uuid \<Rightarrow> uuid \<Rightarrow> string \<Rightarrow> db \<Rightarrow> db \<times> app_event list \<times> (exn + broadcast_message)" where
  "messages_create mid now groupId senderId content d =
     persist_and_emit (new_message_row mid now (as_uuid groupId) (Some senderId) content USER None) d"

definition create_with_attachment ::
  "uuid \<Rightarrow> time \<Rightarrow> uuid \<Rightarrow> uuid \<Rightarrow> string \<Rightarrow> attachment \<Rightarrow> db
    \<Rightarrow> db \<times> app_event list \<times> (exn + broadcast_message)" where
  "create_with_attachment mid now groupId senderId content att d =
     persist_and_emit (new_message_row mid now (as_uuid groupId) (Some senderId) content USER (Some att)) d"

text \<open>The ownership check reads the row; the update that follows finds it by its id alone.\<close>

definition assert_own_user_message :: "uuid \<Rightarrow> uuid \<Rightarrow> uuid \<Rightarrow> db \<Rightarrow> exn + message_row" where
  "assert_own_user_message groupId messageId userId d =
     (case List.find (\<lambda>m. ms_id m = as_uuid messageId \<and> ms_groupId m = as_uuid groupId) (db_messages d) of
        None \<Rightarrow> Inl (not_found ''Message not found'')
      | Some m \<Rightarrow> (if ms_senderId m \<noteq> Some userId \<or> ms_type m \<noteq> USER
                 then Inl (forbidden ''You can only change your own messages'') else Inr m))"

definition edit_check :: "uuid \<Rightarrow> uuid \<Rightarrow> uuid \<Rightarrow> db \<Rightarrow> exn + unit" where
  "edit_check groupId messageId userId d = (case assert_own_user_message groupId messageId userId d of
     Inl e \<Rightarrow> Inl e
   | Inr m \<Rightarrow> (if ms_deletedAt m \<noteq> None then Inl (forbidden ''This message has been deleted'') else Inr ()))"

definition update_and_emit ::
  "uuid \<Rightarrow> (message_row \<Rightarrow> message_row) \<Rightarrow> db \<Rightarrow> db \<times> app_event list \<times> (exn + broadcast_message)" where
  "update_and_emit messageId f d =
     (case db_update_message (\<lambda>m. ms_id m = messageId) f d of
        Inl e \<Rightarrow> (d, [], Inl (PrismaExn e))
      | Inr d1 \<Rightarrow> (case List.find (\<lambda>m. ms_id m = messageId) (db_messages d1) of
            None \<Rightarrow> (d1, [], Inl (PrismaExn P2025))
          | Some row \<Rightarrow> (let message = message_select d1 row
                       in (d1, [MESSAGE_UPDATED message], Inr message))))"

definition edit_write ::
  "time \<Rightarrow> uuid \<Rightarrow> string \<Rightarrow> db \<Rightarrow> db \<times> app_event list \<times> (exn + broadcast_message)" where
  "edit_write now messageId content d =
     update_and_emit (as_uuid messageId) (\<lambda>m. m\<lparr>ms_content := content, ms_editedAt := Some now\<rparr>) d"

definition messages_edit ::
  "time \<Rightarrow> uuid \<Rightarrow> uuid \<Rightarrow> uuid \<Rightarrow> string \<Rightarrow> db \<Rightarrow> db \<times> app_event list \<times> (exn + broadcast_message)" where
  "messages_edit now groupId messageId userId content d = (case edit_check groupId messageId userId d of
     Inl e \<Rightarrow> (d, [], Inl e) | Inr _ \<Rightarrow> edit_write now messageId content d)"

definition delete_write ::
  "time \<Rightarrow> uuid \<Rightarrow> db \<Rightarrow> db \<times> app_event list \<times> (exn + broadcast_message)" where
  "delete_write now messageId d =
     update_and_emit (as_uuid messageId) (\<lambda>m. m\<lparr>ms_content := [], ms_deletedAt := Some now\<rparr>) d"

definition soft_delete ::
  "time \<Rightarrow> uuid \<Rightarrow> uuid \<Rightarrow> uuid \<Rightarrow> db \<Rightarrow> db \<times> app_event list \<times> (exn + broadcast_message)" where
  "soft_delete now groupId messageId userId d =
     (case assert_own_user_message groupId messageId userId d of
        Inl e \<Rightarrow> (d, [], Inl e) | Inr _ \<Rightarrow> delete_write now messageId d)"

text \<open>\<open>orderBy: [createdAt desc, id desc]\<close>.\<close>

definition message_key :: "message_row \<Rightarrow> time \<times> uuid" where
  "message_key m = (ms_createdAt m, ms_id m)"

definition newest_first :: "message_row list \<Rightarrow> message_row list" where
  "newest_first ms = rev (sort_key message_key ms)"

definition messages_search ::
  "(string \<Rightarrow> string \<Rightarrow> bool) \<Rightarrow> uuid \<Rightarrow> string \<Rightarrow> db \<Rightarrow> broadcast_message list" where
  "messages_search contains_ci groupId q d =
     map (message_select d) (take SEARCH_RESULT_LIMIT (newest_first
       (filter (\<lambda>m. ms_groupId m = as_uuid groupId \<and> ms_type m = USER \<and> ms_deletedAt m = None
                    \<and> contains_ci q (ms_content m)) (db_messages d))))"

text \<open>
  The keyset query: the first \<open>n\<close> rows of the group strictly below a position. A position whose id
  is no UUID to the database is refused by Prisma with P2023.
\<close>

definition below :: "(time \<times> uuid) option \<Rightarrow> message_row \<Rightarrow> bool" where
  "below c m \<longleftrightarrow> (case c of None \<Rightarrow> True
     | Some (t, i) \<Rightarrow> ms_createdAt m < t \<or> (ms_createdAt m = t \<and> ms_id m < i))"

definition page_rows :: "uuid \<Rightarrow> db \<Rightarrow> (time \<times> uuid) option \<Rightarrow> nat \<Rightarrow> message_row list" where
  "page_rows groupId d c n =
     take n (newest_first (filter (\<lambda>m. ms_groupId m = groupId \<and> below c m) (db_messages d)))"

record pagination_meta =
  pm_limit :: nat
  pm_nextCursor :: "string option"
  pm_hasMore :: bool

record page_env =
  pe_exotic :: "string \<Rightarrow> exn + time \<times> uuid"
  pe_legacy :: "string \<Rightarrow> time option"
  pe_as_uuid :: "string \<Rightarrow> uuid option"

definition decoded_cursor :: "page_env \<Rightarrow> string option \<Rightarrow> exn + (time \<times> uuid) option" where
  "decoded_cursor env cursor = (case cursor of
     None \<Rightarrow> Inr None
   | Some raw \<Rightarrow> (if raw = [] then Inr None
       else case decode_cursor (pe_exotic env) (pe_legacy env) raw of
           Inl e \<Rightarrow> Inl e
         | Inr (t, i) \<Rightarrow> (case pe_as_uuid env i of
               None \<Rightarrow> Inl (PrismaExn (PrismaOther ''P2023'')) | Some u \<Rightarrow> Inr (Some (t, u)))))"

definition find_page ::
  "page_env \<Rightarrow> uuid \<Rightarrow> nat \<Rightarrow> string option \<Rightarrow> db \<Rightarrow> exn + broadcast_message list \<times> pagination_meta" where
  "find_page env groupId limit cursor d = (case decoded_cursor env cursor of
     Inl e \<Rightarrow> Inl e
   | Inr c \<Rightarrow>
       (let rows = page_rows (as_uuid groupId) d c (limit + 1);
            hasMore = (length rows > limit);
            page = (if hasMore then take limit rows else rows);
            nextCursor = (if hasMore \<and> page \<noteq> [] then Some (encode_cursor (message_key (last page))) else None)
        in Inr (map (message_select d) page,
                \<lparr>pm_limit = limit, pm_nextCursor = nextCursor, pm_hasMore = hasMore\<rparr>)))"

section \<open>The routes of MessagesController\<close>

definition msg_create ::
  "uuid \<Rightarrow> time \<Rightarrow> auth_user option \<Rightarrow> uuid \<Rightarrow> jsval \<Rightarrow> db \<Rightarrow> db \<times> app_event list \<times> (exn + broadcast_message)"
  where
  "msg_create mid now user groupId content d = guarded_write user groupId d (\<lambda>u g.
     case create_message_dto content of
       None \<Rightarrow> (d, [], Inl validation_failed) | Some text' \<Rightarrow> messages_create mid now g u text' d)"

definition msg_find_page ::
  "page_env \<Rightarrow> (string \<Rightarrow> int option) \<Rightarrow> auth_user option \<Rightarrow> uuid \<Rightarrow> string option \<Rightarrow> string option \<Rightarrow> db
    \<Rightarrow> exn + broadcast_message list \<times> pagination_meta" where
  "msg_find_page env to_int user groupId limit cursor d = guarded assert_member user groupId d (\<lambda>u g.
     case pagination_query_dto to_int limit of
       None \<Rightarrow> Inl validation_failed | Some n \<Rightarrow> find_page env g n cursor d)"

definition msg_search ::
  "(string \<Rightarrow> string \<Rightarrow> bool) \<Rightarrow> auth_user option \<Rightarrow> uuid \<Rightarrow> jsval \<Rightarrow> db \<Rightarrow> exn + broadcast_message list" where
  "msg_search contains_ci user groupId q d = guarded assert_member user groupId d (\<lambda>u g.
     case search_messages_dto q of
       None \<Rightarrow> Inl validation_failed | Some t \<Rightarrow> Inr (messages_search contains_ci g t d))"

text \<open>
  The file pipe: Nest's size validator wants less than the maximum; its type validator matches the
  type detected from the bytes (\<open>detect\<close>), or else the declared one. A failure is a 422.
\<close>

definition parse_file_pipe :: "(string \<Rightarrow> string option) \<Rightarrow> uploaded_file option \<Rightarrow> exn + uploaded_file" where
  "parse_file_pipe detect file = (case file of
     None \<Rightarrow> Inl (http_error 422 ''File is required'')
   | Some f \<Rightarrow>
       (if \<not> uf_size f < MAX_UPLOAD_BYTES then Inl (http_error 422 ''Validation failed'')
        else if \<not> allowed_upload_mime (case detect (uf_buffer f) of Some m \<Rightarrow> m | None \<Rightarrow> uf_mimetype f)
        then Inl (http_error 422 ''Validation failed'')
        else Inr f))"

definition msg_upload ::
  "(string \<Rightarrow> string option) \<Rightarrow> storage_env \<Rightarrow> uuid \<Rightarrow> uuid \<Rightarrow> time \<Rightarrow> auth_user option \<Rightarrow> uuid
    \<Rightarrow> string option \<Rightarrow> uploaded_file option \<Rightarrow> db
    \<Rightarrow> storage_request list \<times> db \<times> app_event list \<times> (exn + broadcast_message)" where
  "msg_upload detect st draw mid now user groupId content file d =
     (case guarded assert_member user groupId d (\<lambda>u g. Inr (u, g)) of
        Inl e \<Rightarrow> ([], d, [], Inl e)
      | Inr (u, g) \<Rightarrow> (case parse_file_pipe detect file of
            Inl e \<Rightarrow> ([], d, [], Inl e)
          | Inr f \<Rightarrow> (case storage_upload st draw g f of
                (reqs, Inl e) \<Rightarrow> (reqs, d, [], Inl e)
              | (reqs, Inr stored) \<Rightarrow>
                  (reqs, create_with_attachment mid now g u (js_trim (case content of Some c \<Rightarrow> c | None \<Rightarrow> []))
                     \<lparr>att_url = sf_url stored, att_name = sf_name stored, att_mime = sf_mime stored\<rparr> d))))"

definition msg_edit ::
  "time \<Rightarrow> auth_user option \<Rightarrow> uuid \<Rightarrow> uuid \<Rightarrow> jsval \<Rightarrow> db \<Rightarrow> db \<times> app_event list \<times> (exn + broadcast_message)"
  where
  "msg_edit now user groupId messageId content d = guarded_write user groupId d (\<lambda>u g.
     case parse_uuid_pipe messageId of Inl e \<Rightarrow> (d, [], Inl e)
     | Inr m \<Rightarrow> (case create_message_dto content of
         None \<Rightarrow> (d, [], Inl validation_failed) | Some text' \<Rightarrow> messages_edit now g m u text' d))"

definition msg_remove ::
  "time \<Rightarrow> auth_user option \<Rightarrow> uuid \<Rightarrow> uuid \<Rightarrow> db \<Rightarrow> db \<times> app_event list \<times> (exn + broadcast_message)" where
  "msg_remove now user groupId messageId d = guarded_write user groupId d (\<lambda>u g.
     case parse_uuid_pipe messageId of Inl e \<Rightarrow> (d, [], Inl e) | Inr m \<Rightarrow> soft_delete now g m u d)"

section \<open>Keyset pagination as an interface\<close>

text \<open>
  A client that follows the pages: it asks for one row more than the page, and continues below the
  last row it shows. The fuel bounds the number of pages; \<open>None\<close> is running out of it.
\<close>

fun walk :: "('r \<Rightarrow> 'k) \<Rightarrow> ('k option \<Rightarrow> nat \<Rightarrow> 'r list) \<Rightarrow> nat \<Rightarrow> nat \<Rightarrow> 'k option \<Rightarrow> 'r list option" where
  "walk key query limit 0 c = None"
| "walk key query limit (Suc n) c =
     (let rows = query c (limit + 1)
      in if limit < length rows
         then map_option (append (take limit rows))
                (walk key query limit n (Some (key (last (take limit rows)))))
         else Some rows)"

definition under :: "('r \<Rightarrow> 'k :: linorder) \<Rightarrow> 'k option \<Rightarrow> 'r \<Rightarrow> bool" where
  "under key c r \<longleftrightarrow> (case c of None \<Rightarrow> True | Some k \<Rightarrow> key r < k)"

locale keyset =
  fixes key :: "'r \<Rightarrow> 'k :: linorder"
    and good :: "'s \<Rightarrow> bool"
    and rows :: "'s \<Rightarrow> 'r list"
    and query :: "'s \<Rightarrow> 'k option \<Rightarrow> nat \<Rightarrow> 'r list"
  assumes descending: "good s \<Longrightarrow> sorted_wrt (\<lambda>a b. key b < key a) (rows s)"
    and query_rows: "good s \<Longrightarrow> query s c n = take n (filter (under key c) (rows s))"
begin

lemma below_nth:
  "sorted_wrt (\<lambda>a b. key b < key a) xs \<Longrightarrow> 0 < l \<Longrightarrow> l \<le> length xs \<Longrightarrow>
     filter (\<lambda>r. key r < key (last (take l xs))) xs = drop l xs"
proof (induction xs arbitrary: l)
  case (Cons x xs)
  show ?case
  proof (cases l)
    case 0
    with Cons.prems show ?thesis by simp
  next
    case (Suc k)
    show ?thesis
    proof (cases k)
      case 0
      have "filter (\<lambda>r. key r < key x) xs = xs"
        using Cons.prems(1) by (auto simp: filter_id_conv)
      with Suc 0 show ?thesis by simp
    next
      case (Suc k')
      have k: "0 < k" "k \<le> length xs" using Suc \<open>l = Suc k\<close> Cons.prems(3) by simp_all
      then have ne: "take k xs \<noteq> []" by auto
      then have "last (take k xs) \<in> set xs" using in_set_takeD last_in_set by fast
      then have "\<not> key x < key (last (take k xs))" using Cons.prems(1) by auto
      with Cons.IH [OF _ k] Cons.prems(1) ne \<open>l = Suc k\<close> show ?thesis by simp
    qed
  qed
qed simp

lemma next_rows:
  assumes good: "good s" and l: "0 < l" "l \<le> length (filter (under key c) (rows s))"
  shows "filter (under key (Some (key (last (take l (filter (under key c) (rows s))))))) (rows s)
       = drop l (filter (under key c) (rows s))"
proof -
  let ?R = "filter (under key c) (rows s)"
  let ?k = "key (last (take l ?R))"
  have "take l ?R \<noteq> []" using l by auto
  then have "last (take l ?R) \<in> set ?R" using in_set_takeD last_in_set by fast
  then have c: "under key c (last (take l ?R))" by simp
  have "filter (under key (Some ?k)) (rows s) = filter (\<lambda>r. key r < ?k) ?R"
    using c by (auto simp: under_def intro!: filter_cong split: option.splits)
  also have "\<dots> = drop l ?R"
    using descending [OF good] l by (intro below_nth) (simp_all add: sorted_wrt_filter)
  finally show ?thesis .
qed

lemma walk_all:
  assumes good: "good s" and l: "0 < limit" and n: "length (filter (under key c) (rows s)) \<le> n"
  shows "walk key (query s) limit (Suc n) c = Some (filter (under key c) (rows s))"
  using n
proof (induction n arbitrary: c)
  case 0
  then show ?case using query_rows [OF good] by simp
next
  case (Suc n)
  let ?R = "filter (under key c) (rows s)"
  show ?case
  proof (cases "limit < length ?R")
    case True
    let ?k = "key (last (take limit ?R))"
    have rest: "filter (under key (Some ?k)) (rows s) = drop limit ?R"
      using True l by (intro next_rows [OF good]) simp_all
    have "walk key (query s) limit (Suc n) (Some ?k) = Some (drop limit ?R)"
      using Suc.IH [of "Some ?k"] Suc.prems True l unfolding rest by simp
    then show ?thesis
      using True by (subst walk.simps) (simp add: query_rows [OF good] Let_def min_def)
  next
    case False
    then show ?thesis by (subst walk.simps) (simp add: query_rows [OF good] Let_def)
  qed
qed

end

section \<open>The history of a group\<close>

definition history :: "uuid \<Rightarrow> db \<Rightarrow> message_row list" where
  "history groupId d = newest_first (filter (\<lambda>m. ms_groupId m = groupId) (db_messages d))"

lemma wf_messages: "db_wf d \<Longrightarrow> no_clash message_clash (db_messages d)"
  by (simp add: db_wf_def keys_ok_def)

lemma same_message_id:
  "db_wf d \<Longrightarrow> a \<in> set (db_messages d) \<Longrightarrow> b \<in> set (db_messages d) \<Longrightarrow> ms_id a = ms_id b \<Longrightarrow> a = b"
  using messages.same_row [OF wf_messages] by (auto simp: message_clash_def)

lemma newest_first_descending:
  assumes "inj_on message_key (set ms)" and "distinct ms"
  shows "sorted_wrt (\<lambda>a b. message_key b < message_key a) (newest_first ms)"
proof -
  let ?s = "sort_key message_key ms"
  have "distinct (map message_key ?s)"
    using assms by (simp add: distinct_map)
  then have "sorted_wrt (<) (map message_key ?s)"
    by (simp add: strict_sorted_iff)
  then show ?thesis
    by (simp add: newest_first_def sorted_wrt_rev sorted_wrt_map)
qed

lemma inj_message_key: "db_wf d \<Longrightarrow> inj_on message_key (set (db_messages d))"
  by (auto simp: inj_on_def message_key_def dest: same_message_id)

lemma below_under: "below c = under message_key c"
  by (auto simp: below_def under_def message_key_def fun_eq_iff split: option.splits)

lemma filter_newest_first: "filter P (newest_first ms) = newest_first (filter P ms)"
  by (simp add: newest_first_def filter_sort rev_filter [symmetric])

lemma page_rows_history: "page_rows g d c n = take n (filter (below c) (history g d))"
  by (simp add: page_rows_def history_def filter_newest_first conj_commute)

interpretation message_pages: keyset message_key "\<lambda>(g, d). db_wf d" "\<lambda>(g, d). history g d"
    "\<lambda>(g, d). page_rows g d"
proof
  fix s :: "uuid \<times> db"
  assume "case s of (g, d) \<Rightarrow> db_wf d"
  then obtain g d where s: "s = (g, d)" and wf: "db_wf d" by (cases s) auto
  have "inj_on message_key (set (filter (\<lambda>m. ms_groupId m = g) (db_messages d)))"
    using inj_message_key [OF wf] by (rule inj_on_subset) auto
  moreover have "distinct (db_messages d)" using messages.distinct_rows wf_messages [OF wf] by blast
  ultimately show "sorted_wrt (\<lambda>a b. message_key b < message_key a) (case s of (g, d) \<Rightarrow> history g d)"
    by (simp add: s history_def newest_first_descending)
next
  fix s :: "uuid \<times> db" and c n
  show "(case s of (g, d) \<Rightarrow> page_rows g d) c n
      = take n (filter (under message_key c) (case s of (g, d) \<Rightarrow> history g d))"
    by (cases s) (simp add: page_rows_history below_under)
qed

text \<open>The client of the route: it follows \<open>nextCursor\<close> until it is null.\<close>

fun read_history ::
  "page_env \<Rightarrow> uuid \<Rightarrow> nat \<Rightarrow> nat \<Rightarrow> string option \<Rightarrow> db \<Rightarrow> broadcast_message list option" where
  "read_history env g limit 0 cursor d = None"
| "read_history env g limit (Suc n) cursor d = (case find_page env g limit cursor d of
     Inl e \<Rightarrow> None
   | Inr (data, meta) \<Rightarrow> (case pm_nextCursor meta of
       None \<Rightarrow> Some data
     | Some c \<Rightarrow> map_option (append data) (read_history env g limit n (Some c) d)))"

text \<open>What the database keeps of ids and instants: UUIDs it reads back as themselves, four-digit years.\<close>

definition positions_ok :: "page_env \<Rightarrow> db \<Rightarrow> bool" where
  "positions_ok env d \<longleftrightarrow> list_all (\<lambda>m. cursor_ok (message_key m) \<and> pe_as_uuid env (ms_id m) = Some (ms_id m))
     (db_messages d)"

lemma encode_cursor_nonempty: "encode_cursor c \<noteq> []"
proof -
  have "sextets bs = [] \<longleftrightarrow> bs = []" for bs
    by (cases bs rule: sextets.cases) auto
  then show ?thesis by (simp add: encode_cursor_def b64_encode_def)
qed

lemma decoded_own_cursor:
  assumes "positions_ok env d" and "m \<in> set (db_messages d)"
  shows "decoded_cursor env (Some (encode_cursor (message_key m))) = Inr (Some (message_key m))"
proof -
  have ok: "cursor_ok (message_key m)" "pe_as_uuid env (ms_id m) = Some (ms_id m)"
    using assms by (auto simp: positions_ok_def list_all_iff)
  have "decode_cursor (pe_exotic env) (pe_legacy env) (encode_cursor (message_key m)) = Inr (message_key m)"
    by (rule cursor.dec_enc [OF ok(1)])
  then show ?thesis
    using ok(2) encode_cursor_nonempty by (simp add: decoded_cursor_def message_key_def)
qed

lemma read_history_walk:
  assumes wf: "db_wf d" and ok: "positions_ok env d" and l: "0 < limit"
  shows "decoded_cursor env cursor = Inr c \<Longrightarrow> read_history env g limit n cursor d
      = map_option (map (message_select d)) (walk message_key (page_rows (as_uuid g) d) limit n c)"
proof (induction n arbitrary: cursor c)
  case (Suc n)
  let ?rows = "page_rows (as_uuid g) d c (limit + 1)"
  show ?case
  proof (cases "limit < length ?rows")
    case False
    with Suc.prems show ?thesis by (simp add: find_page_def Let_def)
  next
    case True
    then have ne: "take limit ?rows \<noteq> []" using l by auto
    then have "last (take limit ?rows) \<in> set ?rows" using in_set_takeD last_in_set by fast
    then have "last (take limit ?rows) \<in> set (db_messages d)"
      by (auto simp: page_rows_history history_def newest_first_def dest!: in_set_takeD)
    note IH = Suc.IH [OF decoded_own_cursor [OF ok this]]
    have "read_history env g limit (Suc n) cursor d = map_option (append (map (message_select d) (take limit ?rows)))
        (read_history env g limit n (Some (encode_cursor (message_key (last (take limit ?rows))))) d)"
      using Suc.prems True ne by (simp add: find_page_def Let_def)
    also have "\<dots> = map_option (map (message_select d)) (walk message_key (page_rows (as_uuid g) d) limit (Suc n) c)"
      unfolding IH using True by (simp add: option.map_comp comp_def Let_def)
    finally show ?thesis .
  qed
qed simp

text \<open>
  C29. The pages are the history. A client that asks for the pages of a group, of any size, and follows
  \<open>nextCursor\<close> until it is null, gets every message of the group exactly once, newest first, messages
  of the same millisecond included; as many requests as the store has messages, plus one, are enough.
\<close>

theorem pages_are_the_history:
  assumes wf: "db_wf d" and ok: "positions_ok env d" and l: "0 < limit"
  shows "read_history env g limit (Suc (length (db_messages d))) None d = Some (map (message_select d) (history (as_uuid g) d))
    \<and> set (history (as_uuid g) d) = {m \<in> set (db_messages d). ms_groupId m = as_uuid g} \<and> distinct (history (as_uuid g) d)
    \<and> sorted_wrt (\<lambda>a b. message_key b < message_key a) (history (as_uuid g) d)"
proof -
  have all: "filter (under message_key None) xs = xs" for xs
    by (simp add: under_def)
  have "length (history (as_uuid g) d) \<le> length (db_messages d)"
    by (simp add: history_def newest_first_def)
  then have "walk message_key (page_rows (as_uuid g) d) limit (Suc (length (db_messages d))) None = Some (history (as_uuid g) d)"
    using message_pages.walk_all [of "(as_uuid g, d)" limit None] wf l by (simp add: all)
  then have "map_option (map (message_select d)) (walk message_key (page_rows (as_uuid g) d) limit
      (Suc (length (db_messages d))) None) = Some (map (message_select d) (history (as_uuid g) d))"
    by (simp only: option.map)
  moreover have "decoded_cursor env None = Inr None" by (simp add: decoded_cursor_def)
  note read_history_walk [OF wf ok l this, symmetric]
  ultimately have "read_history env g limit (Suc (length (db_messages d))) None d
      = Some (map (message_select d) (history (as_uuid g) d))"
    by (simp only:)
  moreover have "sorted_wrt (\<lambda>a b. message_key b < message_key a) (history (as_uuid g) d)"
    using message_pages.descending [of "(as_uuid g, d)"] wf by simp
  moreover have "distinct (history (as_uuid g) d)"
    using messages.distinct_rows [OF wf_messages [OF wf]] by (simp add: history_def newest_first_def)
  moreover have "set (history (as_uuid g) d) = {m \<in> set (db_messages d). ms_groupId m = as_uuid g}"
    by (auto simp: history_def newest_first_def)
  ultimately show ?thesis by blast
qed

definition sample_page_env :: page_env where
  "sample_page_env = \<lparr>pe_exotic = (\<lambda>_. Inl (OtherExn [])), pe_legacy = (\<lambda>_. None), pe_as_uuid = Some\<rparr>"

text \<open>Witness for C29: the two messages of the sample group, one per page.\<close>

theorem pages_are_the_history_witness:
  "map_option (map bm_content) (read_history sample_page_env (sample_id 4) 1 3 None sample_db)
     = Some [''Hi Ann'', ''hello'']"
proof -
  have ok: "positions_ok sample_page_env sample_db" by code_simp
  have "read_history sample_page_env (sample_id 4) 1 (Suc (length (db_messages sample_db))) None sample_db
      = Some (map (message_select sample_db) (history (sample_id 4) sample_db))"
    using pages_are_the_history [OF sample_db_wf ok, of 1 "sample_id 4"] by simp
  moreover have "map bm_content (map (message_select sample_db) (history (sample_id 4) sample_db))
      = [''Hi Ann'', ''hello'']" "Suc (length (db_messages sample_db)) = 3"
    by code_simp+
  ultimately show ?thesis by simp
qed

section \<open>Changing a message\<close>

definition own_message :: "uuid \<Rightarrow> uuid \<Rightarrow> uuid \<Rightarrow> message_row \<Rightarrow> bool" where
  "own_message g mid u m \<longleftrightarrow> ms_id m = as_uuid mid \<and> ms_groupId m = as_uuid g \<and> ms_senderId m = Some u \<and> ms_type m = USER"

definition replace_row :: "message_row \<Rightarrow> message_row \<Rightarrow> db \<Rightarrow> db" where
  "replace_row m m' d = d\<lparr>db_messages := map (\<lambda>x. if x = m then m' else x) (db_messages d)\<rparr>"

lemma find_message_row:
  assumes "db_wf d" and "m \<in> set (db_messages d)" and "P m" and "\<And>x. P x \<Longrightarrow> ms_id x = ms_id m"
  shows "List.find P (db_messages d) = Some m"
  by (rule messages.find_key [where P = P, OF wf_messages [OF assms(1)] assms(2,3)])
    (use assms(4) in \<open>auto simp: message_clash_def\<close>)

lemma update_and_emit_row:
  assumes wf: "db_wf d" and m: "m \<in> set (db_messages d)" and f: "ms_id (f m) = ms_id m"
  shows "update_and_emit (ms_id m) f d = (let d1 = replace_row m (f m) d; bm = message_select d1 (f m)
      in (d1, [MESSAGE_UPDATED bm], Inr bm))"
proof -
  have same: "ms_id x = ms_id m \<longleftrightarrow> x = m" if "x \<in> set (db_messages d)" for x
    using same_message_id [OF wf that m] by blast
  have "list_ex (\<lambda>x. ms_id x = ms_id m) (db_messages d)" using m by (auto simp: list_ex_iff)
  moreover have "update_where (\<lambda>x. ms_id x = ms_id m) f (db_messages d) = db_messages (replace_row m (f m) d)"
    using same by (auto simp: update_where_def replace_row_def)
  ultimately have upd: "db_update_message (\<lambda>x. ms_id x = ms_id m) f d = Inr (replace_row m (f m) d)"
    by (simp add: db_update_message_def replace_row_def)
  have "List.find (\<lambda>x. ms_id x = ms_id m) (map (\<lambda>x. if x = m then f m else x) ms) = Some (f m)"
    if "set ms \<subseteq> set (db_messages d)" "m \<in> set ms" for ms
    using that by (induction ms) (auto simp: f same)
  then have "List.find (\<lambda>x. ms_id x = ms_id m) (db_messages (replace_row m (f m) d)) = Some (f m)"
    using m by (simp add: replace_row_def)
  with upd show ?thesis by (simp add: update_and_emit_def Let_def)
qed

lemma own_message_check:
  assumes wf: "db_wf d" and m: "m \<in> set (db_messages d)" and own: "own_message g mid u m"
  shows "assert_own_user_message g mid u d = Inr m"
proof -
  have "List.find (\<lambda>m. ms_id m = as_uuid mid \<and> ms_groupId m = as_uuid g) (db_messages d) = Some m"
    by (rule find_message_row [OF wf m]) (use own in \<open>auto simp: own_message_def\<close>)
  with own show ?thesis by (simp add: assert_own_user_message_def own_message_def)
qed

lemma own_message_check_Inr:
  assumes "assert_own_user_message g mid u d = Inr m"
  shows "m \<in> set (db_messages d) \<and> own_message g mid u m"
proof -
  from assms have f: "List.find (\<lambda>m. ms_id m = as_uuid mid \<and> ms_groupId m = as_uuid g) (db_messages d) = Some m"
    and s: "ms_senderId m = Some u" "ms_type m = USER"
    by (auto simp: assert_own_user_message_def split: option.splits if_splits)
  from find_SomeD [OF f] s show ?thesis by (simp add: own_message_def)
qed

lemma own_message_check_Inl:
  "assert_own_user_message g mid u d = Inl e \<Longrightarrow>
     e = not_found ''Message not found'' \<or> e = forbidden ''You can only change your own messages''"
  by (auto simp: assert_own_user_message_def split: option.splits if_splits)

text \<open>
  C30. Only the author changes a message. An edit goes through exactly for the sender of a USER
  message of this group that has not been deleted, and a deletion exactly for the sender of a USER
  message of this group; then that one row changes, in its text and its time stamp alone, and one
  MESSAGE_UPDATED carries the new row. In every other case nothing is written or emitted, and the
  answer is the 404 or one of the two 403s.
\<close>

theorem only_the_author_changes_a_message:
  assumes wf: "db_wf d"
  shows "((\<exists>m \<in> set (db_messages d). own_message g mid u m \<and> ms_deletedAt m = None
        \<and> (let m' = m\<lparr>ms_content := c, ms_editedAt := Some now\<rparr>; d1 = replace_row m m' d; bm = message_select d1 m'
           in messages_edit now g mid u c d = (d1, [MESSAGE_UPDATED bm], Inr bm)))
      \<or> (\<forall>m \<in> set (db_messages d). own_message g mid u m \<longrightarrow> ms_deletedAt m \<noteq> None)
        \<and> (\<exists>e \<in> {not_found ''Message not found'', forbidden ''You can only change your own messages'',
               forbidden ''This message has been deleted''}. messages_edit now g mid u c d = (d, [], Inl e)))
    \<and> ((\<exists>m \<in> set (db_messages d). own_message g mid u m
        \<and> (let m' = m\<lparr>ms_content := [], ms_deletedAt := Some now\<rparr>; d1 = replace_row m m' d; bm = message_select d1 m'
           in soft_delete now g mid u d = (d1, [MESSAGE_UPDATED bm], Inr bm)))
      \<or> (\<forall>m \<in> set (db_messages d). \<not> own_message g mid u m)
        \<and> (\<exists>e \<in> {not_found ''Message not found'', forbidden ''You can only change your own messages''}.
              soft_delete now g mid u d = (d, [], Inl e)))"
proof (rule conjI)
  have one: "m = m'" if "m \<in> set (db_messages d)" "m' \<in> set (db_messages d)" "own_message g mid u m" "own_message g mid u m'" for m m'
    using same_message_id [OF wf that(1,2)] that(3,4) by (simp add: own_message_def)
  show "(\<exists>m \<in> set (db_messages d). own_message g mid u m \<and> ms_deletedAt m = None
        \<and> (let m' = m\<lparr>ms_content := c, ms_editedAt := Some now\<rparr>; d1 = replace_row m m' d; bm = message_select d1 m'
           in messages_edit now g mid u c d = (d1, [MESSAGE_UPDATED bm], Inr bm)))
      \<or> (\<forall>m \<in> set (db_messages d). own_message g mid u m \<longrightarrow> ms_deletedAt m \<noteq> None)
        \<and> (\<exists>e \<in> {not_found ''Message not found'', forbidden ''You can only change your own messages'',
               forbidden ''This message has been deleted''}. messages_edit now g mid u c d = (d, [], Inl e))"
  proof (cases "assert_own_user_message g mid u d")
    case (Inl e)
    with own_message_check [OF wf] own_message_check_Inl [OF Inl] show ?thesis
      by (intro disjI2) (auto simp: messages_edit_def edit_check_def)
  next
    case (Inr m)
    note m = own_message_check_Inr [OF Inr]
    show ?thesis
    proof (cases "ms_deletedAt m")
      case None
      let ?f = "\<lambda>m. m\<lparr>ms_content := c, ms_editedAt := Some now\<rparr>"
      have "messages_edit now g mid u c d = update_and_emit (ms_id m) ?f d"
        using Inr None m by (simp add: messages_edit_def edit_check_def edit_write_def own_message_def)
      with update_and_emit_row [OF wf, of m ?f] m None show ?thesis
        by (intro disjI1 bexI [of _ m]) (simp_all add: Let_def)
    next
      case (Some t)
      with Inr have "messages_edit now g mid u c d = (d, [], Inl (forbidden ''This message has been deleted''))"
        by (simp add: messages_edit_def edit_check_def)
      with one m Some show ?thesis by (intro disjI2) auto
    qed
  qed
  show "(\<exists>m \<in> set (db_messages d). own_message g mid u m
        \<and> (let m' = m\<lparr>ms_content := [], ms_deletedAt := Some now\<rparr>; d1 = replace_row m m' d; bm = message_select d1 m'
           in soft_delete now g mid u d = (d1, [MESSAGE_UPDATED bm], Inr bm)))
      \<or> (\<forall>m \<in> set (db_messages d). \<not> own_message g mid u m)
        \<and> (\<exists>e \<in> {not_found ''Message not found'', forbidden ''You can only change your own messages''}.
              soft_delete now g mid u d = (d, [], Inl e))"
  proof (cases "assert_own_user_message g mid u d")
    case (Inl e)
    with own_message_check [OF wf] own_message_check_Inl [OF Inl] show ?thesis
      by (intro disjI2) (auto simp: soft_delete_def)
  next
    case (Inr m)
    note m = own_message_check_Inr [OF Inr]
    let ?f = "\<lambda>m. m\<lparr>ms_content := [], ms_deletedAt := Some now\<rparr>"
    have "soft_delete now g mid u d = update_and_emit (ms_id m) ?f d"
      using Inr m by (simp add: soft_delete_def delete_write_def own_message_def)
    with update_and_emit_row [OF wf, of m ?f] m show ?thesis
      by (intro disjI1 bexI [of _ m]) (simp_all add: Let_def)
  qed
qed

text \<open>Witness for C30: Bob tries to edit and to delete Ann's message.\<close>

theorem only_the_author_changes_a_message_witness:
  "fst (messages_edit 400 (sample_id 4) (sample_id 8) (sample_id 2) ''mine now'' sample_db) = sample_db
   \<and> fst (soft_delete 400 (sample_id 4) (sample_id 8) (sample_id 2) sample_db) = sample_db"
proof -
  have "list_all (\<lambda>m. \<not> own_message (sample_id 4) (sample_id 8) (sample_id 2) m) (db_messages sample_db)"
    by code_simp
  then have "\<forall>m \<in> set (db_messages sample_db). \<not> own_message (sample_id 4) (sample_id 8) (sample_id 2) m"
    by (simp add: list_all_iff)
  with only_the_author_changes_a_message [OF sample_db_wf, where g = "sample_id 4" and mid = "sample_id 8"
      and u = "sample_id 2" and now = 400 and c = "''mine now''"] show ?thesis by (auto simp: Let_def)
qed

text \<open>The outcome of an operation that succeeded with one broadcast of what it returns.\<close>

definition sole_update ::
  "db \<times> app_event list \<times> (exn + broadcast_message) \<Rightarrow> (db \<times> broadcast_message) option" where
  "sole_update p = (case p of
     (d, [MESSAGE_UPDATED b], Inr b') \<Rightarrow> (if b = b' then Some (d, b) else None) | _ \<Rightarrow> None)"

lemma sole_updateD: "sole_update p = Some (d, b) \<Longrightarrow> p = (d, [MESSAGE_UPDATED b], Inr b)"
  by (auto simp: sole_update_def split: prod.splits list.splits app_event.splits sum.splits if_splits)

text \<open>
  The check of an edit and its write are two statements. When the author's deletion of the same
  message commits in between, the edit still goes through: the tombstone is left with the new text, and
  MESSAGE_UPDATED broadcasts the text of a message marked as deleted.
\<close>

lemma interleaved_edit_revives_deleted_text:
  "edit_check (sample_id 4) (sample_id 8) (sample_id 1) sample_db = Inr ()
   \<and> (\<exists>d1 bm1 d2 bm2. soft_delete 400 (sample_id 4) (sample_id 8) (sample_id 1) sample_db
          = (d1, [MESSAGE_UPDATED bm1], Inr bm1)
      \<and> edit_write 410 (sample_id 8) ''secret'' d1 = (d2, [MESSAGE_UPDATED bm2], Inr bm2)
      \<and> bm_content bm2 = ''secret'' \<and> bm_deletedAt bm2 = Some 400
      \<and> messages_edit 410 (sample_id 4) (sample_id 8) (sample_id 1) ''secret'' d1
          = (d1, [], Inl (forbidden ''This message has been deleted'')))"
proof -
  have c: "edit_check (sample_id 4) (sample_id 8) (sample_id 1) sample_db = Inr ()"
    by code_simp
  have k: "case sole_update (soft_delete 400 (sample_id 4) (sample_id 8) (sample_id 1) sample_db) of
      None \<Rightarrow> False
    | Some (d1, b1) \<Rightarrow>
        (case sole_update (edit_write 410 (sample_id 8) ''secret'' d1) of None \<Rightarrow> False
         | Some (d2, b2) \<Rightarrow> bm_content b2 = ''secret'' \<and> bm_deletedAt b2 = Some 400)
      \<and> messages_edit 410 (sample_id 4) (sample_id 8) (sample_id 1) ''secret'' d1
          = (d1, [], Inl (forbidden ''This message has been deleted''))"
    by code_simp
  then obtain d1 b1 where s: "sole_update (soft_delete 400 (sample_id 4) (sample_id 8) (sample_id 1) sample_db)
      = Some (d1, b1)"
    by (auto split: option.splits)
  with k obtain d2 b2 where e: "sole_update (edit_write 410 (sample_id 8) ''secret'' d1) = Some (d2, b2)"
    "bm_content b2 = ''secret''" "bm_deletedAt b2 = Some 400"
    by (auto split: option.splits)
  from k s have "messages_edit 410 (sample_id 4) (sample_id 8) (sample_id 1) ''secret'' d1
          = (d1, [], Inl (forbidden ''This message has been deleted''))"
    by simp
  with c sole_updateD [OF s] sole_updateD [OF e(1)] e(2,3) show ?thesis by blast
qed

section \<open>New messages and pages\<close>

lemma insort_key_snoc:
  "key x \<le> key r \<Longrightarrow> (\<forall>y \<in> set ys. key y \<le> key r) \<Longrightarrow> insort_key key x (ys @ [r]) = insort_key key x ys @ [r]"
  by (induction ys) auto

lemma sort_key_snoc:
  "(\<forall>y \<in> set ys. key y \<le> key r) \<Longrightarrow> sort_key key (ys @ [r]) = sort_key key ys @ [r]"
  by (induction ys) (simp_all add: insort_key_snoc)

lemma persist_and_emit_Inr:
  assumes "persist_and_emit row d = (d', evs, Inr bm)" and "db_wf d"
  shows "d' = d\<lparr>db_messages := db_messages d @ [row]\<rparr>" "evs = [MESSAGE_CREATED bm]"
    "bm = message_select d' row" "db_wf d'"
proof -
  from assms(1) have c: "db_create_message row d = Inr d'" and "evs = [MESSAGE_CREATED bm]" "bm = message_select d' row"
    by (auto simp: persist_and_emit_def Let_def split: sum.splits)
  then show "evs = [MESSAGE_CREATED bm]" "bm = message_select d' row" by simp_all
  from c assms(2) show "db_wf d'" by (rule db_create_message_wf)
  from c show "d' = d\<lparr>db_messages := db_messages d @ [row]\<rparr>"
    using messages.insert_Some [OF _ wf_messages [OF assms(2)]]
    by (auto simp: db_create_message_def split: option.splits if_splits)
qed

lemma persist_and_emit_Inl:
  "persist_and_emit row d = (d', evs, Inl e) \<Longrightarrow> d' = d \<and> evs = []"
  by (auto simp: persist_and_emit_def Let_def split: sum.splits)

lemma message_select_messages [simp]: "message_select (d\<lparr>db_messages := ms\<rparr>) m = message_select d m"
  by (simp add: message_select_def find_user_def reactions_of_def)

text \<open>
  A new message does not disturb who is reading back. Sending appends one USER row of the caller
  and emits one MESSAGE_CREATED with its public shape; if it is the newest of its group it is the head
  of the history; and every page below a cursor that is not newer than the message is unchanged, so a
  client that scrolls back neither misses nor repeats a message.
\<close>

lemma new_message_leaves_older_pages:
  assumes wf: "db_wf d" and run: "messages_create mid now g u content d = (d', evs, Inr bm)"
    and newest: "\<forall>m \<in> set (db_messages d). ms_groupId m = as_uuid g \<longrightarrow> message_key m < (now, mid)"
  shows "evs = [MESSAGE_CREATED bm] \<and> bm_content bm = content \<and> bm_senderId bm = Some u \<and> bm_type bm = USER
    \<and> history (as_uuid g) d' = new_message_row mid now (as_uuid g) (Some u) content USER None # history (as_uuid g) d
    \<and> (\<forall>cursor c. decoded_cursor env cursor = Inr (Some c) \<longrightarrow> \<not> (now, mid) < c \<longrightarrow>
         find_page env g limit cursor d' = find_page env g limit cursor d)"
proof -
  let ?r = "new_message_row mid now (as_uuid g) (Some u) content USER None"
  note p = persist_and_emit_Inr [OF run [unfolded messages_create_def] wf]
  have key: "message_key ?r = (now, mid)" "ms_groupId ?r = as_uuid g"
    by (simp_all add: message_key_def new_message_row_def)
  have "\<forall>m \<in> set (filter (\<lambda>m. ms_groupId m = as_uuid g) (db_messages d)). message_key m \<le> message_key ?r"
    using newest by (auto simp: key less_imp_le)
  then have hist: "history (as_uuid g) d' = ?r # history (as_uuid g) d"
    by (simp add: p(1) history_def newest_first_def key sort_key_snoc)
  have "page_rows (as_uuid g) d' (Some c) n = page_rows (as_uuid g) d (Some c) n" if "\<not> (now, mid) < c" for c n
    using that by (simp add: page_rows_history hist below_under under_def key)
  moreover have "message_select d' = message_select d"
    by (rule ext) (simp add: p(1))
  ultimately have "find_page env g limit cursor d' = find_page env g limit cursor d"
    if "decoded_cursor env cursor = Inr (Some c)" "\<not> (now, mid) < c" for cursor c
    using that by (simp add: find_page_def)
  moreover have "bm_content bm = content \<and> bm_senderId bm = Some u \<and> bm_type bm = USER"
    by (simp add: p(3) message_select_def new_message_row_def)
  ultimately show ?thesis using p(2) hist by blast
qed

text \<open>Example: Cy writes after Ann and Bob.\<close>

lemma new_message_leaves_older_pages_example:
  "\<exists>d' bm. messages_create (sample_id 12) 400 (sample_id 4) (sample_id 3) ''late'' sample_db
       = (d', [MESSAGE_CREATED bm], Inr bm) \<and> bm_content bm = ''late''"
proof -
  have "\<not> isl (snd (snd (messages_create (sample_id 12) 400 (sample_id 4) (sample_id 3) ''late'' sample_db)))"
    by code_simp
  then obtain d' evs bm where run: "messages_create (sample_id 12) 400 (sample_id 4) (sample_id 3) ''late'' sample_db
      = (d', evs, Inr bm)"
    by (metis prod.collapse sum.collapse(2))
  have "list_all (\<lambda>m. ms_groupId m = sample_id 4 \<longrightarrow> ms_createdAt m < 400) (db_messages sample_db)"
    by code_simp
  then have "\<forall>m \<in> set (db_messages sample_db). ms_groupId m = as_uuid (sample_id 4) \<longrightarrow> message_key m < (400, sample_id 12)"
    by (auto simp: list_all_iff message_key_def)
  from new_message_leaves_older_pages [OF sample_db_wf run this] run show ?thesis by blast
qed

text \<open>
  C31. Members only: on every message route a caller who is not a member of the group gets the one 403,
  nothing is written, nothing is emitted, and an upload sends no byte to the storage.
\<close>

theorem message_routes_are_members_only:
  assumes "\<not> (is_member d (au_userId u) g \<and> uuid_re g)"
  shows "msg_create mid now (Some u) g content d = (d, [], Inl (forbidden NOT_A_MEMBER_MESSAGE))
    \<and> msg_find_page env to_int (Some u) g limit cursor d = Inl (forbidden NOT_A_MEMBER_MESSAGE)
    \<and> msg_search contains_ci (Some u) g q d = Inl (forbidden NOT_A_MEMBER_MESSAGE)
    \<and> msg_upload detect st draw mid now (Some u) g caption file d
        = ([], d, [], Inl (forbidden NOT_A_MEMBER_MESSAGE))
    \<and> msg_edit now (Some u) g messageId content d = (d, [], Inl (forbidden NOT_A_MEMBER_MESSAGE))
    \<and> msg_remove now (Some u) g messageId d = (d, [], Inl (forbidden NOT_A_MEMBER_MESSAGE))"
  using assms
  by (simp add: msg_create_def msg_find_page_def msg_search_def msg_upload_def msg_edit_def msg_remove_def
      guarded_write_denied db_rule.guarded_denied)

text \<open>Witness for C31: Dan asks for the history of the sample group.\<close>

theorem message_routes_are_members_only_witness:
  "msg_find_page sample_page_env (\<lambda>_. None) (Some \<lparr>au_userId = sample_id 11, au_email = ''dan@x.com''\<rparr>)
     (sample_id 4) None None sample_db = Inl (forbidden NOT_A_MEMBER_MESSAGE)"
proof -
  let ?u = "\<lparr>au_userId = sample_id 11, au_email = ''dan@x.com''\<rparr>"
  have "\<not> (is_member sample_db (au_userId ?u) (sample_id 4) \<and> uuid_re (sample_id 4))"
    by code_simp
  from message_routes_are_members_only [OF this, where env = sample_page_env and to_int = "\<lambda>_. None"
      and limit = None and cursor = None] show ?thesis by blast
qed

text \<open>
  Search stays within the group, shows no deleted, system or summary message, answers newest first
  and with at most fifty rows; if there are no more hits than that it shows them all.
\<close>

lemma search_is_scoped_and_capped:
  "\<exists>hits. messages_search contains_ci g q d = map (message_select d) (take 50 hits)
    \<and> hits = filter (\<lambda>m. ms_type m = USER \<and> ms_deletedAt m = None \<and> contains_ci q (ms_content m)) (history (as_uuid g) d)
    \<and> set hits = {m \<in> set (db_messages d). ms_groupId m = as_uuid g \<and> ms_type m = USER \<and> ms_deletedAt m = None
          \<and> contains_ci q (ms_content m)}
    \<and> length (messages_search contains_ci g q d) = min 50 (length hits)"
proof -
  let ?hits = "filter (\<lambda>m. ms_type m = USER \<and> ms_deletedAt m = None \<and> contains_ci q (ms_content m)) (history (as_uuid g) d)"
  have "messages_search contains_ci g q d = map (message_select d) (take 50 ?hits)"
    by (simp add: messages_search_def SEARCH_RESULT_LIMIT_def history_def filter_newest_first conj_assoc conj_commute
        conj_left_commute)
  then show ?thesis
    by (intro exI [of _ ?hits]) (auto simp: history_def newest_first_def)
qed

section \<open>Invariants\<close>

lemma persist_and_emit_wf [inv_intros]: "db_wf d \<Longrightarrow> db_wf (fst (persist_and_emit row d))"
  by (auto simp: persist_and_emit_def Let_def split: sum.splits intro: db_create_message_wf)

lemma update_and_emit_wf:
  assumes "same_message_keys f" and wf: "db_wf d"
  shows "db_wf (fst (update_and_emit mid f d))"
  using db_update_message_wf [OF _ assms] wf
  by (auto simp: update_and_emit_def Let_def split: sum.splits option.splits)

lemma messages_wf:
  assumes "db_wf d"
  shows "db_wf (fst (messages_create mid now g u c d))"
    and "db_wf (fst (create_with_attachment mid now g u c att d))"
    and "db_wf (fst (messages_edit now g m u c d))" and "db_wf (fst (soft_delete now g m u d))"
  using assms
  by (auto simp: messages_create_def create_with_attachment_def messages_edit_def edit_write_def soft_delete_def
      delete_write_def persist_and_emit_wf update_and_emit_wf split: sum.splits)

end
