(* ===== verification/Reactions.thy ===== *)
theory Reactions
  imports Messages
begin

text \<open>
  Reactions (backend/src/messages/reactions.service.ts, reactions.controller.ts): the toggle, split at
  its awaits so that concurrent taps are interleavings of the same statements. Whether a text is a
  single emoji is an argument (a Unicode property pattern). The lemmas show that a toggle flips
  exactly one reaction, that two toggles cancel out, and that two simultaneous taps of the same emoji
  both succeed.
\<close>

section \<open>ReactionsService\<close>

definition toggle_reaction_dto :: "(string \<Rightarrow> bool) \<Rightarrow> jsval \<Rightarrow> string option" where
  "toggle_reaction_dto single_emoji v = (case bounded_text 1 16 v of
     Some s \<Rightarrow> (if single_emoji s then Some s else None) | None \<Rightarrow> None)"

definition message_in_group :: "uuid \<Rightarrow> uuid \<Rightarrow> db \<Rightarrow> bool" where
  "message_in_group groupId messageId d \<longleftrightarrow>
     List.find (\<lambda>m. ms_id m = as_uuid messageId \<and> ms_groupId m = as_uuid groupId) (db_messages d) \<noteq> None"

text \<open>\<open>deleteMany\<close>: its count is the test whether the reaction was there.\<close>

definition toggle_remove :: "uuid \<Rightarrow> uuid \<Rightarrow> string \<Rightarrow> db \<Rightarrow> nat \<times> db" where
  "toggle_remove messageId userId emoji d =
     db_delete_reactions (\<lambda>r. rx_messageId r = as_uuid messageId \<and> rx_userId r = userId \<and> rx_emoji r = emoji) d"

text \<open>The insert; a P2002 means that a concurrent request was faster, and is taken as success.\<close>

definition toggle_add :: "uuid \<Rightarrow> time \<Rightarrow> uuid \<Rightarrow> uuid \<Rightarrow> string \<Rightarrow> db \<Rightarrow> db \<times> exn option" where
  "toggle_add rid now messageId userId emoji d =
     (case db_create_reaction \<lparr>rx_id = rid, rx_messageId = as_uuid messageId, rx_userId = userId,
              rx_emoji = emoji, rx_createdAt = now\<rparr> d of
        Inr d1 \<Rightarrow> (d1, None)
      | Inl (P2002 _) \<Rightarrow> (d, None)
      | Inl e \<Rightarrow> (d, Some (PrismaExn e)))"

definition toggle_finish ::
  "uuid \<Rightarrow> uuid \<Rightarrow> db \<times> exn option \<Rightarrow> db \<times> app_event list \<times> (exn + (string \<times> uuid) list)" where
  "toggle_finish groupId messageId p = (case p of
     (d, Some e) \<Rightarrow> (d, [], Inl e)
   | (d, None) \<Rightarrow> (let reactions = reactions_of d (as_uuid messageId)
        in (d, [REACTION_CHANGED groupId messageId reactions], Inr reactions)))"

definition toggle ::
  "uuid \<Rightarrow> time \<Rightarrow> uuid \<Rightarrow> uuid \<Rightarrow> uuid \<Rightarrow> string \<Rightarrow> db
    \<Rightarrow> db \<times> app_event list \<times> (exn + (string \<times> uuid) list)" where
  "toggle rid now groupId messageId userId emoji d =
     (if \<not> message_in_group groupId messageId d then (d, [], Inl (not_found ''Message not found''))
      else case toggle_remove messageId userId emoji d of
          (removed, d1) \<Rightarrow> toggle_finish groupId messageId
             (if removed = 0 then toggle_add rid now messageId userId emoji d1 else (d1, None)))"

definition ctl_toggle ::
  "(string \<Rightarrow> bool) \<Rightarrow> uuid \<Rightarrow> time \<Rightarrow> auth_user option \<Rightarrow> uuid \<Rightarrow> uuid \<Rightarrow> jsval \<Rightarrow> db
    \<Rightarrow> db \<times> app_event list \<times> (exn + (string \<times> uuid) list)" where
  "ctl_toggle single_emoji rid now user groupId messageId emoji d = guarded_write user groupId d (\<lambda>u g.
     case parse_uuid_pipe messageId of Inl e \<Rightarrow> (d, [], Inl e)
     | Inr m \<Rightarrow> (case toggle_reaction_dto single_emoji emoji of
         None \<Rightarrow> (d, [], Inl validation_failed) | Some s \<Rightarrow> toggle rid now g m u s d))"

section \<open>The set of reactions\<close>

definition reacted :: "db \<Rightarrow> uuid \<times> uuid \<times> string \<Rightarrow> bool" where
  "reacted d x \<longleftrightarrow> (\<exists>r \<in> set (db_reactions d). x = (rx_messageId r, rx_userId r, rx_emoji r))"

lemma toggle_remove_reacted:
  assumes "toggle_remove m u e d = (n, d1)"
  shows "n \<noteq> 0 \<longleftrightarrow> reacted d (as_uuid m, u, e)"
    and "reacted d1 x \<longleftrightarrow> reacted d x \<and> x \<noteq> (as_uuid m, u, e)"
    and "\<exists>rs. d1 = d\<lparr>db_reactions := rs\<rparr>"
    and "n = 0 \<Longrightarrow> d1 = d"
proof -
  have n: "n = count_where (\<lambda>r. rx_messageId r = as_uuid m \<and> rx_userId r = u \<and> rx_emoji r = e) (db_reactions d)"
    and d1: "d1 = d\<lparr>db_reactions := delete_where (\<lambda>r. rx_messageId r = as_uuid m \<and> rx_userId r = u \<and> rx_emoji r = e)
        (db_reactions d)\<rparr>"
    using assms by (simp_all add: toggle_remove_def db_delete_reactions_def)
  show "n \<noteq> 0 \<longleftrightarrow> reacted d (as_uuid m, u, e)"
    by (force simp: n reacted_def)
  show "reacted d1 x \<longleftrightarrow> reacted d x \<and> x \<noteq> (as_uuid m, u, e)"
    by (auto simp: d1 reacted_def row_simps)
  show "\<exists>rs. d1 = d\<lparr>db_reactions := rs\<rparr>" using d1 by blast
  show "d1 = d" if "n = 0"
  proof -
    have "delete_where (\<lambda>r. rx_messageId r = as_uuid m \<and> rx_userId r = u \<and> rx_emoji r = e) (db_reactions d) = db_reactions d"
      using that by (auto simp: n delete_where_def filter_id_conv)
    then show ?thesis by (simp add: d1)
  qed
qed

lemma toggle_add_reacted:
  assumes run: "toggle_add rid now m u e d = (d1, None)" and fresh: "\<forall>r \<in> set (db_reactions d). rx_id r \<noteq> rid"
  shows "reacted d1 x \<longleftrightarrow> reacted d x \<or> x = (as_uuid m, u, e)" and "\<exists>rs. d1 = d\<lparr>db_reactions := rs\<rparr>"
proof -
  let ?r = "\<lparr>rx_id = rid, rx_messageId = as_uuid m, rx_userId = u, rx_emoji = e, rx_createdAt = now\<rparr>"
  consider (ins) "d1 = d\<lparr>db_reactions := db_reactions d @ [?r]\<rparr>"
    | (dup) "d1 = d" "\<exists>a \<in> set (db_reactions d). reaction_clash ?r a"
    using run by (auto simp: toggle_add_def db_create_reaction_def insert_row_def list_ex_iff
        split: if_splits sum.splits prisma_error.splits)
  then show "reacted d1 x \<longleftrightarrow> reacted d x \<or> x = (as_uuid m, u, e)"
  proof cases
    case ins
    then show ?thesis by (auto simp: reacted_def)
  next
    case dup
    then have "reacted d (as_uuid m, u, e)"
      using fresh by (auto simp: reacted_def reaction_clash_def)
    with dup show ?thesis by auto
  qed
  show "\<exists>rs. d1 = d\<lparr>db_reactions := rs\<rparr>"
    using run by (auto simp: toggle_add_def db_create_reaction_def
        split: if_splits sum.splits prisma_error.splits option.splits intro: exI [of _ "db_reactions d"])
qed

lemma message_in_group_reactions [simp]:
  "message_in_group g m (d\<lparr>db_reactions := rs\<rparr>) = message_in_group g m d"
  by (simp add: message_in_group_def)

text \<open>
  A toggle flips one reaction: the caller's emoji on this message is there afterwards if and only
  if it was not before, every other reaction and every other table is untouched, and the broadcast and
  the answer are the message's new set. So two toggles in a row restore the set of reactions.
\<close>

lemma toggle_flips_one_reaction:
  assumes run: "toggle rid now g m u e d = (d1, evs, Inr rs)"
    and fresh: "\<forall>r \<in> set (db_reactions d). rx_id r \<noteq> rid"
    and again: "toggle rid' now' g m u e d1 = (d2, evs', Inr rs')"
    and fresh': "\<forall>r \<in> set (db_reactions d1). rx_id r \<noteq> rid'"
  shows "(\<forall>x. reacted d1 x \<longleftrightarrow> (if x = (as_uuid m, u, e) then \<not> reacted d x else reacted d x))
    \<and> (\<exists>rows. d1 = d\<lparr>db_reactions := rows\<rparr>)
    \<and> evs = [REACTION_CHANGED g m rs] \<and> rs = reactions_of d1 (as_uuid m)
    \<and> (\<forall>x. reacted d2 x \<longleftrightarrow> reacted d x)"
proof -
  have flip: "(reacted d' x \<longleftrightarrow> (if x = (as_uuid m, u, e) then \<not> reacted d0 x else reacted d0 x))
      \<and> (\<exists>rows. d' = d0\<lparr>db_reactions := rows\<rparr>) \<and> es = [REACTION_CHANGED g m ss] \<and> ss = reactions_of d' (as_uuid m)"
    if t: "toggle i t g m u e d0 = (d', es, Inr ss)" and f: "\<forall>r \<in> set (db_reactions d0). rx_id r \<noteq> i"
    for i t d0 d' es ss x
  proof -
    obtain n d3 where rem: "toggle_remove m u e d0 = (n, d3)" by force
    note r = toggle_remove_reacted [OF rem]
    from t rem have fin: "toggle_finish g m (if n = 0 then toggle_add i t m u e d3 else (d3, None)) = (d', es, Inr ss)"
      by (auto simp: toggle_def split: if_splits)
    then have es: "es = [REACTION_CHANGED g m ss] \<and> ss = reactions_of d' (as_uuid m)"
      by (auto simp: toggle_finish_def Let_def split: prod.splits option.splits)
    show ?thesis
    proof (cases "n = 0")
      case True
      with fin have add: "toggle_add i t m u e d0 = (d', None)"
        using r(4) by (auto simp: toggle_finish_def Let_def split: prod.splits option.splits)
      from toggle_add_reacted(1) [OF add f, of x] toggle_add_reacted(2) [OF add f] r(1) True es
      show ?thesis by auto
    next
      case False
      with fin have "d' = d3" by (auto simp: toggle_finish_def Let_def)
      with r(1,2,3) False es show ?thesis by auto
    qed
  qed
  have one: "reacted d1 x \<longleftrightarrow> (if x = (as_uuid m, u, e) then \<not> reacted d x else reacted d x)" for x
    by (rule conjunct1 [OF flip [OF run fresh]])
  have two: "reacted d2 x \<longleftrightarrow> (if x = (as_uuid m, u, e) then \<not> reacted d1 x else reacted d1 x)" for x
    by (rule conjunct1 [OF flip [OF again fresh']])
  have "reacted d2 x \<longleftrightarrow> reacted d x" for x
    using one [of x] two [of x] by (cases "x = (as_uuid m, u, e)") simp_all
  with one conjunct2 [OF flip [OF run fresh]] show ?thesis by blast
qed

text \<open>Example: Ann adds a plus to Bob's message and takes it back.\<close>

lemma toggle_flips_one_reaction_example:
  "\<exists>d1 d2 rs rs'. toggle (sample_id 13) 400 (sample_id 4) (sample_id 9) (sample_id 1) ''+'' sample_db
       = (d1, [REACTION_CHANGED (sample_id 4) (sample_id 9) rs], Inr rs)
     \<and> snd (snd (toggle (sample_id 14) 410 (sample_id 4) (sample_id 9) (sample_id 1) ''+'' d1)) = Inr rs'
     \<and> reacted d1 (sample_id 9, sample_id 1, ''+'')"
proof -
  let ?t = "toggle (sample_id 13) 400 (sample_id 4) (sample_id 9) (sample_id 1) ''+'' sample_db"
  have out: "case ?t of (d1, evs, r) \<Rightarrow> \<not> isl r \<and> list_all (\<lambda>r. rx_id r \<noteq> sample_id 14) (db_reactions d1)
      \<and> \<not> isl (snd (snd (toggle (sample_id 14) 410 (sample_id 4) (sample_id 9) (sample_id 1) ''+'' d1)))"
    by code_simp
  have ok: "list_all (\<lambda>r. rx_id r \<noteq> sample_id 13 \<and> (rx_messageId r, rx_userId r, rx_emoji r) \<noteq> (sample_id 9, sample_id 1, ''+''))
      (db_reactions sample_db)"
    by code_simp
  from out obtain d1 evs rs where run: "?t = (d1, evs, Inr rs)"
    and fresh: "list_all (\<lambda>r. rx_id r \<noteq> sample_id 14) (db_reactions d1)"
    and again: "\<not> isl (snd (snd (toggle (sample_id 14) 410 (sample_id 4) (sample_id 9) (sample_id 1) ''+'' d1)))"
    by (cases "?t"; cases "snd (snd ?t)") auto
  obtain d2 evs' rs' where again: "toggle (sample_id 14) 410 (sample_id 4) (sample_id 9) (sample_id 1) ''+'' d1
      = (d2, evs', Inr rs')"
    using again by (metis prod.collapse sum.collapse(2))
  have "\<not> reacted sample_db (sample_id 9, sample_id 1, ''+'')"
    using ok by (auto simp: reacted_def list_all_iff)
  moreover have "\<forall>r \<in> set (db_reactions sample_db). rx_id r \<noteq> sample_id 13"
    "\<forall>r \<in> set (db_reactions d1). rx_id r \<noteq> sample_id 14"
    using ok fresh by (simp_all add: list_all_iff)
  ultimately show ?thesis
    using toggle_flips_one_reaction [OF run _ again] run again by auto
qed

text \<open>
  A double tap never fails: when two requests for the same emoji interleave so that both find the
  reaction absent, both inserts are accepted, the second one by converging on the row of the first;
  the reaction is there, both answers and both broadcasts show the same set.
\<close>

lemma double_tap_converges:
  assumes absent: "\<not> reacted d (as_uuid m, u, e)" and there: "has_message d (as_uuid m)" "has_user d u"
    and fresh: "\<forall>r \<in> set (db_reactions d). rx_id r \<noteq> rid" "\<forall>r \<in> set (db_reactions d). rx_id r \<noteq> rid'"
  shows "\<exists>d1. toggle_remove m u e d = (0, d)
     \<and> toggle_add rid now m u e d = (d1, None) \<and> toggle_add rid' now' m u e d1 = (d1, None)
     \<and> reacted d1 (as_uuid m, u, e)
     \<and> toggle_finish g m (d1, None) = (d1, [REACTION_CHANGED g m (reactions_of d1 (as_uuid m))], Inr (reactions_of d1 (as_uuid m)))"
proof -
  let ?r = "\<lparr>rx_id = rid, rx_messageId = as_uuid m, rx_userId = u, rx_emoji = e, rx_createdAt = now\<rparr>"
  let ?d1 = "d\<lparr>db_reactions := db_reactions d @ [?r]\<rparr>"
  obtain n d0 where rem: "toggle_remove m u e d = (n, d0)" by force
  with toggle_remove_reacted(1,4) [OF rem] absent have "toggle_remove m u e d = (0, d)" by auto
  moreover have "\<not> list_ex (reaction_clash ?r) (db_reactions d)"
    using absent fresh(1) by (auto simp: list_ex_iff reaction_clash_def reacted_def)
  then have "toggle_add rid now m u e d = (?d1, None)"
    using there by (simp add: toggle_add_def db_create_reaction_def insert_row_def)
  moreover have "toggle_add rid' now' m u e ?d1 = (?d1, None)"
    by (simp add: toggle_add_def db_create_reaction_def insert_row_def reaction_clash_def)
  moreover have "reacted ?d1 (as_uuid m, u, e)" by (auto simp: reacted_def)
  ultimately show ?thesis
    by (intro exI [of _ ?d1]) (simp add: toggle_finish_def Let_def)
qed

text \<open>Example: Cy taps a plus on Ann's message twice.\<close>

lemma double_tap_converges_example:
  "\<exists>d1. toggle_add (sample_id 13) 400 (sample_id 8) (sample_id 3) ''+'' sample_db = (d1, None)
     \<and> toggle_add (sample_id 14) 400 (sample_id 8) (sample_id 3) ''+'' d1 = (d1, None)
     \<and> reacted d1 (sample_id 8, sample_id 3, ''+'')"
proof -
  have k: "list_all (\<lambda>r. (rx_messageId r, rx_userId r, rx_emoji r) \<noteq> (sample_id 8, sample_id 3, ''+''))
      (db_reactions sample_db)"
    "has_message sample_db (sample_id 8)" "has_user sample_db (sample_id 3)"
    "list_all (\<lambda>r. rx_id r \<noteq> sample_id 13) (db_reactions sample_db)"
    "list_all (\<lambda>r. rx_id r \<noteq> sample_id 14) (db_reactions sample_db)"
    by code_simp+
  then have "\<not> reacted sample_db (sample_id 8, sample_id 3, ''+'')"
    "\<forall>r \<in> set (db_reactions sample_db). rx_id r \<noteq> sample_id 13"
    "\<forall>r \<in> set (db_reactions sample_db). rx_id r \<noteq> sample_id 14"
    by (auto simp: reacted_def list_all_iff)
  from double_tap_converges [where m = "sample_id 8", unfolded as_uuid_sample, OF this(1) k(2,3) this(2,3), of 400 400] show ?thesis by blast
qed

section \<open>Invariant\<close>

lemma toggle_remove_wf: "db_wf d \<Longrightarrow> db_wf (snd (toggle_remove m u e d))"
  by (auto simp: toggle_remove_def intro: db_delete_reactions_wf [OF surjective_pairing])

lemma toggle_add_wf: "db_wf d \<Longrightarrow> db_wf (fst (toggle_add rid now m u e d))"
  by (auto simp: toggle_add_def split: sum.splits prisma_error.splits intro: db_create_reaction_wf)

lemma toggle_wf [inv_intros]: "db_wf d \<Longrightarrow> db_wf (fst (toggle rid now g m u e d))"
  using toggle_remove_wf [of d m u e] toggle_add_wf [of "snd (toggle_remove m u e d)" rid now m u e]
  by (auto simp: toggle_def toggle_finish_def Let_def split: prod.splits option.splits)

end
