(* ===== verification/Gateway.thy ===== *)
theory Gateway
  imports Reactions
begin

text \<open>
  The socket gateway (backend/src/chat): room names, the handshake, presence, the inbound handlers of
  \<open>ChatGateway\<close> and its outbound broadcasts. The sockets of all nodes are one list (the Redis adapter
  spans them), a socket carries the identity of its handshake and the set of its rooms; a handler
  returns the new sockets, what was delivered to which socket, and the acknowledgement. Payload fields
  have their declared types, text or absent; the dash in one error text is written as a hyphen.

  The lemmas show that rooms and group ids correspond, that a group's feed reaches the sockets of its
  members only, as an invariant of every execution of the routes and handlers, and the one race that
  breaks it when the membership check and the joining of the room are separated.
\<close>

section \<open>Room names\<close>

definition ROOM_PREFIX :: string where "ROOM_PREFIX = ''group:''"

definition room_for :: "uuid \<Rightarrow> string" where
  "room_for groupId = ROOM_PREFIX @ groupId"

definition group_id_from_room :: "string \<Rightarrow> uuid option" where
  "group_id_from_room room = (if take (length ROOM_PREFIX) room = ROOM_PREFIX
     then Some (drop (length ROOM_PREFIX) room) else None)"

lemma group_id_from_room_for [simp]: "group_id_from_room (room_for g) = Some g"
  by (simp add: group_id_from_room_def room_for_def ROOM_PREFIX_def)

lemma group_id_from_room_Some: "group_id_from_room r = Some g \<longleftrightarrow> r = room_for g"
proof
  assume "group_id_from_room r = Some g"
  then have "take (length ROOM_PREFIX) r = ROOM_PREFIX" "drop (length ROOM_PREFIX) r = g"
    by (simp_all add: group_id_from_room_def split: if_splits)
  then show "r = room_for g" unfolding room_for_def by (metis append_take_drop_id)
qed simp

lemma room_for_inj [simp]: "room_for g = room_for g' \<longleftrightarrow> g = g'"
  by (simp add: room_for_def)

section \<open>Sockets and server events\<close>

record socket =
  sk_id :: string
  sk_user :: uuid
  sk_email :: string
  sk_rooms :: "string list"

datatype server_event =
    EV_NEW_MESSAGE broadcast_message
  | EV_MESSAGE_UPDATED broadcast_message
  | EV_MEMBER_JOINED uuid joined_member
  | EV_MEMBER_LEFT uuid uuid
  | EV_OWNER_CHANGED uuid uuid uuid
  | EV_REACTION_UPDATED uuid uuid "(string \<times> uuid) list"
  | EV_READ_RECEIPT uuid uuid time
  | EV_USER_TYPING uuid uuid bool
  | EV_PRESENCE uuid "uuid list"

type_synonym deliveries = "(string \<times> server_event) list"

definition in_room :: "string \<Rightarrow> socket \<Rightarrow> bool" where
  "in_room room s \<longleftrightarrow> room \<in> set (sk_rooms s)"

text \<open>\<open>server.to(room).emit\<close>, and \<open>socket.to(room).emit\<close>, which leaves the sender out.\<close>

definition emit_to :: "string \<Rightarrow> server_event \<Rightarrow> socket list \<Rightarrow> deliveries" where
  "emit_to room ev ss = map (\<lambda>s. (sk_id s, ev)) (filter (in_room room) ss)"

definition emit_to_others :: "string \<Rightarrow> string \<Rightarrow> server_event \<Rightarrow> socket list \<Rightarrow> deliveries" where
  "emit_to_others sid room ev ss =
     map (\<lambda>s. (sk_id s, ev)) (filter (\<lambda>s. in_room room s \<and> sk_id s \<noteq> sid) ss)"

definition update_socket :: "string \<Rightarrow> (socket \<Rightarrow> socket) \<Rightarrow> socket list \<Rightarrow> socket list" where
  "update_socket sid f ss = map (\<lambda>s. if sk_id s = sid then f s else s) ss"

definition join_room :: "string \<Rightarrow> socket \<Rightarrow> socket" where
  "join_room room s = (if in_room room s then s else s\<lparr>sk_rooms := sk_rooms s @ [room]\<rparr>)"

definition leave_room :: "string \<Rightarrow> socket \<Rightarrow> socket" where
  "leave_room room s = s\<lparr>sk_rooms := filter (\<lambda>r. r \<noteq> room) (sk_rooms s)\<rparr>"

section \<open>Presence and the handshake\<close>

text \<open>A JavaScript \<open>Set\<close> keeps the first occurrence of each value.\<close>

definition js_unique :: "'a list \<Rightarrow> 'a list" where
  "js_unique xs = rev (remdups (rev xs))"

definition presence_broadcast :: "uuid \<Rightarrow> string option \<Rightarrow> socket list \<Rightarrow> deliveries" where
  "presence_broadcast groupId exclude ss =
     (let userIds = js_unique (filter (\<lambda>u. u \<noteq> []) (map sk_user
            (filter (\<lambda>s. in_room (room_for groupId) s \<and> Some (sk_id s) \<noteq> exclude) ss)))
      in emit_to (room_for groupId) (EV_PRESENCE groupId userIds) ss)"

text \<open>\<open>verify_token\<close> is the verification of the JWT; a failure carries the library's message.\<close>

definition ws_authenticate ::
  "(string \<Rightarrow> string + jwt_payload) \<Rightarrow> string option \<Rightarrow> string + auth_user" where
  "ws_authenticate verify_token token = (case token of
     None \<Rightarrow> Inl ''Unauthorized: missing token''
   | Some t \<Rightarrow> (if t = [] then Inl ''Unauthorized: missing token''
       else case verify_token t of
           Inl msg \<Rightarrow> Inl msg
         | Inr p \<Rightarrow> Inr \<lparr>au_userId = jp_sub p, au_email = jp_email p\<rparr>))"

text \<open>A connection that passes is in the private room that has the name of its id.\<close>

definition ws_connect ::
  "(string \<Rightarrow> string + jwt_payload) \<Rightarrow> string \<Rightarrow> string option \<Rightarrow> socket list \<Rightarrow> string + socket list" where
  "ws_connect verify_token sid token ss = (case ws_authenticate verify_token token of
     Inl msg \<Rightarrow> Inl msg
   | Inr u \<Rightarrow> Inr (ss @ [\<lparr>sk_id = sid, sk_user = au_userId u, sk_email = au_email u, sk_rooms = [sid]\<rparr>]))"

section \<open>Inbound handlers\<close>

datatype ack = Ack | AckMessage broadcast_message | AckError string | AckThrown exn

definition is_forbidden :: "exn \<Rightarrow> bool" where
  "is_forbidden e = (case e of HttpExn s _ _ \<Rightarrow> s = 403 | _ \<Rightarrow> False)"

definition ws_error :: "exn \<Rightarrow> ack" where
  "ws_error e = (if is_forbidden e then AckError NOT_A_MEMBER_MESSAGE else AckError ''Something went wrong'')"

text \<open>\<open>joinGroup\<close>: the membership check, and what happens when it has passed.\<close>

definition join_group_enter :: "socket \<Rightarrow> uuid \<Rightarrow> socket list \<Rightarrow> socket list \<times> deliveries \<times> ack" where
  "join_group_enter s groupId ss =
     (let ss1 = update_socket (sk_id s) (join_room (room_for groupId)) ss
      in (ss1, presence_broadcast groupId None ss1, Ack))"

definition join_group ::
  "socket \<Rightarrow> uuid option \<Rightarrow> db \<Rightarrow> socket list \<Rightarrow> socket list \<times> deliveries \<times> ack" where
  "join_group s groupId d ss =
     (let g = (case groupId of None \<Rightarrow> [] | Some x \<Rightarrow> x)
      in case assert_member (sk_user s) g d of
           Inl e \<Rightarrow> (ss, [], ws_error e)
         | Inr _ \<Rightarrow> join_group_enter s g ss)"

definition leave_group :: "socket \<Rightarrow> uuid option \<Rightarrow> socket list \<Rightarrow> socket list \<times> deliveries \<times> ack" where
  "leave_group s groupId ss = (case groupId of
     None \<Rightarrow> (ss, [], Ack)
   | Some g \<Rightarrow>
       (if g = [] then (ss, [], Ack)
        else let ss1 = update_socket (sk_id s) (leave_room (room_for g)) ss
             in (ss1, presence_broadcast g None ss1, Ack)))"

definition relay_typing :: "socket \<Rightarrow> uuid option \<Rightarrow> bool \<Rightarrow> socket list \<Rightarrow> deliveries" where
  "relay_typing s groupId typing ss = (case groupId of
     None \<Rightarrow> []
   | Some g \<Rightarrow> (if g = [] \<or> \<not> in_room (room_for g) s then []
       else emit_to_others (sk_id s) (room_for g) (EV_USER_TYPING g (sk_user s) typing) ss))"

definition send_message ::
  "uuid \<Rightarrow> time \<Rightarrow> socket \<Rightarrow> uuid option \<Rightarrow> string option \<Rightarrow> db \<Rightarrow> db \<times> app_event list \<times> ack" where
  "send_message mid now s groupId body d =
     (let g = (case groupId of None \<Rightarrow> [] | Some x \<Rightarrow> x);
          content = js_trim (case body of None \<Rightarrow> [] | Some c \<Rightarrow> c)
      in if content = [] \<or> MESSAGE_CONTENT_MAX_LENGTH < length content
         then (d, [], AckError (''Message must be 1-'' @ dec MESSAGE_CONTENT_MAX_LENGTH @ '' characters''))
         else case assert_member (sk_user s) g d of
             Inl e \<Rightarrow> (d, [], ws_error e)
           | Inr _ \<Rightarrow> (case messages_create mid now g (sk_user s) content d of
               (d1, evs, Inl e) \<Rightarrow> (d1, evs, AckThrown e)
             | (d1, evs, Inr message) \<Rightarrow> (d1, evs, AckMessage message)))"

text \<open>\<open>disconnecting\<close>: presence of each of its groups without it; then the socket is gone.\<close>

definition ws_disconnect :: "socket \<Rightarrow> socket list \<Rightarrow> socket list \<times> deliveries" where
  "ws_disconnect s ss =
     (filter (\<lambda>x. sk_id x \<noteq> sk_id s) ss,
      concat (map (\<lambda>room. case group_id_from_room room of
                None \<Rightarrow> [] | Some g \<Rightarrow> (if g = [] then [] else presence_broadcast g (Some (sk_id s)) ss))
             (sk_rooms s)))"

section \<open>Outbound broadcasts\<close>

text \<open>The eviction: every socket of the user who left is taken out of the room.\<close>

definition evict :: "uuid \<Rightarrow> uuid \<Rightarrow> socket list \<Rightarrow> socket list" where
  "evict groupId userId ss =
     map (\<lambda>s. if in_room (room_for groupId) s \<and> sk_user s = userId then leave_room (room_for groupId) s else s) ss"

definition on_event :: "app_event \<Rightarrow> socket list \<Rightarrow> socket list \<times> deliveries" where
  "on_event ev ss = (case ev of
     MESSAGE_CREATED m \<Rightarrow> (ss, emit_to (room_for (bm_groupId m)) (EV_NEW_MESSAGE m) ss)
   | MESSAGE_UPDATED m \<Rightarrow> (ss, emit_to (room_for (bm_groupId m)) (EV_MESSAGE_UPDATED m) ss)
   | MEMBER_JOINED g m \<Rightarrow> (ss, emit_to (room_for g) (EV_MEMBER_JOINED g m) ss)
   | MEMBER_LEFT g u \<Rightarrow>
       (let ss1 = evict g u ss
        in (ss1, emit_to (room_for g) (EV_MEMBER_LEFT g u) ss @ presence_broadcast g None ss1))
   | OWNER_CHANGED g old new \<Rightarrow> (ss, emit_to (room_for g) (EV_OWNER_CHANGED g old new) ss)
   | REACTION_CHANGED g m rs \<Rightarrow> (ss, emit_to (room_for g) (EV_REACTION_UPDATED g m rs) ss)
   | READ_MARKED g u at \<Rightarrow> (ss, emit_to (room_for g) (EV_READ_RECEIPT g u at) ss))"

fun on_events :: "app_event list \<Rightarrow> socket list \<Rightarrow> socket list \<times> deliveries" where
  "on_events [] ss = (ss, [])"
| "on_events (ev # evs) ss = (case on_event ev ss of
     (ss1, out1) \<Rightarrow> (case on_events evs ss1 of (ss2, out2) \<Rightarrow> (ss2, out1 @ out2)))"

end
