(* ===== verification/Summaries.thy ===== *)
theory Summaries
  imports Queues Gateway Tokens
begin

text \<open>
  The summary pipeline (backend/src/summary, ai, notifications, messages/summary-messages.service.ts):
  the tick that fans out one flow per active group, and the five stages of a flow. A stage takes what
  its child returned, the store and the clock. The Gemini call and the enqueueing of a flow are
  arguments; the broadcast of the notification worker goes to the sockets of the gateway, whose Redis
  channels it shares.

  The lemmas show what one run of a flow does on every branch, that a summary is built of the right
  messages, and how the idempotency guard behaves from one tick to the next.
\<close>

section \<open>SummaryMessagesService and SummaryService\<close>

definition persist_ai_summary ::
  "uuid \<Rightarrow> time \<Rightarrow> uuid \<Rightarrow> string \<Rightarrow> db \<Rightarrow> db \<times> (exn + broadcast_message)" where
  "persist_ai_summary mid now groupId content d =
     (let row = new_message_row mid now (as_uuid groupId) None content AI_SUMMARY None
      in case db_create_message row d of
           Inl e \<Rightarrow> (d, Inl (PrismaExn e))
         | Inr d1 \<Rightarrow> (d1, Inr (message_select d1 row)))"

text \<open>The rows as selected: content and the sender's name, when there is a sender.\<close>

definition find_for_summary :: "uuid \<Rightarrow> time \<Rightarrow> db \<Rightarrow> (string option \<times> string) list" where
  "find_for_summary groupId since d =
     map (\<lambda>m. (map_option u_name (Option.bind (ms_senderId m) (\<lambda>s. find_user s d)), ms_content m))
       (sort_key ms_createdAt (filter (\<lambda>m. ms_groupId m = as_uuid groupId \<and> ms_type m = USER
          \<and> since \<le> ms_createdAt m \<and> ms_deletedAt m = None) (db_messages d)))"

definition has_summary_since :: "uuid \<Rightarrow> time \<Rightarrow> db \<Rightarrow> bool" where
  "has_summary_since groupId since d \<longleftrightarrow>
     count_where (\<lambda>m. ms_groupId m = as_uuid groupId \<and> ms_type m = AI_SUMMARY \<and> since \<le> ms_createdAt m)
       (db_messages d) > 0"

definition find_active_groups :: "time \<Rightarrow> db \<Rightarrow> uuid list" where
  "find_active_groups since d = map g_id (filter (\<lambda>g. list_ex (\<lambda>m. ms_groupId m = g_id g
     \<and> ms_type m = USER \<and> since \<le> ms_createdAt m) (db_messages d)) (db_groups d))"

section \<open>AiSummaryService\<close>

definition nl :: char where "nl = char_of (10 :: nat)"

definition SUMMARY_SYSTEM_PROMPT :: string where
  "SUMMARY_SYSTEM_PROMPT =
     ''You summarize a group chat from the last day. Produce a concise digest (2-4 sentences) '' @
     ''covering the key topics, any decisions, and open questions or action items. '' @
     ''Be neutral and factual. If there is nothing substantive, say so briefly.''"

definition TRANSCRIPT_UNKNOWN_SENDER :: string where
  "TRANSCRIPT_UNKNOWN_SENDER = ''Unknown''"

definition transcript_line :: "string \<times> string \<Rightarrow> string" where
  "transcript_line m = fst m @ '': '' @ snd m"

definition summary_user_prompt :: "string \<Rightarrow> string" where
  "summary_user_prompt transcript = ''Summarize this conversation:'' @ [nl, nl] @ transcript"

text \<open>\<open>generate_text\<close> is the model: system prompt and prompt to its text, or what the call throws.\<close>

definition summarize ::
  "(string \<Rightarrow> string \<Rightarrow> exn + string) \<Rightarrow> (string \<times> string) list \<Rightarrow> exn + string" where
  "summarize generate_text messages =
     (case generate_text SUMMARY_SYSTEM_PROMPT (summary_user_prompt (join_with [nl] (map transcript_line messages))) of
        Inl e \<Rightarrow> Inl e | Inr text' \<Rightarrow> Inr (js_trim text'))"

section \<open>The stages\<close>

datatype skip_reason = Exists | Empty | Blank

datatype fetch_result = FetchSkip skip_reason | Fetched uuid "(string \<times> string) list"
datatype generate_result = GenerateSkip skip_reason | Generated uuid string
datatype save_result = SaveSkip | Saved broadcast_message

text \<open>\<open>parse_date\<close> is \<open>new Date\<close> beyond the ISO form; an invalid date is refused by Prisma.\<close>

definition fetch_stage :: "(string \<Rightarrow> time option) \<Rightarrow> job_data \<Rightarrow> db \<Rightarrow> exn + fetch_result" where
  "fetch_stage parse_date data d =
     (case js_date parse_date (case jd_since data of Some s \<Rightarrow> s | None \<Rightarrow> ''undefined'') of
        None \<Rightarrow> Inl (PrismaExn (PrismaOther ''PrismaClientValidationError''))
      | Some since \<Rightarrow>
          (if has_summary_since (jd_groupId data) since d then Inr (FetchSkip Exists)
           else let rows = find_for_summary (jd_groupId data) since d
                in if rows = [] then Inr (FetchSkip Empty)
                   else Inr (Fetched (jd_groupId data)
                     (map (\<lambda>(sender, content). (case sender of Some n \<Rightarrow> n | None \<Rightarrow> TRANSCRIPT_UNKNOWN_SENDER,
                        content)) rows))))"

definition generate_stage ::
  "(string \<Rightarrow> string \<Rightarrow> exn + string) \<Rightarrow> fetch_result list \<Rightarrow> exn + generate_result" where
  "generate_stage generate_text children = (case first_child_value children of
     None \<Rightarrow> Inr (GenerateSkip Empty)
   | Some (FetchSkip r) \<Rightarrow> Inr (GenerateSkip r)
   | Some (Fetched g transcript) \<Rightarrow> (case summarize generate_text transcript of
         Inl e \<Rightarrow> Inl e
       | Inr summary \<Rightarrow> (if summary = [] then Inr (GenerateSkip Blank) else Inr (Generated g summary))))"

definition save_stage :: "uuid \<Rightarrow> time \<Rightarrow> generate_result list \<Rightarrow> db \<Rightarrow> db \<times> (exn + save_result)" where
  "save_stage mid now children d = (case first_child_value children of
     None \<Rightarrow> (d, Inr SaveSkip)
   | Some (GenerateSkip _) \<Rightarrow> (d, Inr SaveSkip)
   | Some (Generated g summary) \<Rightarrow> (case persist_ai_summary mid now g summary d of
         (d1, Inl e) \<Rightarrow> (d1, Inl e)
       | (d1, Inr message) \<Rightarrow> (d1, Inr (Saved message))))"

definition broadcast_new_message :: "broadcast_message \<Rightarrow> socket list \<Rightarrow> deliveries" where
  "broadcast_new_message m ss = emit_to (room_for (bm_groupId m)) (EV_NEW_MESSAGE m) ss"

definition publish_stage :: "save_result list \<Rightarrow> socket list \<Rightarrow> deliveries \<times> bool" where
  "publish_stage children ss = (case first_child_value children of
     None \<Rightarrow> ([], False)
   | Some SaveSkip \<Rightarrow> ([], False)
   | Some (Saved m) \<Rightarrow> (broadcast_new_message m ss, True))"

definition group_summary_stage :: "bool list \<Rightarrow> bool" where
  "group_summary_stage children = (case first_child_value children of None \<Rightarrow> False | Some published \<Rightarrow> published)"

text \<open>The job names that the worker of the summary queue answers to; others complete without work.\<close>

datatype summary_handler = HandleFetch | HandleSave | HandleRoot | HandleNothing

definition summary_process :: "string \<Rightarrow> summary_handler" where
  "summary_process name = (if name = JOB_FETCH then HandleFetch else if name = JOB_SAVE then HandleSave
     else if name = JOB_GROUP_SUMMARY then HandleRoot else HandleNothing)"

section \<open>The tick\<close>

text \<open>
  Which flows a tick creates. \<open>add\<close> tells whether the enqueueing of a flow succeeds; a failure is logged
  and the next group follows.
\<close>

definition fan_out_summaries :: "(flow_job \<Rightarrow> bool) \<Rightarrow> int \<Rightarrow> time \<Rightarrow> db \<Rightarrow> flow_job list" where
  "fan_out_summaries add windowMs now d =
     (let since = now - windowMs; bucketStart = now div windowMs * windowMs
      in filter add (map (\<lambda>g. build_summary_flow g since bucketStart) (find_active_groups since d)))"

datatype tick_outcome = FlowsAdded "flow_job list" | Purged nat | Ignored

definition scheduler_process ::
  "(flow_job \<Rightarrow> bool) \<Rightarrow> int \<Rightarrow> time \<Rightarrow> time \<Rightarrow> string \<Rightarrow> db \<Rightarrow> db \<times> tick_outcome" where
  "scheduler_process add windowMs graceMs now name d =
     (if name = JOB_SCHEDULER_TICK then (d, FlowsAdded (fan_out_summaries add windowMs now d))
      else if name = JOB_TOKEN_PURGE then (case purge_expired graceMs now d of (d1, n) \<Rightarrow> (d1, Purged n))
      else (d, Ignored))"

text \<open>The repeatable jobs in Redis: id to interval and job name; an upsert replaces the entry of its id.\<close>

definition on_application_bootstrap ::
  "int \<Rightarrow> int \<Rightarrow> (string \<rightharpoonup> int \<times> string) \<Rightarrow> (string \<rightharpoonup> int \<times> string)" where
  "on_application_bootstrap every purgeEvery schedulers =
     schedulers(SUMMARY_SCHEDULER_ID \<mapsto> (every, JOB_SCHEDULER_TICK),
                TOKEN_PURGE_SCHEDULER_ID \<mapsto> (purgeEvery, JOB_TOKEN_PURGE))"

text \<open>\<open>POST /summaries/run\<close>: one more tick on the scheduler queue.\<close>

definition ctl_summaries_run :: "(string \<times> string) list \<Rightarrow> (string \<times> string) list \<times> bool" where
  "ctl_summaries_run queued = (queued @ [(SCHEDULER_QUEUE, JOB_SCHEDULER_TICK)], True)"

section \<open>A whole flow\<close>

text \<open>
  One run of a flow in the order of its stages, without retries: each stage reads what the one before
  returned. The clocks are those of the worker that saves.
\<close>

definition run_summary_flow ::
  "(string \<Rightarrow> string \<Rightarrow> exn + string) \<Rightarrow> job_data \<Rightarrow> uuid \<Rightarrow> time \<Rightarrow> socket list \<Rightarrow> db
    \<Rightarrow> db \<times> deliveries \<times> (exn + bool)" where
  "run_summary_flow generate_text data mid now ss d = (case fetch_stage (\<lambda>_. None) data d of
     Inl e \<Rightarrow> (d, [], Inl e)
   | Inr fetched \<Rightarrow> (case generate_stage generate_text [fetched] of
       Inl e \<Rightarrow> (d, [], Inl e)
     | Inr generated \<Rightarrow> (case save_stage mid now [generated] d of
         (d1, Inl e) \<Rightarrow> (d1, [], Inl e)
       | (d1, Inr saved) \<Rightarrow> (case publish_stage [saved] ss of
           (out, published) \<Rightarrow> (d1, out, Inr (group_summary_stage [published]))))))"

section \<open>Properties\<close>

text \<open>The row a summary becomes, and the messages it is built of.\<close>

definition summary_row :: "uuid \<Rightarrow> time \<Rightarrow> uuid \<Rightarrow> string \<Rightarrow> message_row" where
  "summary_row mid now groupId content = new_message_row mid now (as_uuid groupId) None content AI_SUMMARY None"

definition window_data :: "uuid \<Rightarrow> time \<Rightarrow> job_data" where
  "window_data groupId since = \<lparr>jd_groupId = groupId, jd_since = Some (to_iso since)\<rparr>"

definition prompt_of :: "uuid \<Rightarrow> time \<Rightarrow> db \<Rightarrow> string" where
  "prompt_of g since d = summary_user_prompt (join_with [nl] (map (\<lambda>(sender, content).
     transcript_line (case sender of Some n \<Rightarrow> n | None \<Rightarrow> TRANSCRIPT_UNKNOWN_SENDER, content))
     (find_for_summary g since d)))"

lemma persist_ai_summary_ok:
  assumes "has_group d (as_uuid g)" and "\<forall>m \<in> set (db_messages d). ms_id m \<noteq> mid"
  shows "persist_ai_summary mid now g c d = (let d1 = d\<lparr>db_messages := db_messages d @ [summary_row mid now g c]\<rparr>
    in (d1, Inr (message_select d1 (summary_row mid now g c))))"
proof -
  have "\<not> list_ex (message_clash (summary_row mid now g c)) (db_messages d)"
    using assms(2) by (auto simp: list_ex_iff message_clash_def summary_row_def new_message_row_def)
  then have "db_create_message (summary_row mid now g c) d
      = Inr (d\<lparr>db_messages := db_messages d @ [summary_row mid now g c]\<rparr>)"
    using assms(1) by (simp add: db_create_message_def insert_row_def summary_row_def new_message_row_def opt_user_def)
  then show ?thesis by (simp add: persist_ai_summary_def summary_row_def Let_def)
qed

lemma fetch_window:
  assumes "four_digit_year since"
  shows "fetch_stage pd (window_data g since) d = (if has_summary_since g since d then Inr (FetchSkip Exists)
    else if find_for_summary g since d = [] then Inr (FetchSkip Empty)
    else Inr (Fetched g (map (\<lambda>(sender, content). (case sender of Some n \<Rightarrow> n | None \<Rightarrow> TRANSCRIPT_UNKNOWN_SENDER,
         content)) (find_for_summary g since d))))"
  using parse_to_iso [OF assms] by (simp add: fetch_stage_def window_data_def js_date_def Let_def)

lemma generate_fetched:
  "generate_stage gt [Fetched g (map (\<lambda>(sender, content). (case sender of Some n \<Rightarrow> n
       | None \<Rightarrow> TRANSCRIPT_UNKNOWN_SENDER, content)) (find_for_summary g since d))] =
   (case gt SUMMARY_SYSTEM_PROMPT (prompt_of g since d) of Inl e \<Rightarrow> Inl e
    | Inr t \<Rightarrow> (if js_trim t = [] then Inr (GenerateSkip Blank) else Inr (Generated g (js_trim t))))"
proof -
  let ?named = "map (\<lambda>(sender, content). (case sender of Some n \<Rightarrow> n | None \<Rightarrow> TRANSCRIPT_UNKNOWN_SENDER, content))
      (find_for_summary g since d)"
  have "map transcript_line ?named = map (\<lambda>(sender, content). transcript_line (case sender of Some n \<Rightarrow> n
       | None \<Rightarrow> TRANSCRIPT_UNKNOWN_SENDER, content)) (find_for_summary g since d)"
    by (auto split: prod.splits)
  then have "summary_user_prompt (join_with [nl] (map transcript_line ?named)) = prompt_of g since d"
    by (simp only: prompt_of_def)
  then have s: "summarize gt ?named = (case gt SUMMARY_SYSTEM_PROMPT (prompt_of g since d) of
      Inl e \<Rightarrow> Inl e | Inr t \<Rightarrow> Inr (js_trim t))"
    by (simp only: summarize_def)
  show ?thesis
    by (cases "gt SUMMARY_SYSTEM_PROMPT (prompt_of g since d)")
      (simp_all add: generate_stage_def first_child_value_def s)
qed

lemma skip_generates_skip: "generate_stage gt [FetchSkip r] = Inr (GenerateSkip r)"
  by (simp add: generate_stage_def first_child_value_def)

lemma skip_saves_nothing: "save_stage mid now [GenerateSkip r] d = (d, Inr SaveSkip)"
  by (simp add: save_stage_def first_child_value_def)

lemma publish_skip: "publish_stage [SaveSkip] ss = ([], False)"
  by (simp add: publish_stage_def first_child_value_def)

lemma root_reports: "group_summary_stage [b] = b"
  by (simp add: group_summary_stage_def first_child_value_def)

lemmas stage_skips = skip_generates_skip skip_saves_nothing publish_skip root_reports

text \<open>
  C33. What one run of a flow does. A window that has a summary, or no undeleted user message, ends
  without a call to the model, a write or a broadcast; so does a blank answer. A call that fails leaves
  the store alone and fails the flow. Otherwise the trimmed answer becomes one AI_SUMMARY message
  without sender, it is broadcast to the group's room and nowhere else, and the root reports it.
\<close>

theorem flow_outcomes:
  assumes date: "four_digit_year since" and group: "has_group d (as_uuid g)"
    and fresh: "\<forall>m \<in> set (db_messages d). ms_id m \<noteq> mid"
  shows "run_summary_flow gt (window_data g since) mid now ss d =
    (if has_summary_since g since d \<or> find_for_summary g since d = [] then (d, [], Inr False)
     else case gt SUMMARY_SYSTEM_PROMPT (prompt_of g since d) of
         Inl e \<Rightarrow> (d, [], Inl e)
       | Inr t \<Rightarrow> (if js_trim t = [] then (d, [], Inr False)
           else let row = summary_row mid now g (js_trim t); d1 = d\<lparr>db_messages := db_messages d @ [row]\<rparr>
             in (d1, emit_to (room_for (as_uuid g)) (EV_NEW_MESSAGE (message_select d1 row)) ss, Inr True)))"
proof -
  have save: "save_stage mid now [Generated g c] d =
      (let row = summary_row mid now g c; d1 = d\<lparr>db_messages := db_messages d @ [row]\<rparr>
       in (d1, Inr (Saved (message_select d1 row))))" for c
    using persist_ai_summary_ok [OF group fresh, of now c]
    by (simp add: save_stage_def first_child_value_def Let_def)
  have publish: "publish_stage [Saved (message_select d1 (summary_row mid now g c))] ss =
      (emit_to (room_for (as_uuid g)) (EV_NEW_MESSAGE (message_select d1 (summary_row mid now g c))) ss, True)" for c d1
    by (simp add: publish_stage_def first_child_value_def broadcast_new_message_def message_select_def
        summary_row_def new_message_row_def)
  show ?thesis
    unfolding run_summary_flow_def fetch_window [OF date]
    by (auto simp: generate_fetched stage_skips save publish Let_def split: sum.splits)
qed

definition sample_model :: "string \<Rightarrow> string \<Rightarrow> exn + string" where
  "sample_model system prompt = Inr ''  Ann and Bob said hello. ''"

text \<open>Witness for C33: the two messages of the sample group.\<close>

theorem flow_outcomes_witness:
  "\<exists>d1. run_summary_flow sample_model (window_data (sample_id 4) 200) (sample_id 12) 400 [] sample_db = (d1, [], Inr True)
     \<and> length (db_messages d1) = 3"
proof -
  have k: "has_group sample_db (as_uuid (sample_id 4))" "list_all (\<lambda>m. ms_id m \<noteq> sample_id 12) (db_messages sample_db)"
    "four_digit_year 200" "\<not> has_summary_since (sample_id 4) 200 sample_db"
    "find_for_summary (sample_id 4) 200 sample_db \<noteq> []" "js_trim ''  Ann and Bob said hello. '' \<noteq> []"
    "length (db_messages sample_db) = 2"
    by code_simp+
  then have "\<forall>m \<in> set (db_messages sample_db). ms_id m \<noteq> sample_id 12" by (simp add: list_all_iff)
  from flow_outcomes [OF k(3,1) this, of sample_model 400 "[]"] k(4-7) show ?thesis
    by (simp add: sample_model_def Let_def emit_to_def)
qed

text \<open>
  C34. Deleted text never reaches the model, nor does another group's, nor an earlier summary: changing
  what such messages say changes nothing of what the fetch hands to the model.
\<close>

theorem hidden_text_never_reaches_the_model:
  "fetch_stage pd data (d\<lparr>db_messages := map (\<lambda>m. if ms_deletedAt m = None \<and> ms_type m = USER
      \<and> ms_groupId m = as_uuid (jd_groupId data) then m else m\<lparr>ms_content := h m\<rparr>) (db_messages d)\<rparr>)
   = fetch_stage pd data d"
proof -
  let ?hide = "\<lambda>m. if ms_deletedAt m = None \<and> ms_type m = USER \<and> ms_groupId m = as_uuid (jd_groupId data)
      then m else m\<lparr>ms_content := h m\<rparr>"
  let ?d = "d\<lparr>db_messages := map ?hide (db_messages d)\<rparr>"
  have f: "filter (\<lambda>m. ms_groupId m = as_uuid (jd_groupId data) \<and> ms_type m = USER \<and> since \<le> ms_createdAt m
        \<and> ms_deletedAt m = None) (map ?hide ms)
      = filter (\<lambda>m. ms_groupId m = as_uuid (jd_groupId data) \<and> ms_type m = USER \<and> since \<le> ms_createdAt m
        \<and> ms_deletedAt m = None) ms" for ms since
    by (induction ms) auto
  have c: "count_where (\<lambda>m. ms_groupId m = as_uuid (jd_groupId data) \<and> ms_type m = AI_SUMMARY \<and> since \<le> ms_createdAt m)
        (map ?hide ms)
      = count_where (\<lambda>m. ms_groupId m = as_uuid (jd_groupId data) \<and> ms_type m = AI_SUMMARY \<and> since \<le> ms_createdAt m) ms"
    for ms since
    by (induction ms) (auto simp: count_where_def)
  have "find_for_summary (jd_groupId data) since ?d = find_for_summary (jd_groupId data) since d" for since
    using f [of since "db_messages d"] by (simp add: find_for_summary_def find_user_def)
  moreover have "has_summary_since (jd_groupId data) since ?d = has_summary_since (jd_groupId data) since d" for since
    using c [of since "db_messages d"] by (simp only: has_summary_since_def) simp
  ultimately show ?thesis by (simp only: fetch_stage_def)
qed

lemma flow_saved:
  assumes run: "run_summary_flow gt (window_data g since) mid now ss d = (d1, out, Inr True)"
    and date: "four_digit_year since" and group: "has_group d (as_uuid g)"
    and fresh: "\<forall>m \<in> set (db_messages d). ms_id m \<noteq> mid"
  shows "\<exists>c. summary_row mid now g c \<in> set (db_messages d1)"
proof -
  let ?skip = "has_summary_since g since d \<or> find_for_summary g since d = []"
  note f = flow_outcomes [OF date group fresh, of gt now ss]
  have "\<not> ?skip" using run f by (auto simp del: find_for_summary_def)
  moreover obtain t where "gt SUMMARY_SYSTEM_PROMPT (prompt_of g since d) = Inr t" "js_trim t \<noteq> []"
    using run f by (cases "gt SUMMARY_SYSTEM_PROMPT (prompt_of g since d)") (auto split: if_splits)
  ultimately have "d1 = d\<lparr>db_messages := db_messages d @ [summary_row mid now g (js_trim t)]\<rparr>"
    using run f by (simp add: Let_def)
  then show ?thesis by auto
qed



text \<open>
  Saving is not idempotent. A save that is tried again after its row was written, as when its worker
  dies before the job completes, or the save of a second flow that passed the fetch before the first
  one saved, writes the summary a second time.
\<close>

lemma repeated_save_duplicates_the_summary:
  assumes group: "has_group d (as_uuid g)" and fresh: "\<forall>m \<in> set (db_messages d). ms_id m \<noteq> mid \<and> ms_id m \<noteq> mid'"
    and ids: "mid \<noteq> mid'"
  shows "\<exists>d1 d2 m1 m2. save_stage mid now [Generated g c] d = (d1, Inr (Saved m1))
    \<and> save_stage mid' now' [Generated g c] d1 = (d2, Inr (Saved m2))
    \<and> bm_content m1 = c \<and> bm_content m2 = c
    \<and> db_messages d2 = db_messages d @ [summary_row mid now g c, summary_row mid' now' g c]"
proof -
  let ?d1 = "d\<lparr>db_messages := db_messages d @ [summary_row mid now g c]\<rparr>"
  have f1: "\<forall>m \<in> set (db_messages d). ms_id m \<noteq> mid" using fresh by blast
  have f2: "\<forall>m \<in> set (db_messages ?d1). ms_id m \<noteq> mid'"
    using fresh ids by (auto simp: summary_row_def new_message_row_def)
  have g2: "has_group ?d1 (as_uuid g)" using group by simp
  show ?thesis
    using persist_ai_summary_ok [OF group f1, of now c] persist_ai_summary_ok [OF g2 f2, of now' c]
    by (simp add: save_stage_def first_child_value_def Let_def message_select_def)
      (simp add: summary_row_def new_message_row_def)
qed

text \<open>Example: a digest of the sample group is saved twice.\<close>

lemma repeated_save_duplicates_the_summary_example:
  "\<exists>d1 d2 m1 m2. save_stage (sample_id 12) 400 [Generated (sample_id 4) ''digest''] sample_db = (d1, Inr (Saved m1))
     \<and> save_stage (sample_id 13) 410 [Generated (sample_id 4) ''digest''] d1 = (d2, Inr (Saved m2))
     \<and> length (db_messages d2) = 4"
proof -
  have k: "has_group sample_db (as_uuid (sample_id 4))"
    "list_all (\<lambda>m. ms_id m \<noteq> sample_id 12 \<and> ms_id m \<noteq> sample_id 13) (db_messages sample_db)"
    "sample_id 12 \<noteq> sample_id 13" "length (db_messages sample_db) = 2"
    by code_simp+
  then have "\<forall>m \<in> set (db_messages sample_db). ms_id m \<noteq> sample_id 12 \<and> ms_id m \<noteq> sample_id 13"
    by (simp add: list_all_iff)
  from repeated_save_duplicates_the_summary [OF k(1) this k(3), of 400 "''digest''" 410] k(4) show ?thesis by force
qed

text \<open>
  A tick creates one flow for each group that has a user message in the window, and for no other;
  a flow that cannot be enqueued takes no other down with it. A second tick in the same bucket of time
  builds flows with the very same job ids.
\<close>

lemma tick_covers_the_active_groups:
  assumes wf: "db_wf d"
  shows "(\<forall>g. g \<in> set (map (\<lambda>f. jd_groupId (fj_data f)) (fan_out_summaries add W now d)) \<longleftrightarrow>
       has_group d g \<and> (\<exists>m \<in> set (db_messages d). ms_groupId m = g \<and> ms_type m = USER \<and> now - W \<le> ms_createdAt m)
       \<and> add (build_summary_flow g (now - W) (now div W * W)))
    \<and> distinct (map (\<lambda>f. jd_groupId (fj_data f)) (fan_out_summaries add W now d))
    \<and> (\<forall>f \<in> set (fan_out_summaries add W now d). \<forall>now'. now' div W = now div W \<longrightarrow>
         map (\<lambda>j. jo_jobId (fj_opts j)) (run_order f)
       = map (\<lambda>j. jo_jobId (fj_opts j))
           (run_order (build_summary_flow (jd_groupId (fj_data f)) (now' - W) (now' div W * W))))"
proof -
  have g: "jd_groupId (fj_data (build_summary_flow i s b)) = i" for i s b
    by (simp add: build_summary_flow_def Let_def)
  have "distinct (map g_id (db_groups d))"
  proof -
    have clash: "no_clash group_clash (db_groups d)" using wf by (simp add: db_wf_def keys_ok_def)
    have "inj_on g_id (set (db_groups d))"
      using groups.same_row [OF clash] by (auto simp: inj_on_def group_clash_def)
    with groups.distinct_rows [OF clash] show ?thesis by (simp add: distinct_map)
  qed
  then have active: "distinct (find_active_groups (now - W) d)"
    by (simp add: find_active_groups_def distinct_map_filter)
  have flows: "map (\<lambda>f. jd_groupId (fj_data f)) (filter add (map (\<lambda>i. build_summary_flow i s b) is))
      = filter (\<lambda>i. add (build_summary_flow i s b)) is" for s b "is"
    by (induction "is") (simp_all add: g)
  have "set (find_active_groups (now - W) d) = {i. has_group d i \<and> (\<exists>m \<in> set (db_messages d). ms_groupId m = i
      \<and> ms_type m = USER \<and> now - W \<le> ms_createdAt m)}"
    by (auto simp: find_active_groups_def has_group_def list_ex_iff)
  moreover have "map (\<lambda>j. jo_jobId (fj_opts j)) (run_order (build_summary_flow i s b))
      = map (\<lambda>j. jo_jobId (fj_opts j)) (run_order (build_summary_flow i s' b))" for i s s' b
    by (simp add: build_summary_flow_def Let_def)
  ultimately show ?thesis
    using active by (auto simp: fan_out_summaries_def Let_def flows g)
qed

text \<open>Example: the sample group was active in the window that ends at 400.\<close>

lemma tick_covers_the_active_groups_example:
  "sample_id 4 \<in> set (map (\<lambda>f. jd_groupId (fj_data f)) (fan_out_summaries (\<lambda>_. True) 200 400 sample_db))"
proof -
  have "has_group sample_db (sample_id 4)"
    "list_ex (\<lambda>m. ms_groupId m = sample_id 4 \<and> ms_type m = USER \<and> 400 - 200 \<le> ms_createdAt m) (db_messages sample_db)"
    by code_simp+
  with tick_covers_the_active_groups [OF sample_db_wf, of "\<lambda>_. True" 200 400] show ?thesis
    unfolding list_ex_iff by blast
qed

text \<open>
  The two repeatable jobs do not overwrite each other: after any boot both are registered, under
  different ids and with their own intervals, other entries are left alone, and booting again with the
  same intervals changes nothing. A job of any other name is ignored.
\<close>

lemma schedules_coexist:
  "(let s = on_application_bootstrap every purgeEvery schedulers in
      s SUMMARY_SCHEDULER_ID = Some (every, JOB_SCHEDULER_TICK)
    \<and> s TOKEN_PURGE_SCHEDULER_ID = Some (purgeEvery, JOB_TOKEN_PURGE)
    \<and> on_application_bootstrap every purgeEvery s = s)
   \<and> SUMMARY_SCHEDULER_ID \<noteq> TOKEN_PURGE_SCHEDULER_ID
   \<and> scheduler_process add W grace now ''something-else'' d = (d, Ignored)
   \<and> summary_process JOB_PUBLISH = HandleNothing"
proof -
  have "SUMMARY_SCHEDULER_ID \<noteq> TOKEN_PURGE_SCHEDULER_ID"
    by (simp add: SUMMARY_SCHEDULER_ID_def TOKEN_PURGE_SCHEDULER_ID_def)
  then show ?thesis
    by (simp add: on_application_bootstrap_def Let_def fun_upd_twist scheduler_process_def summary_process_def
        JOB_SCHEDULER_TICK_def JOB_TOKEN_PURGE_def job_names)
qed

end
