(* ===== verification/Health.thy ===== *)
theory Health
  imports HttpErrors
begin

text \<open>
  Liveness and readiness (backend/src/health). A dependency call either settles after some
  milliseconds or never does; \<open>probe\<close> races it against the timer. A call that settles in the very
  millisecond of the timeout counts as late. The two probes run in parallel, so a check takes as long
  as the slower one.

  The lemmas show that readiness is answered within the timeout, whatever the dependencies do, and
  exactly what it answers.
\<close>

definition DEPENDENCY_CHECK_TIMEOUT_MS :: nat where
  "DEPENDENCY_CHECK_TIMEOUT_MS = 2000"

datatype dependency_call = Resolves nat | Rejects nat string | Pending

datatype check_state = Up | Down

record readiness_report =
  rr_database :: check_state
  rr_redis :: check_state

text \<open>The first of the two promises to settle, and when.\<close>

definition race_timeout :: "string \<Rightarrow> dependency_call \<Rightarrow> nat \<times> (string + unit)" where
  "race_timeout name run =
     (let timed_out = (DEPENDENCY_CHECK_TIMEOUT_MS, Inl (name @ '' check timed out''))
      in case run of
           Resolves t \<Rightarrow> (if t < DEPENDENCY_CHECK_TIMEOUT_MS then (t, Inr ()) else timed_out)
         | Rejects t msg \<Rightarrow> (if t < DEPENDENCY_CHECK_TIMEOUT_MS then (t, Inl msg) else timed_out)
         | Pending \<Rightarrow> timed_out)"

text \<open>The state, the time taken and the lines logged (the dash of the log line is a hyphen here).\<close>

definition probe :: "string \<Rightarrow> dependency_call \<Rightarrow> check_state \<times> nat \<times> string list" where
  "probe name run = (case race_timeout name run of
     (t, Inr _) \<Rightarrow> (Up, t, [])
   | (t, Inl msg) \<Rightarrow> (Down, t, [''readiness: '' @ name @ '' is down - '' @ msg]))"

definition health_check ::
  "dependency_call \<Rightarrow> dependency_call \<Rightarrow> readiness_report \<times> nat \<times> string list" where
  "health_check database redis = (case (probe ''database'' database, probe ''redis'' redis) of
     ((d, td, ld), (r, tr, lr)) \<Rightarrow> (\<lparr>rr_database = d, rr_redis = r\<rparr>, max td tr, ld @ lr))"

definition ctl_live :: string where
  "ctl_live = ''ok''"

definition down_names :: "readiness_report \<Rightarrow> string list" where
  "down_names report = map fst (filter (\<lambda>(_, state). state = Down)
     [(''database'', rr_database report), (''redis'', rr_redis report)])"

definition ctl_ready :: "dependency_call \<Rightarrow> dependency_call \<Rightarrow> nat \<times> (exn + string \<times> readiness_report)" where
  "ctl_ready database redis = (case health_check database redis of
     (report, t, _) \<Rightarrow> (t, if down_names report \<noteq> []
        then Inl (service_unavailable (''Not ready: '' @ join_with '', '' (down_names report)))
        else Inr (''ok'', report)))"

section \<open>Properties\<close>

definition in_time :: "dependency_call \<Rightarrow> bool" where
  "in_time run \<longleftrightarrow> (case run of Resolves t \<Rightarrow> t < 2000 | _ \<Rightarrow> False)"

lemma probe_cases:
  "fst (probe name run) = (if in_time run then Up else Down)" "fst (snd (probe name run)) \<le> 2000"
  "length (snd (snd (probe name run))) = (if in_time run then 0 else 1)"
  by (auto simp: probe_def race_timeout_def in_time_def DEPENDENCY_CHECK_TIMEOUT_MS_def Let_def
      split: dependency_call.splits)

text \<open>
  C40. Readiness answers within two seconds, even if both dependencies hang. It is 200 with both states up
  exactly when both calls succeed in time; otherwise the client gets a 503 SERVICE_UNAVAILABLE that
  names the failed dependencies, all of them, and one warning is logged for each.
\<close>

theorem readiness_is_prompt_and_exact:
  "fst (ctl_ready database redis) \<le> 2000
   \<and> (case snd (ctl_ready database redis) of
        Inr (status, report) \<Rightarrow> in_time database \<and> in_time redis \<and> status = ''ok''
          \<and> report = \<lparr>rr_database = Up, rr_redis = Up\<rparr>
      | Inl e \<Rightarrow> \<not> (in_time database \<and> in_time redis) \<and> build_error e =
          (503, \<lparr>er_code = SERVICE_UNAVAILABLE, er_message = ''Not ready: '' @
             (if in_time redis then ''database'' else if in_time database then ''redis'' else ''database, redis''),
             er_details = None\<rparr>))
   \<and> length (snd (snd (health_check database redis)))
       = (if in_time database then 0 else 1) + (if in_time redis then 0 else 1)"
proof -
  obtain d td ld r tr lr where p: "probe ''database'' database = (d, td, ld)" "probe ''redis'' redis = (r, tr, lr)"
    by (metis prod.collapse)
  with probe_cases [of "''database''" database] probe_cases [of "''redis''" redis]
  have "d = (if in_time database then Up else Down)" "r = (if in_time redis then Up else Down)"
    "td \<le> 2000" "tr \<le> 2000" "length ld = (if in_time database then 0 else 1)"
    "length lr = (if in_time redis then 0 else 1)"
    by simp_all
  with p show ?thesis
    by (simp add: ctl_ready_def health_check_def down_names_def build_error_def http_error_def
        from_http_exception_def code_for_status_def)
qed

end
