(* ===== verification/Feed.thy ===== *)
theory Feed
  imports Gateway
begin

text \<open>
  The running chat: HTTP routes and socket handlers over one store and one list of sockets, as a step
  relation \<open>chat_step\<close> labelled with the request. Each step is one handler with its broadcasts; ids
  drawn by the program are fresh and in lower case.

  The lemmas show that the message feed of a group reaches its members only: in every execution whose
  requests spell ids in lower case, every socket in a group's room belongs to a member. Spelling and
  timing are the two ways out of it, and both are shown as executions.
\<close>

section \<open>Requests\<close>

datatype http_req =
    CreateGroup uuid uuid time jsval
  | JoinGroup uuid time uuid
  | Leave uuid
  | MarkRead time uuid
  | Transfer uuid uuid
  | PostMessage uuid time uuid jsval
  | Upload uuid uuid time uuid "string option" "uploaded_file option"
  | Edit time uuid uuid jsval
  | Remove time uuid uuid
  | Toggle uuid time uuid uuid jsval

datatype chat_req =
    Http auth_user http_req
  | Connect string "string option"
  | Enter string "uuid option"
  | Exit string "uuid option"
  | Typing string "uuid option" bool
  | Send uuid time string "uuid option" "string option"
  | Disconnect string

text \<open>What the handlers ask of the outside: token verification, validators, file types, the bucket.\<close>

record chat_env =
  ce_verify :: "string \<Rightarrow> string + jwt_payload"
  ce_uuid :: "string \<Rightarrow> bool"
  ce_emoji :: "string \<Rightarrow> bool"
  ce_detect :: "string \<Rightarrow> string option"
  ce_storage :: storage_env

record chat_state =
  ch_db :: db
  ch_sockets :: "socket list"

definition written :: "db \<times> app_event list \<times> 'a \<Rightarrow> db \<times> app_event list" where
  "written p = (fst p, fst (snd p))"

fun http_write :: "chat_env \<Rightarrow> auth_user \<Rightarrow> http_req \<Rightarrow> db \<Rightarrow> db \<times> app_event list" where
  "http_write env u (CreateGroup gid mid now name) d = (fst (ctl_create gid mid now u name d), [])"
| "http_write env u (JoinGroup mid now g) d = written (ctl_join mid now u g d)"
| "http_write env u (Leave g) d = written (ctl_leave (Some u) g d)"
| "http_write env u (MarkRead now g) d = written (ctl_mark_read now (Some u) g d)"
| "http_write env u (Transfer g t) d = written (ctl_transfer (ce_uuid env) (Some u) g t d)"
| "http_write env u (PostMessage mid now g content) d = written (msg_create mid now (Some u) g content d)"
| "http_write env u (Upload draw mid now g caption file) d =
     written (snd (msg_upload (ce_detect env) (ce_storage env) draw mid now (Some u) g caption file d))"
| "http_write env u (Edit now g m content) d = written (msg_edit now (Some u) g m content d)"
| "http_write env u (Remove now g m) d = written (msg_remove now (Some u) g m d)"
| "http_write env u (Toggle rid now g m emoji) d = written (ctl_toggle (ce_emoji env) rid now (Some u) g m emoji d)"

text \<open>A new group's id is in lower case, and no socket is in its room yet.\<close>

fun drawn_fresh :: "http_req \<Rightarrow> socket list \<Rightarrow> bool" where
  "drawn_fresh (CreateGroup gid mid now name) ss \<longleftrightarrow>
     as_uuid gid = gid \<and> list_all (\<lambda>s. \<not> in_room (room_for gid) s) ss"
| "drawn_fresh _ ss \<longleftrightarrow> True"

definition find_socket :: "string \<Rightarrow> socket list \<Rightarrow> socket option" where
  "find_socket sid ss = List.find (\<lambda>s. sk_id s = sid) ss"

inductive chat_step :: "chat_env \<Rightarrow> chat_req \<Rightarrow> chat_state \<Rightarrow> deliveries \<Rightarrow> chat_state \<Rightarrow> bool"
  for env where
  http: "http_write env u r (ch_db st) = (d1, evs) \<Longrightarrow> drawn_fresh r (ch_sockets st) \<Longrightarrow>
     on_events evs (ch_sockets st) = (ss1, out) \<Longrightarrow>
     chat_step env (Http u r) st out \<lparr>ch_db = d1, ch_sockets = ss1\<rparr>"
| connect: "ws_connect (ce_verify env) sid token (ch_sockets st) = Inr ss1 \<Longrightarrow>
     find_socket sid (ch_sockets st) = None \<Longrightarrow> group_id_from_room sid = None \<Longrightarrow>
     chat_step env (Connect sid token) st [] (st\<lparr>ch_sockets := ss1\<rparr>)"
| enter: "find_socket sid (ch_sockets st) = Some s \<Longrightarrow>
     join_group s g (ch_db st) (ch_sockets st) = (ss1, out, a) \<Longrightarrow>
     chat_step env (Enter sid g) st out (st\<lparr>ch_sockets := ss1\<rparr>)"
| exit: "find_socket sid (ch_sockets st) = Some s \<Longrightarrow>
     leave_group s g (ch_sockets st) = (ss1, out, a) \<Longrightarrow>
     chat_step env (Exit sid g) st out (st\<lparr>ch_sockets := ss1\<rparr>)"
| typing: "find_socket sid (ch_sockets st) = Some s \<Longrightarrow>
     chat_step env (Typing sid g b) st (relay_typing s g b (ch_sockets st)) st"
| send: "find_socket sid (ch_sockets st) = Some s \<Longrightarrow>
     send_message mid now s g body (ch_db st) = (d1, evs, a) \<Longrightarrow>
     on_events evs (ch_sockets st) = (ss1, out) \<Longrightarrow>
     chat_step env (Send mid now sid g body) st out \<lparr>ch_db = d1, ch_sockets = ss1\<rparr>"
| disconnect: "find_socket sid (ch_sockets st) = Some s \<Longrightarrow>
     ws_disconnect s (ch_sockets st) = (ss1, out) \<Longrightarrow>
     chat_step env (Disconnect sid) st out (st\<lparr>ch_sockets := ss1\<rparr>)"

text \<open>An execution is the list of its requests, each with what it delivered.\<close>

inductive chat_run :: "chat_env \<Rightarrow> chat_state \<Rightarrow> (chat_req \<times> deliveries) list \<Rightarrow> chat_state \<Rightarrow> bool"
  for env where
  stop: "chat_run env st [] st"
| step: "chat_run env st tr st1 \<Longrightarrow> chat_step env r st1 out st2 \<Longrightarrow> chat_run env st (tr @ [(r, out)]) st2"

section \<open>Who is in which group\<close>

definition people :: "db \<Rightarrow> uuid list \<times> (uuid \<times> uuid) list" where
  "people d = (map g_id (db_groups d), map (\<lambda>m. (gm_groupId m, gm_userId m)) (db_members d))"

lemma is_member_people: "is_member d u g \<longleftrightarrow> (as_uuid g, as_uuid u) \<in> set (snd (people d))"
  by (force simp: is_member_def people_def list_ex_iff)

lemma has_group_people: "has_group d g \<longleftrightarrow> g \<in> set (fst (people d))"
  by (auto simp: has_group_def people_def list_ex_iff)

lemma people_set_role: "set_role i r d = Inr d' \<Longrightarrow> people d' = people d"
  by (auto simp: people_def dest!: set_role_Inr)
    (auto simp: update_where_def comp_def)

lemma people_transfer: "people (fst (transfer_ownership c g t d)) = people d"
  by (auto simp: transfer_ownership_def transfer_write_def dest!: people_set_role split: sum.splits)

lemma people_mark_read: "people (fst (mark_read now u g d)) = people d"
  by (auto simp: mark_read_def db_update_member_def people_def update_where_def comp_def
      split: sum.splits if_splits)

lemma people_reactions [simp]: "people (d\<lparr>db_reactions := rs\<rparr>) = people d"
  by (simp add: people_def)

lemma people_messages [simp]: "people (d\<lparr>db_messages := ms\<rparr>) = people d"
  by (simp add: people_def)

lemma people_toggle: "people (fst (toggle rid now g m u e d)) = people d"
  by (auto simp: toggle_def toggle_finish_def toggle_remove_def toggle_add_def db_delete_reactions_def
      db_create_reaction_def Let_def split: prod.splits option.splits sum.splits prisma_error.splits if_splits)

lemma people_persist: "people (fst (persist_and_emit row d)) = people d"
  by (auto simp: persist_and_emit_def db_create_message_def Let_def split: option.splits sum.splits if_splits)

lemma people_update: "people (fst (update_and_emit i f d)) = people d"
  by (auto simp: update_and_emit_def db_update_message_def Let_def split: option.splits sum.splits if_splits)

section \<open>Membership, operation by operation\<close>

text \<open>
  What a write may do to who is where: a member stays one unless MEMBER_LEFT tells of it or the group is
  gone; no group appears but the created one; messages are broadcast for existing groups, by writes
  that leave all memberships alone.
\<close>

definition told :: "app_event list \<Rightarrow> broadcast_message set" where
  "told evs = {m. MESSAGE_CREATED m \<in> set evs \<or> MESSAGE_UPDATED m \<in> set evs}"

definition faithful :: "uuid option \<Rightarrow> db \<Rightarrow> db \<Rightarrow> app_event list \<Rightarrow> bool" where
  "faithful new d d' evs \<longleftrightarrow>
     (\<forall>u g. as_uuid u = u \<longrightarrow> as_uuid g = g \<longrightarrow> is_member d u g \<longrightarrow> has_group d' g \<longrightarrow>
        is_member d' u g \<or> MEMBER_LEFT g u \<in> set evs)
   \<and> (\<forall>g. has_group d' g \<longrightarrow> has_group d g \<or> new = Some g)
   \<and> (\<forall>m \<in> told evs. has_group d' (bm_groupId m) \<and> people d' = people d)"

lemma faithful_refl [simp]: "faithful new d d []"
  by (simp add: faithful_def told_def)

lemma faithful_people: "people d' = people d \<Longrightarrow> told evs = {} \<Longrightarrow> faithful new d d' evs"
  by (simp add: faithful_def is_member_people has_group_people)

lemma faithful_message:
  "people d' = people d \<Longrightarrow> \<forall>m \<in> told evs. has_group d (bm_groupId m) \<Longrightarrow> faithful new d d' evs"
  by (simp add: faithful_def is_member_people has_group_people)

lemma groups_inv_people:
  assumes inv: "groups_inv d" and g: "db_groups d' = db_groups d" "db_members d' = db_members d" and wf: "db_wf d'"
  shows "groups_inv d'"
  using inv wf by (simp add: groups_inv_def one_owner_def owner_count_def g)

lemma create_faithful: "faithful (Some gid) d (fst (groups_create gid mid now u name d)) []"
  by (auto simp: groups_create_def Let_def db_create_group_def db_create_member_def insert_row_def
      faithful_def told_def is_member_people has_group_people people_def split: sum.splits option.splits if_splits)

lemma join_faithful:
  assumes "groups_join mid now u g d = (d', evs, r)"
  shows "faithful None d d' evs"
proof (cases r)
  case (Inl e)
  with assms have "d' = d" "evs = []"
    by (auto simp: groups_join_def Let_def split: option.splits sum.splits)
  then show ?thesis by simp
next
  case (Inr x)
  note j = groups_join_Inr [OF assms [unfolded Inr]]
  have "told evs = {}"
    using assms by (auto simp: groups_join_def Let_def told_def split: option.splits sum.splits)
  with j(1,2) show ?thesis
    by (auto simp: faithful_def is_member_people has_group_people people_def)
qed

text \<open>Deleting the caller's row takes nobody else's membership away.\<close>

lemma delete_row_people:
  assumes wf: "db_wf d" and me: "me \<in> set (db_members d)"
    and other: "(g, u) \<in> set (snd (people d))" "(g, u) \<noteq> (gm_groupId me, gm_userId me)"
  shows "(g, u) \<in> set (snd (people (d\<lparr>db_members := delete_where (\<lambda>m. gm_id m = gm_id me) (db_members d)\<rparr>)))"
proof -
  obtain m where m: "m \<in> set (db_members d)" "g = gm_groupId m" "u = gm_userId m"
    using other(1) by (auto simp: people_def)
  with same_member_id [OF wf m(1) me] other(2) have "gm_id m \<noteq> gm_id me" by auto
  with m show ?thesis by (auto simp: people_def row_simps)
qed

lemma leave_write_people:
  assumes wf: "db_wf d" and me: "find_membership u g d = Some me"
    and plan: "plan = DropMember (gm_id me) \<or> (\<exists>s su. plan = Promote s su (gm_id me))"
    and wr: "leave_write g plan d = Inr (d', out)"
  shows "fst (people d') = fst (people d) \<and> \<not> lo_groupDeleted out
    \<and> (\<forall>p \<in> set (snd (people d)). p \<noteq> (as_uuid g, as_uuid u) \<longrightarrow> p \<in> set (snd (people d')))"
proof -
  note m = find_membership_SomeD [OF me]
  have del: "fst (people d'') = fst (people d0)
      \<and> (\<forall>p \<in> set (snd (people d0)). p \<noteq> (as_uuid g, as_uuid u) \<longrightarrow> p \<in> set (snd (people d'')))"
    if "db_delete_member (\<lambda>m. gm_id m = gm_id me) d0 = Inr d''" "db_wf d0"
      "\<exists>me0 \<in> set (db_members d0). gm_id me0 = gm_id me \<and> gm_groupId me0 = as_uuid g \<and> gm_userId me0 = as_uuid u"
    for d0 d''
  proof -
    from that(3) obtain me0 where me0: "me0 \<in> set (db_members d0)" "gm_id me0 = gm_id me"
      "gm_groupId me0 = as_uuid g" "gm_userId me0 = as_uuid u" by blast
    show ?thesis
      using db_delete_member_Inr [OF that(1)] delete_row_people [OF that(2) me0(1)] me0
      by (auto simp: people_def)
  qed
  from plan show ?thesis
  proof (elim disjE exE)
    assume p: "plan = DropMember (gm_id me)"
    with wr have d: "db_delete_member (\<lambda>m. gm_id m = gm_id me) d = Inr d'" and "\<not> lo_groupDeleted out"
      by (auto simp: leave_write_def split: sum.splits)
    with del [OF d wf] m show ?thesis by blast
  next
    fix s su assume p: "plan = Promote s su (gm_id me)"
    with wr obtain d1 where r: "set_role s OWNER d = Inr d1"
      and d: "db_delete_member (\<lambda>m. gm_id m = gm_id me) d1 = Inr d'" and "\<not> lo_groupDeleted out"
      by (auto simp: leave_write_def split: sum.splits)
    moreover have "\<exists>me0 \<in> set (db_members d1). gm_id me0 = gm_id me \<and> gm_groupId me0 = as_uuid g \<and> gm_userId me0 = as_uuid u"
      using m by (intro bexI [of _ "if gm_id me = s then me\<lparr>gm_role := OWNER\<rparr> else me"])
        (auto simp: set_role_Inr [OF r] row_simps)
    ultimately show ?thesis
      using del [OF d set_role_wf [OF r wf]] people_set_role [OF r] by simp
  qed
qed

lemma leave_faithful:
  assumes wf: "db_wf d" and run: "groups_leave u g d = (d', evs, r)" and id: "as_uuid g = g" "as_uuid u = u"
  shows "faithful None d d' evs"
proof (cases r)
  case (Inl e)
  with run have "d' = d" "evs = []" by (auto simp: groups_leave_def split: sum.splits)
  then show ?thesis by simp
next
  case (Inr out)
  with run obtain plan where plan: "leave_read u g d = Inr plan"
    and wr: "leave_write g plan d = Inr (d', out)" and evs: "evs = leave_events u g out"
    by (auto simp: groups_leave_def split: sum.splits)
  have told: "told evs = {}" by (auto simp: told_def evs leave_events_def split: option.splits)
  from plan show ?thesis
  proof (cases rule: leave_read_cases)
    case (last me)
    with wr have "db_delete_group g d = Inr d'" by (auto simp: leave_write_def id split: sum.splits)
    then have "db_members d' = delete_where (\<lambda>m. gm_groupId m = g) (db_members d)"
      "db_groups d' = delete_where (\<lambda>x. g_id x = g) (db_groups d)"
      by (auto simp: db_delete_group_def split: if_splits)
    with told show ?thesis
      by (auto simp: faithful_def is_member_people has_group_people people_def row_simps image_iff)
  next
    case (member me)
    note p = leave_write_people [OF wf member(1) disjI1 wr, OF member(3)]
    with told show ?thesis
      by (auto simp: faithful_def is_member_people has_group_people evs leave_events_def id split: option.splits)
  next
    case (owner me s)
    note p = leave_write_people [OF wf owner(1) disjI2 wr] 
    with told owner(4) show ?thesis
      by (auto simp: faithful_def is_member_people has_group_people evs leave_events_def id split: option.splits)
  qed
qed

lemma message_write_faithful:
  assumes same: "people d' = people d" and wf: "db_wf d'"
    and row: "\<forall>m \<in> told evs. \<exists>row \<in> set (db_messages d'). bm_groupId m = ms_groupId row"
  shows "faithful None d d' evs"
proof (rule faithful_message [OF same], rule ballI)
  fix m assume "m \<in> told evs"
  with row obtain row where "row \<in> set (db_messages d')" "bm_groupId m = ms_groupId row" by blast
  with wf have "has_group d' (bm_groupId m)" by (auto simp: db_wf_def refs_ok_def list_all_iff)
  then show "has_group d (bm_groupId m)" by (simp add: has_group_people same)
qed

lemma persist_faithful:
  assumes wf: "db_wf d" and run: "persist_and_emit row d = (d', evs, r)"
  shows "faithful None d d' evs"
proof (cases r)
  case (Inl e)
  with persist_and_emit_Inl run show ?thesis by fastforce
next
  case (Inr bm)
  note p = persist_and_emit_Inr [OF run [unfolded Inr] wf]
  have "people d' = people d" using people_persist [of row d] run by simp
  from this p(4) show ?thesis
    by (rule message_write_faithful) (auto simp: told_def p(2) p(3) message_select_def p(1))
qed

lemma update_faithful:
  assumes wf: "db_wf d" and run: "update_and_emit i f d = (d', evs, r)" and f: "same_message_keys f"
  shows "faithful None d d' evs"
proof -
  have "people d' = people d" "db_wf d'"
    using people_update [of i f d] update_and_emit_wf [OF f wf, of i] run by simp_all
  then show ?thesis
  proof (rule message_write_faithful)
    show "\<forall>m \<in> told evs. \<exists>row \<in> set (db_messages d'). bm_groupId m = ms_groupId row"
      using run by (auto simp: update_and_emit_def Let_def told_def message_select_def
          dest: find_SomeD split: sum.splits option.splits)
  qed
qed

lemma edit_faithful:
  "db_wf d \<Longrightarrow> messages_edit now g m u c d = (d', evs, r) \<Longrightarrow> faithful None d d' evs"
  by (auto simp: messages_edit_def edit_write_def split: sum.splits intro: update_faithful)

lemma delete_faithful:
  "db_wf d \<Longrightarrow> soft_delete now g m u d = (d', evs, r) \<Longrightarrow> faithful None d d' evs"
  by (auto simp: soft_delete_def delete_write_def split: sum.splits intro: update_faithful)

lemma toggle_faithful:
  "toggle rid now g m u e d = (d', evs, r) \<Longrightarrow> faithful None d d' evs"
  using people_toggle [of rid now g m u e d]
  by (intro faithful_people) (auto simp: toggle_def toggle_finish_def told_def Let_def
      split: if_splits prod.splits option.splits)

lemma mark_read_faithful:
  "mark_read now u g d = (d', evs, r) \<Longrightarrow> faithful None d d' evs"
  using people_mark_read [of now u g d]
  by (intro faithful_people) (auto simp: mark_read_def told_def split: sum.splits)

lemma transfer_faithful:
  "transfer_ownership c g t d = (d', evs, r) \<Longrightarrow> faithful None d d' evs"
  using people_transfer [of c g t d]
  by (intro faithful_people) (auto simp: transfer_ownership_def told_def split: sum.splits if_splits)

text \<open>The writes below the group tables keep the ownership invariant.\<close>

lemma message_ops_inv:
  assumes "groups_inv d"
  shows "groups_inv (fst (persist_and_emit row d))"
    and "same_message_keys f \<Longrightarrow> groups_inv (fst (update_and_emit i f d))"
    and "groups_inv (fst (toggle rid now g m u e d))"
proof -
  have wf: "db_wf d" using assms by (simp add: groups_inv_def)
  show "groups_inv (fst (persist_and_emit row d))"
    by (rule groups_inv_people [OF assms _ _ persist_and_emit_wf [OF wf]])
      (auto simp: persist_and_emit_def db_create_message_def Let_def split: option.splits sum.splits if_splits)
  show "groups_inv (fst (update_and_emit i f d))" if "same_message_keys f"
    by (rule groups_inv_people [OF assms _ _ update_and_emit_wf [OF that wf]])
      (auto simp: update_and_emit_def db_update_message_def Let_def split: option.splits sum.splits if_splits)
  show "groups_inv (fst (toggle rid now g m u e d))"
    by (rule groups_inv_people [OF assms _ _ toggle_wf [OF wf]])
      (auto simp: toggle_def toggle_finish_def toggle_remove_def toggle_add_def db_delete_reactions_def
        db_create_reaction_def Let_def split: prod.splits option.splits sum.splits prisma_error.splits if_splits)
qed

lemma edit_inv: "groups_inv d \<Longrightarrow> groups_inv (fst (messages_edit now g m u c d))"
  by (auto simp: messages_edit_def edit_write_def split: sum.splits intro: message_ops_inv(2))

lemma delete_inv: "groups_inv d \<Longrightarrow> groups_inv (fst (soft_delete now g m u d))"
  by (auto simp: soft_delete_def delete_write_def split: sum.splits intro: message_ops_inv(2))

section \<open>The routes\<close>

text \<open>
  The spelling that the routes rely on and do not check: a departure names the group in lower case, and
  an owner does not name themselves as the new owner in another spelling. Ids of tokens are in lower
  case, since the program signs what the database returned.
\<close>

fun well_spelt :: "chat_req \<Rightarrow> bool" where
  "well_spelt (Http u (Leave g)) \<longleftrightarrow> as_uuid (au_userId u) = au_userId u \<and> as_uuid g = g"
| "well_spelt (Http u (Transfer g t)) \<longleftrightarrow> as_uuid t = as_uuid (au_userId u) \<longrightarrow> t = au_userId u"
| "well_spelt _ \<longleftrightarrow> True"

fun created :: "http_req \<Rightarrow> uuid option" where
  "created (CreateGroup gid mid now name) = Some gid"
| "created _ = None"

lemma guarded_write_cases:
  obtains (denied) "guarded_write (Some u) g d h = (d, [], Inl (forbidden NOT_A_MEMBER_MESSAGE))"
  | (member) "guarded_write (Some u) g d h = h (au_userId u) g"
  using guarded_write_denied [of d u g h] guarded_write_member [of d u g h] by blast

lemma http_write_cases:
  assumes run: "http_write env u r d = (d', evs)"
  obtains (skip) "d' = d" "evs = []"
  | (create) gid mid now name t where "r = CreateGroup gid mid now t"
      "d' = fst (groups_create gid mid now (au_userId u) name d)" "evs = []"
  | (join) mid now g where "r = JoinGroup mid now g" "(d', evs) = written (groups_join mid now (au_userId u) g d)"
  | (leave) g where "r = Leave g" "(d', evs) = written (groups_leave (au_userId u) g d)"
  | (read) now g where "r = MarkRead now g" "(d', evs) = written (mark_read now (au_userId u) g d)"
  | (transfer) g t where "r = Transfer g t" "(d', evs) = written (transfer_ownership (au_userId u) g t d)"
  | (persist) row where "created r = None" "(d', evs) = written (persist_and_emit row d)"
  | (edit) now g m c where "created r = None" "(d', evs) = written (messages_edit now g m (au_userId u) c d)"
  | (delete) now g m where "created r = None" "(d', evs) = written (soft_delete now g m (au_userId u) d)"
  | (toggle) rid now g m e t where "created r = None" "r = Toggle rid now g m t" "(d', evs) = written (toggle rid now g m (au_userId u) e d)"
proof (cases r)
  case (CreateGroup gid mid now name)
  show ?thesis
  proof (cases "create_group_dto name")
    case None
    with run CreateGroup show ?thesis by (intro skip) (auto simp: ctl_create_def)
  next
    case (Some n)
    with run CreateGroup show ?thesis by (intro create [of gid mid now name n]) (auto simp: ctl_create_def)
  qed
next
  case (JoinGroup mid now g)
  with run skip join show ?thesis
    by (auto simp: ctl_join_def parse_uuid_pipe_def written_def split: if_splits)
next
  case (Leave g)
  show ?thesis
    by (cases rule: guarded_write_cases [of u g d "\<lambda>u i. groups_leave u i d"])
      (use run Leave skip leave in \<open>auto simp: ctl_leave_def written_def\<close>)
next
  case (MarkRead now g)
  show ?thesis
    by (cases rule: guarded_write_cases [of u g d "\<lambda>u i. mark_read now u i d"])
      (use run MarkRead skip read in \<open>auto simp: ctl_mark_read_def written_def\<close>)
next
  case (Transfer g t)
  show ?thesis
    by (cases rule: guarded_write_cases [of u g d "\<lambda>u i. if ce_uuid env t then transfer_ownership u i t d
        else (d, [], Inl validation_failed)"])
      (use run Transfer skip transfer in \<open>auto simp: ctl_transfer_def written_def split: if_splits\<close>)
next
  case (PostMessage mid now g content)
  show ?thesis
    by (cases rule: guarded_write_cases [of u g d "\<lambda>u g. case create_message_dto content of
        None \<Rightarrow> (d, [], Inl validation_failed) | Some text' \<Rightarrow> messages_create mid now g u text' d"])
      (use run PostMessage skip persist in \<open>auto simp: msg_create_def written_def messages_create_def split: option.splits\<close>)
next
  case (Upload draw mid now g caption f)
  then show ?thesis
    using run skip persist
    by (auto simp: msg_upload_def written_def create_with_attachment_def split: sum.splits prod.splits)
next
  case (Edit now g m content)
  show ?thesis
    by (cases rule: guarded_write_cases [of u g d "\<lambda>u g. case parse_uuid_pipe m of Inl e \<Rightarrow> (d, [], Inl e)
        | Inr m \<Rightarrow> (case create_message_dto content of
            None \<Rightarrow> (d, [], Inl validation_failed) | Some text' \<Rightarrow> messages_edit now g m u text' d)"])
      (use run Edit skip edit in \<open>auto simp: msg_edit_def written_def split: option.splits sum.splits\<close>)
next
  case (Remove now g m)
  show ?thesis
    by (cases rule: guarded_write_cases [of u g d "\<lambda>u g. case parse_uuid_pipe m of Inl e \<Rightarrow> (d, [], Inl e)
        | Inr m \<Rightarrow> soft_delete now g m u d"])
      (use run Remove skip delete in \<open>auto simp: msg_remove_def written_def split: sum.splits\<close>)
next
  case (Toggle rid now g m emoji)
  show ?thesis
    by (cases rule: guarded_write_cases [of u g d "\<lambda>u g. case parse_uuid_pipe m of Inl e \<Rightarrow> (d, [], Inl e)
        | Inr m \<Rightarrow> (case toggle_reaction_dto (ce_emoji env) emoji of
            None \<Rightarrow> (d, [], Inl validation_failed) | Some s \<Rightarrow> toggle rid now g m u s d)"])
      (use run Toggle skip toggle in
        \<open>auto simp: ctl_toggle_def written_def parse_uuid_pipe_def split: option.splits sum.splits if_splits\<close>)
qed

lemma written_pair: "(d', evs) = written p \<longleftrightarrow> (\<exists>r. p = (d', evs, r))"
  by (cases p) (auto simp: written_def)

lemma http_write_faithful:
  assumes inv: "groups_inv d" and spelt: "well_spelt (Http u r)" and run: "http_write env u r d = (d', evs)"
  shows "groups_inv d' \<and> faithful (created r) d d' evs"
proof -
  have wf: "db_wf d" using inv by (simp add: groups_inv_def)
  from run show ?thesis
  proof (cases rule: http_write_cases)
    case skip
    with inv show ?thesis by simp
  next
    case (create gid mid now name t)
    obtain d'' x where c: "groups_create gid mid now (au_userId u) name d = (d'', x)" by fastforce
    with create groups_create_inv [OF inv c] create_faithful [of gid d mid now "au_userId u" name]
    show ?thesis by simp
  next
    case (join mid now g)
    then show ?thesis by (auto simp: written_pair dest: groups_join_inv [OF inv] join_faithful)
  next
    case (leave g)
    with spelt show ?thesis
      by (auto simp: written_pair dest: groups_leave_inv [OF inv] leave_faithful [OF wf])
  next
    case (read now g)
    then show ?thesis by (auto simp: written_pair dest: mark_read_inv [OF inv] mark_read_faithful)
  next
    case (transfer g t)
    then obtain x where t: "transfer_ownership (au_userId u) g t d = (d', evs, x)"
      by (auto simp: written_pair)
    have "groups_inv d'"
    proof (cases "t = au_userId u")
      case True
      with t inv show ?thesis by (auto simp: transfer_ownership_def)
    next
      case False
      with spelt transfer(1) have "as_uuid (au_userId u) \<noteq> as_uuid t" by auto
      from transfer_ownership_inv [OF inv this t] show ?thesis .
    qed
    with transfer_faithful [OF t] transfer(1) show ?thesis by simp
  next
    case (persist row)
    with message_ops_inv(1) [OF inv, of row] persist_faithful [OF wf] show ?thesis
      by (auto simp: written_pair)
  next
    case (edit now g m c)
    with edit_inv [OF inv, of now g m "au_userId u" c] edit_faithful [OF wf] show ?thesis
      by (auto simp: written_pair)
  next
    case (delete now g m)
    with delete_inv [OF inv, of now g m "au_userId u"] delete_faithful [OF wf] show ?thesis
      by (auto simp: written_pair)
  next
    case (toggle rid now g m e t)
    with message_ops_inv(3) [OF inv, of rid now g m "au_userId u" e] toggle_faithful show ?thesis
      by (auto simp: written_pair)
  qed
qed

section \<open>The sockets\<close>

text \<open>What a handler does to the sockets: it keeps who they are, and may take rooms away.\<close>

definition shrinks :: "socket list \<Rightarrow> socket list \<Rightarrow> bool" where
  "shrinks ss ss' \<longleftrightarrow> list_all2 (\<lambda>s s'. sk_id s' = sk_id s \<and> sk_user s' = sk_user s
     \<and> set (sk_rooms s') \<subseteq> set (sk_rooms s)) ss ss'"

lemma shrinks_refl [simp]: "shrinks ss ss"
  by (simp add: shrinks_def list_all2_same)

lemma shrinks_trans: "shrinks a b \<Longrightarrow> shrinks b c \<Longrightarrow> shrinks a c"
  unfolding shrinks_def by (erule (1) list_all2_trans [rotated]) auto

lemma shrinks_map:
  "(\<And>s. sk_id (f s) = sk_id s \<and> sk_user (f s) = sk_user s \<and> set (sk_rooms (f s)) \<subseteq> set (sk_rooms s)) \<Longrightarrow>
     shrinks ss (map f ss)"
  by (simp add: shrinks_def list.rel_map list_all2_same)

lemma shrinks_ids: "shrinks ss ss' \<Longrightarrow> map sk_id ss' = map sk_id ss"
  unfolding shrinks_def by (induction rule: list_all2_induct) auto

lemma shrinks_from:
  assumes "shrinks ss ss'" and "s' \<in> set ss'"
  shows "\<exists>s \<in> set ss. sk_id s' = sk_id s \<and> sk_user s' = sk_user s \<and> set (sk_rooms s') \<subseteq> set (sk_rooms s)"
  using assms unfolding shrinks_def by (induction rule: list_all2_induct) auto

lemma shrinks_to:
  assumes "shrinks ss ss'" and "s \<in> set ss"
  shows "\<exists>s' \<in> set ss'. sk_id s' = sk_id s \<and> sk_user s' = sk_user s"
  using assms unfolding shrinks_def by (induction rule: list_all2_induct) auto

lemma evict_shrinks: "shrinks ss (evict g u ss)"
  unfolding evict_def by (rule shrinks_map) (auto simp: leave_room_def)

lemma evict_room:
  assumes "s \<in> set (evict g u ss)" and "sk_user s = u"
  shows "\<not> in_room (room_for g) s"
proof -
  from assms(1) obtain x where
    s: "s = (if in_room (room_for g) x \<and> sk_user x = u then leave_room (room_for g) x else x)"
    unfolding evict_def set_map by blast
  show ?thesis
  proof (cases "in_room (room_for g) x \<and> sk_user x = u")
    case True
    then show ?thesis by (simp add: s in_room_def leave_room_def)
  next
    case False
    with s assms(2) show ?thesis by simp
  qed
qed

lemma on_event_shrinks: "on_event ev ss = (ss', out) \<Longrightarrow> shrinks ss ss'"
  using evict_shrinks by (auto simp: on_event_def Let_def split: app_event.splits)

lemma on_events_shrinks: "on_events evs ss = (ss', out) \<Longrightarrow> shrinks ss ss'"
proof (induction evs arbitrary: ss out)
  case (Cons ev evs)
  then show ?case
    by (auto split: prod.splits intro: shrinks_trans [OF on_event_shrinks])
qed simp

lemma on_events_evicts:
  assumes "on_events evs ss = (ss', out)" and "MEMBER_LEFT g u \<in> set evs"
    and "s \<in> set ss'" and "sk_user s = u"
  shows "\<not> in_room (room_for g) s"
  using assms
proof (induction evs arbitrary: ss out)
  case (Cons ev evs)
  from Cons.prems(1) obtain ss1 out1 out2 where ev: "on_event ev ss = (ss1, out1)"
    and rest: "on_events evs ss1 = (ss', out2)" by (auto split: prod.splits)
  show ?case
  proof (cases "MEMBER_LEFT g u \<in> set evs")
    case True
    with Cons.IH [OF rest] Cons.prems(3,4) show ?thesis by blast
  next
    case False
    with Cons.prems(2) ev have ss1: "ss1 = evict g u ss" by (auto simp: on_event_def Let_def)
    from shrinks_from [OF on_events_shrinks [OF rest] Cons.prems(3)]
    obtain s0 where "s0 \<in> set ss1" "sk_user s = sk_user s0" "set (sk_rooms s) \<subseteq> set (sk_rooms s0)" by blast
    with evict_room [of s0 g u ss] Cons.prems(4) ss1 show ?thesis by (auto simp: in_room_def)
  qed
qed simp

text \<open>A message is delivered to sockets that were in its group's room.\<close>

definition message_of :: "server_event \<Rightarrow> broadcast_message option" where
  "message_of ev = (case ev of EV_NEW_MESSAGE m \<Rightarrow> Some m | EV_MESSAGE_UPDATED m \<Rightarrow> Some m | _ \<Rightarrow> None)"

lemma emit_to_mem: "(sid, e) \<in> set (emit_to room ev ss) \<longleftrightarrow> e = ev \<and> (\<exists>s \<in> set ss. in_room room s \<and> sk_id s = sid)"
  by (auto simp: emit_to_def)

lemma presence_no_message: "(sid, e) \<in> set (presence_broadcast g x ss) \<Longrightarrow> message_of e = None"
  by (auto simp: presence_broadcast_def Let_def emit_to_mem message_of_def)

lemma on_event_message:
  assumes "on_event ev ss = (ss', out)" and "(sid, e) \<in> set out" and "message_of e = Some m"
  shows "m \<in> told [ev] \<and> (\<exists>s \<in> set ss. in_room (room_for (bm_groupId m)) s \<and> sk_id s = sid)"
proof (cases ev)
  case (MEMBER_LEFT g u)
  with assms(1,2) have "(sid, e) \<in> set (emit_to (room_for g) (EV_MEMBER_LEFT g u) ss)
      \<or> (sid, e) \<in> set (presence_broadcast g None (evict g u ss))"
    by (auto simp: on_event_def Let_def)
  with presence_no_message assms(3) have False by (fastforce simp: emit_to_mem message_of_def)
  then show ?thesis ..
qed (use assms in \<open>auto simp: on_event_def emit_to_mem told_def message_of_def\<close>)

lemma on_events_message:
  assumes "on_events evs ss = (ss', out)" and "(sid, e) \<in> set out" and "message_of e = Some m"
  shows "m \<in> told evs \<and> (\<exists>s \<in> set ss. in_room (room_for (bm_groupId m)) s \<and> sk_id s = sid)"
  using assms
proof (induction evs arbitrary: ss out)
  case (Cons ev evs)
  from Cons.prems(1) obtain ss1 out1 out2 where ev: "on_event ev ss = (ss1, out1)"
    and rest: "on_events evs ss1 = (ss', out2)" and out: "out = out1 @ out2" by (auto split: prod.splits)
  from Cons.prems(2) out consider "(sid, e) \<in> set out1" | "(sid, e) \<in> set out2" by auto
  then show ?case
  proof cases
    case 1
    from on_event_message [OF ev 1 Cons.prems(3)] show ?thesis by (auto simp: told_def)
  next
    case 2
    from Cons.IH [OF rest 2 Cons.prems(3)] shrinks_from [OF on_event_shrinks [OF ev]] show ?thesis
      by (fastforce simp: told_def in_room_def)
  qed
qed simp

section \<open>The invariant\<close>

definition socket_ok :: "db \<Rightarrow> socket \<Rightarrow> bool" where
  "socket_ok d s \<longleftrightarrow> as_uuid (sk_user s) = sk_user s \<and> list_all (\<lambda>r. case group_id_from_room r of None \<Rightarrow> True
     | Some g \<Rightarrow> as_uuid g = g \<longrightarrow> has_group d g \<longrightarrow> is_member d (sk_user s) g) (sk_rooms s)"

definition ids_lower :: "db \<Rightarrow> bool" where
  "ids_lower d \<longleftrightarrow> list_all (\<lambda>g. as_uuid (g_id g) = g_id g) (db_groups d)"

definition chat_inv :: "chat_state \<Rightarrow> bool" where
  "chat_inv st \<longleftrightarrow> groups_inv (ch_db st) \<and> ids_lower (ch_db st) \<and> distinct (map sk_id (ch_sockets st))
     \<and> list_all (socket_ok (ch_db st)) (ch_sockets st)"

text \<open>The program signs ids that the database returned, and verification gives back what was signed.\<close>

definition signs_ids :: "chat_env \<Rightarrow> bool" where
  "signs_ids env \<longleftrightarrow> (\<forall>t p. ce_verify env t = Inr p \<longrightarrow> as_uuid (jp_sub p) = jp_sub p)"

lemma ids_lower_iff: "ids_lower d \<longleftrightarrow> (\<forall>g. has_group d g \<longrightarrow> as_uuid g = g)"
  by (auto simp: ids_lower_def has_group_def list_all_iff list_ex_iff)

lemma socket_ok_iff: "socket_ok d s \<longleftrightarrow> as_uuid (sk_user s) = sk_user s
    \<and> (\<forall>g. in_room (room_for g) s \<longrightarrow> as_uuid g = g \<longrightarrow> has_group d g \<longrightarrow> is_member d (sk_user s) g)"
  by (auto simp: socket_ok_def in_room_def list_all_iff group_id_from_room_Some split: option.splits)

lemma socket_ok_shrink:
  "socket_ok d s \<Longrightarrow> sk_user s' = sk_user s \<Longrightarrow> set (sk_rooms s') \<subseteq> set (sk_rooms s) \<Longrightarrow> socket_ok d s'"
  by (auto simp: socket_ok_iff in_room_def)

lemma sockets_ok_shrink:
  "list_all (socket_ok d) ss \<Longrightarrow> shrinks ss ss' \<Longrightarrow> list_all (socket_ok d) ss'"
  unfolding list_all_iff by (metis shrinks_from socket_ok_shrink)

lemma find_socket_Some: "find_socket sid ss = Some s \<Longrightarrow> s \<in> set ss \<and> sk_id s = sid"
  by (auto simp: find_socket_def dest: find_SomeD)

lemma same_socket:
  "distinct (map sk_id ss) \<Longrightarrow> s \<in> set ss \<Longrightarrow> s' \<in> set ss \<Longrightarrow> sk_id s = sk_id s' \<Longrightarrow> s = s'"
  by (metis distinct_map inj_on_def)

lemma write_keeps_inv:
  assumes inv: "chat_inv st" and w: "groups_inv d1" "faithful new (ch_db st) d1 evs"
    and new: "\<forall>g. new = Some g \<longrightarrow> as_uuid g = g \<and> list_all (\<lambda>s. \<not> in_room (room_for g) s) (ch_sockets st)"
    and evs: "on_events evs (ch_sockets st) = (ss1, out)"
  shows "chat_inv \<lparr>ch_db = d1, ch_sockets = ss1\<rparr>"
proof -
  let ?d = "ch_db st" and ?ss = "ch_sockets st"
  have low: "ids_lower ?d" and dist: "distinct (map sk_id ?ss)" and ok: "list_all (socket_ok ?d) ?ss"
    using inv by (simp_all add: chat_inv_def)
  note sh = on_events_shrinks [OF evs]
  have groups: "has_group d1 g \<Longrightarrow> has_group ?d g \<or> new = Some g" for g
    using w(2) by (simp add: faithful_def)
  have "socket_ok d1 s" if s: "s \<in> set ss1" for s
  proof -
    obtain s0 where s0: "s0 \<in> set ?ss" "sk_user s = sk_user s0" "set (sk_rooms s) \<subseteq> set (sk_rooms s0)"
      using shrinks_from [OF sh s] by blast
    then have ok0: "socket_ok ?d s0" using ok by (simp add: list_all_iff)
    have "is_member d1 (sk_user s) g"
      if g: "in_room (room_for g) s" "as_uuid g = g" "has_group d1 g" for g
    proof -
      have in0: "in_room (room_for g) s0" using g(1) s0(3) by (auto simp: in_room_def)
      then have "new \<noteq> Some g" using new s0(1) by (auto simp: list_all_iff)
      with groups g(3) have "has_group ?d g" by blast
      with ok0 in0 g(2) s0(2) have "is_member ?d (sk_user s) g" by (simp add: socket_ok_iff)
      moreover have "as_uuid (sk_user s) = sk_user s" using ok0 s0(2) by (simp add: socket_ok_iff)
      moreover have "MEMBER_LEFT g (sk_user s) \<notin> set evs" using on_events_evicts [OF evs _ s] g(1) by blast
      ultimately show ?thesis using w(2) g(2,3) unfolding faithful_def by blast
    qed
    with ok0 s0(2) show ?thesis by (simp add: socket_ok_iff)
  qed
  moreover have "ids_lower d1" using groups new low by (auto simp: ids_lower_iff)
  moreover have "distinct (map sk_id ss1)" using shrinks_ids [OF sh] dist by simp
  ultimately show ?thesis using w(1) by (simp add: chat_inv_def list_all_iff)
qed

lemma sockets_keep_inv:
  "chat_inv st \<Longrightarrow> shrinks (ch_sockets st) ss1 \<Longrightarrow> chat_inv (st\<lparr>ch_sockets := ss1\<rparr>)"
  by (auto simp: chat_inv_def shrinks_ids sockets_ok_shrink)

lemma enter_keeps_inv:
  assumes inv: "chat_inv st" and s: "find_socket sid (ch_sockets st) = Some s"
    and run: "join_group s g (ch_db st) (ch_sockets st) = (ss1, out, a)"
  shows "chat_inv (st\<lparr>ch_sockets := ss1\<rparr>)"
proof (cases "ss1 = ch_sockets st")
  case True
  with inv show ?thesis by simp
next
  case False
  let ?ss = "ch_sockets st" and ?g = "case g of None \<Rightarrow> [] | Some x \<Rightarrow> x"
  have dist: "distinct (map sk_id ?ss)" and ok: "list_all (socket_ok (ch_db st)) ?ss"
    using inv by (simp_all add: chat_inv_def)
  from False run obtain m where m: "assert_member (sk_user s) ?g (ch_db st) = Inr m"
    by (cases "assert_member (sk_user s) ?g (ch_db st)") (auto simp: join_group_def Let_def)
  with run have ss1: "ss1 = update_socket (sk_id s) (join_room (room_for ?g)) ?ss"
    by (simp add: join_group_def join_group_enter_def Let_def)
  have mem: "is_member (ch_db st) (sk_user s) ?g" using db_rule.check_sound [OF m] by simp
  have "socket_ok (ch_db st) x'" if "x' \<in> set ss1" for x'
  proof -
    from that obtain x where x: "x \<in> set ?ss"
      "x' = (if sk_id x = sk_id s then join_room (room_for ?g) x else x)"
      unfolding ss1 update_socket_def set_map by blast
    have okx: "socket_ok (ch_db st) x" using x(1) ok by (simp add: list_all_iff)
    show ?thesis
    proof (cases "sk_id x = sk_id s")
      case True
      with same_socket [OF dist x(1)] find_socket_Some [OF s] have "x = s" by blast
      with okx mem x(2) True show ?thesis by (auto simp: socket_ok_iff join_room_def in_room_def)
    next
      case False
      with x(2) okx show ?thesis by simp
    qed
  qed
  moreover have "map sk_id ss1 = map sk_id ?ss"
    by (simp add: ss1 update_socket_def join_room_def)
  ultimately show ?thesis using inv by (simp add: chat_inv_def list_all_iff)
qed

lemma send_write:
  assumes inv: "groups_inv d" and run: "send_message mid now s g body d = (d1, evs, a)"
  shows "groups_inv d1 \<and> faithful None d d1 evs"
proof -
  have wf: "db_wf d" using inv by (simp add: groups_inv_def)
  let ?g = "case g of None \<Rightarrow> [] | Some x \<Rightarrow> x" and ?c = "js_trim (case body of None \<Rightarrow> [] | Some c \<Rightarrow> c)"
  consider "d1 = d" "evs = []"
    | r where "persist_and_emit (new_message_row mid now (as_uuid ?g) (Some (sk_user s)) ?c USER None) d = (d1, evs, r)"
    using run by (auto simp: send_message_def messages_create_def Let_def split: if_splits sum.splits prod.splits)
  then show ?thesis
  proof cases
    case 2
    with message_ops_inv(1) [OF inv] persist_faithful [OF wf] show ?thesis by (metis fst_conv)
  qed (use inv in simp)
qed

lemma new_room_empty:
  "drawn_fresh r ss \<Longrightarrow> \<forall>g. created r = Some g \<longrightarrow> as_uuid g = g \<and> list_all (\<lambda>s. \<not> in_room (room_for g) s) ss"
  by (cases r) auto

lemma chat_step_inv:
  assumes "chat_step env r st out st'" and inv: "chat_inv st" and env: "signs_ids env" and spelt: "well_spelt r"
  shows "chat_inv st'"
  using assms(1)
proof cases
  case (http u r' d1 evs ss1)
  with http_write_faithful [OF _ _ http(3)] inv spelt
  have "groups_inv d1" "faithful (created r') (ch_db st) d1 evs" by (auto simp: chat_inv_def)
  from write_keeps_inv [OF inv this new_room_empty [OF http(4)] http(5)] http(2) show ?thesis by simp
next
  case (connect sid token ss1)
  from connect(4) obtain t p where p: "ce_verify env t = Inr p"
    "ss1 = ch_sockets st @ [\<lparr>sk_id = sid, sk_user = jp_sub p, sk_email = jp_email p, sk_rooms = [sid]\<rparr>]"
    by (auto simp: ws_connect_def ws_authenticate_def split: option.splits if_splits sum.splits)
  have "\<forall>s \<in> set (ch_sockets st). sk_id s \<noteq> sid"
    using connect(5) unfolding find_socket_def by (simp add: find_None_iff)
  with p connect inv env show ?thesis
    by (auto simp: chat_inv_def socket_ok_def signs_ids_def)
next
  case (enter sid s g ss1 a)
  with enter_keeps_inv [OF inv enter(3,4)] show ?thesis by simp
next
  case (exit sid s g ss1 a)
  have "shrinks (ch_sockets st) ss1"
    using exit(4) by (auto simp: leave_group_def update_socket_def leave_room_def Let_def
        intro!: shrinks_map split: option.splits if_splits)
  with sockets_keep_inv [OF inv] exit(2) show ?thesis by simp
next
  case (typing sid s g b)
  with inv show ?thesis by simp
next
  case (send sid s mid now g body d1 evs a ss1)
  from send_write [OF _ send(4)] inv have "groups_inv d1" "faithful None (ch_db st) d1 evs"
    by (auto simp: chat_inv_def)
  from write_keeps_inv [OF inv this _ send(5)] send(2) show ?thesis by simp
next
  case (disconnect sid s ss1)
  then have "ss1 = filter (\<lambda>x. sk_id x \<noteq> sk_id s) (ch_sockets st)"
    by (simp add: ws_disconnect_def)
  with disconnect(2) inv show ?thesis
    by (auto simp: chat_inv_def list_all_iff distinct_map_filter)
qed

lemma chat_run_inv:
  "chat_run env st tr st' \<Longrightarrow> chat_inv st \<Longrightarrow> signs_ids env \<Longrightarrow> list_all (\<lambda>x. well_spelt (fst x)) tr \<Longrightarrow> chat_inv st'"
  by (induction rule: chat_run.induct) (auto intro: chat_step_inv)

text \<open>A delivery of the events of one write goes to members of the store after it.\<close>

lemma write_delivers_to_members:
  assumes inv: "chat_inv st" and inv': "chat_inv \<lparr>ch_db = d1, ch_sockets = ss1\<rparr>"
    and w: "faithful new (ch_db st) d1 evs" and evs: "on_events evs (ch_sockets st) = (ss1, out)"
    and del: "(sid, e) \<in> set out" "message_of e = Some m"
  shows "\<exists>s \<in> set ss1. sk_id s = sid \<and> is_member d1 (sk_user s) (bm_groupId m)"
proof -
  from on_events_message [OF evs del] obtain s where m: "m \<in> told evs"
    and s: "s \<in> set (ch_sockets st)" "in_room (room_for (bm_groupId m)) s" "sk_id s = sid" by blast
  from w m have g: "has_group d1 (bm_groupId m)" and same: "people d1 = people (ch_db st)"
    by (auto simp: faithful_def)
  have "as_uuid (bm_groupId m) = bm_groupId m" using inv' g by (simp add: chat_inv_def ids_lower_iff)
  moreover have "socket_ok (ch_db st) s" using inv s(1) by (simp add: chat_inv_def list_all_iff)
  ultimately have "is_member d1 (sk_user s) (bm_groupId m)"
    using s(2) g same unfolding socket_ok_iff is_member_people has_group_people by metis
  with shrinks_to [OF on_events_shrinks [OF evs] s(1)] s(3) show ?thesis by force
qed

lemma typing_no_message: "(sid, e) \<in> set (relay_typing s g b ss) \<Longrightarrow> message_of e = None"
  by (auto simp: relay_typing_def emit_to_others_def message_of_def split: option.splits if_splits)

lemma chat_step_delivers_to_members:
  assumes "chat_step env r st out st'" and inv: "chat_inv st" and env: "signs_ids env" and spelt: "well_spelt r"
    and del: "(sid, e) \<in> set out" "message_of e = Some m"
  shows "\<exists>s \<in> set (ch_sockets st'). sk_id s = sid \<and> is_member (ch_db st') (sk_user s) (bm_groupId m)"
proof -
  note inv' = chat_step_inv [OF assms(1) inv env spelt]
  from assms(1) show ?thesis
  proof cases
    case (http u r' d1 evs ss1)
    with http_write_faithful [OF _ _ http(3)] inv spelt
    have "faithful (created r') (ch_db st) d1 evs" by (auto simp: chat_inv_def)
    from write_delivers_to_members [OF inv inv' [unfolded http(2)] this http(5) del] http(2) show ?thesis by simp
  next
    case (send sid' s mid now g body d1 evs a ss1)
    with send_write [OF _ send(4)] inv have "faithful None (ch_db st) d1 evs" by (auto simp: chat_inv_def)
    from write_delivers_to_members [OF inv inv' [unfolded send(2)] this send(5) del] send(2) show ?thesis by simp
  next
    case connect
    with del show ?thesis by simp
  next
    case (enter sid' s g ss1 a)
    with del presence_no_message show ?thesis
      by (fastforce simp: join_group_def join_group_enter_def Let_def split: sum.splits)
  next
    case (exit sid' s g ss1 a)
    with del presence_no_message show ?thesis
      by (fastforce simp: leave_group_def Let_def split: option.splits if_splits)
  next
    case typing
    with del typing_no_message show ?thesis by fastforce
  next
    case (disconnect sid' s ss1)
    with del presence_no_message show ?thesis
      by (fastforce simp: ws_disconnect_def split: option.splits if_splits)
  qed
qed

section \<open>Executing requests\<close>

text \<open>The step relation as a function; \<open>None\<close> is a request that cannot happen (no such socket).\<close>

fun chat_exec :: "chat_env \<Rightarrow> chat_req \<Rightarrow> chat_state \<Rightarrow> (chat_state \<times> deliveries) option" where
  "chat_exec env (Http u r) st = (if drawn_fresh r (ch_sockets st)
     then (case http_write env u r (ch_db st) of (d1, evs) \<Rightarrow> (case on_events evs (ch_sockets st) of
       (ss1, out) \<Rightarrow> Some (\<lparr>ch_db = d1, ch_sockets = ss1\<rparr>, out))) else None)"
| "chat_exec env (Connect sid token) st =
     (if find_socket sid (ch_sockets st) = None \<and> group_id_from_room sid = None
      then (case ws_connect (ce_verify env) sid token (ch_sockets st) of
        Inl _ \<Rightarrow> None | Inr ss1 \<Rightarrow> Some (st\<lparr>ch_sockets := ss1\<rparr>, [])) else None)"
| "chat_exec env (Enter sid g) st = (case find_socket sid (ch_sockets st) of None \<Rightarrow> None
     | Some s \<Rightarrow> (case join_group s g (ch_db st) (ch_sockets st) of (ss1, out, _) \<Rightarrow> Some (st\<lparr>ch_sockets := ss1\<rparr>, out)))"
| "chat_exec env (Exit sid g) st = (case find_socket sid (ch_sockets st) of None \<Rightarrow> None
     | Some s \<Rightarrow> (case leave_group s g (ch_sockets st) of (ss1, out, _) \<Rightarrow> Some (st\<lparr>ch_sockets := ss1\<rparr>, out)))"
| "chat_exec env (Typing sid g b) st = (case find_socket sid (ch_sockets st) of None \<Rightarrow> None
     | Some s \<Rightarrow> Some (st, relay_typing s g b (ch_sockets st)))"
| "chat_exec env (Send mid now sid g body) st = (case find_socket sid (ch_sockets st) of None \<Rightarrow> None
     | Some s \<Rightarrow> (case send_message mid now s g body (ch_db st) of (d1, evs, _) \<Rightarrow>
         (case on_events evs (ch_sockets st) of (ss1, out) \<Rightarrow> Some (\<lparr>ch_db = d1, ch_sockets = ss1\<rparr>, out))))"
| "chat_exec env (Disconnect sid) st = (case find_socket sid (ch_sockets st) of None \<Rightarrow> None
     | Some s \<Rightarrow> (case ws_disconnect s (ch_sockets st) of (ss1, out) \<Rightarrow> Some (st\<lparr>ch_sockets := ss1\<rparr>, out)))"

lemma chat_exec_step: "chat_exec env r st = Some (st', out) \<Longrightarrow> chat_step env r st out st'"
  by (cases r) (auto split: if_splits prod.splits option.splits sum.splits intro: chat_step.intros)

fun chat_exec_all ::
  "chat_env \<Rightarrow> chat_req list \<Rightarrow> chat_state \<Rightarrow> (chat_state \<times> (chat_req \<times> deliveries) list) option" where
  "chat_exec_all env [] st = Some (st, [])"
| "chat_exec_all env (r # rs) st = (case chat_exec env r st of None \<Rightarrow> None
     | Some (st1, out) \<Rightarrow> map_option (\<lambda>(st2, tr). (st2, (r, out) # tr)) (chat_exec_all env rs st1))"

lemma chat_run_first:
  "chat_run env st1 tr st2 \<Longrightarrow> chat_step env r st out st1 \<Longrightarrow> chat_run env st ((r, out) # tr) st2"
proof (induction rule: chat_run.induct)
  case (stop st1)
  from chat_run.step [OF chat_run.stop stop] show ?case by simp
next
  case (step st0 tr st1 r' out' st2)
  from chat_run.step [OF step.IH [OF step.prems] step.hyps(2)] show ?case by simp
qed

lemma chat_exec_all_run:
  "chat_exec_all env rs st = Some (st', tr) \<Longrightarrow> chat_run env st tr st' \<and> map fst tr = rs"
proof (induction rs arbitrary: st tr)
  case (Cons r rs)
  from Cons.prems obtain st1 out tr' where r: "chat_exec env r st = Some (st1, out)"
    and rs: "chat_exec_all env rs st1 = Some (st', tr')" and tr: "tr = (r, out) # tr'"
    by (auto split: option.splits)
  from Cons.IH [OF rs] chat_run_first [OF _ chat_exec_step [OF r]] tr show ?case by auto
qed (auto intro: chat_run.stop)

section \<open>Properties\<close>


definition feed_env :: chat_env where
  "feed_env = \<lparr>ce_verify = (\<lambda>t. if t = ''ann'' then Inr \<lparr>jp_sub = sample_id 1, jp_email = ''ann@x.com''\<rparr>
       else if t = ''cy'' then Inr \<lparr>jp_sub = sample_id 3, jp_email = ''cy@x.com''\<rparr> else Inl ''jwt malformed''),
     ce_uuid = uuid_re, ce_emoji = (\<lambda>_. True), ce_detect = (\<lambda>_. None), 
     ce_storage = \<lparr>st_url = None, st_key = None, st_bucket = ''uploads'', st_answer = (\<lambda>_. Done)\<rparr>\<rparr>"

definition sample_chat :: chat_state where
  "sample_chat = \<lparr>ch_db = sample_db, ch_sockets = []\<rparr>"

definition sample_cy :: auth_user where
  "sample_cy = \<lparr>au_userId = sample_id 3, au_email = ''cy@x.com''\<rparr>"

definition sample_entry :: "chat_req list" where
  "sample_entry = [Connect ''s1'' (Some ''ann''), Connect ''s3'' (Some ''cy''),
     Enter ''s1'' (Some (sample_id 4)), Enter ''s3'' (Some (sample_id 4))]"

definition sample_send :: chat_req where
  "sample_send = Send (sample_id 12) 400 ''s1'' (Some (sample_id 4)) (Some ''the plan'')"

definition reaches :: "string \<Rightarrow> string \<Rightarrow> deliveries \<Rightarrow> bool" where
  "reaches sid content out \<longleftrightarrow> list_ex (\<lambda>(i, e). i = sid \<and>
     (case message_of e of None \<Rightarrow> False | Some m \<Rightarrow> bm_content m = content)) out"

lemma feed_env_signs: "signs_ids feed_env"
  by (auto simp: signs_ids_def feed_env_def)

lemma sample_chat_inv: "chat_inv sample_chat"
  unfolding chat_inv_def using sample_groups_inv by (simp add: sample_chat_def) code_simp


text \<open>
  Spelling gets around the eviction. Rooms have the name of the id as the client spelt it, while the
  database reads ids in either case. Cy enters the room of the sample group and then leaves the group
  through the route with the id in capitals: Cy is no member any more, but the eviction goes to the
  room in capitals, and Ann's next message is delivered to Cy's socket.
\<close>

lemma departure_in_capitals_keeps_the_feed:
  "\<exists>st tr st2 out. chat_run feed_env sample_chat tr st
     \<and> map fst tr = sample_entry @ [Http sample_cy (Leave (sample_caps 4))]
     \<and> \<not> is_member (ch_db st) (sample_id 3) (sample_id 4)
     \<and> chat_step feed_env sample_send st out st2 \<and> reaches ''s3'' ''the plan'' out"
proof -
  have k: "case chat_exec_all feed_env (sample_entry @ [Http sample_cy (Leave (sample_caps 4))]) sample_chat of
      None \<Rightarrow> False | Some (st1, tr) \<Rightarrow> \<not> is_member (ch_db st1) (sample_id 3) (sample_id 4) \<and>
      (case chat_exec feed_env sample_send st1 of None \<Rightarrow> False | Some (st2, out) \<Rightarrow> reaches ''s3'' ''the plan'' out)"
    by code_simp
  then obtain st1 tr where r1: "chat_exec_all feed_env (sample_entry @ [Http sample_cy (Leave (sample_caps 4))]) sample_chat
      = Some (st1, tr)" by (auto split: option.splits)
  with k obtain st2 out where r2: "chat_exec feed_env sample_send st1 = Some (st2, out)" "reaches ''s3'' ''the plan'' out"
    by (auto split: option.splits)
  with r1 k chat_exec_all_run [OF r1] chat_exec_step [OF r2(1)] show ?thesis
    by (intro exI [of _ st1] exI [of _ tr] exI [of _ st2] exI [of _ out]) simp
qed

text \<open>
  So does timing. \<open>joinGroup\<close> checks the membership and then joins the room; when the member's own
  departure commits and evicts in between, the socket enters the room of a group its user has left.
\<close>

lemma join_races_with_departure:
  "\<exists>st tr s m d1 evs ss1 out. chat_run feed_env sample_chat tr st
     \<and> find_socket ''s3'' (ch_sockets st) = Some s
     \<and> assert_member (sk_user s) (sample_id 4) (ch_db st) = Inr m
     \<and> http_write feed_env sample_cy (Leave (sample_id 4)) (ch_db st) = (d1, evs)
     \<and> on_events evs (ch_sockets st) = (ss1, out)
     \<and> list_ex (\<lambda>x. sk_id x = ''s3'' \<and> in_room (room_for (sample_id 4)) x)
         (fst (join_group_enter s (sample_id 4) ss1))
     \<and> \<not> is_member d1 (sample_id 3) (sample_id 4)"
proof -
  let ?rs = "[Connect ''s3'' (Some ''cy'')]"
  have k: "case chat_exec_all feed_env ?rs sample_chat of None \<Rightarrow> False | Some (st, tr) \<Rightarrow>
      (case find_socket ''s3'' (ch_sockets st) of None \<Rightarrow> False | Some s \<Rightarrow>
        \<not> isl (assert_member (sk_user s) (sample_id 4) (ch_db st)) \<and>
        (case http_write feed_env sample_cy (Leave (sample_id 4)) (ch_db st) of (d1, evs) \<Rightarrow>
          (case on_events evs (ch_sockets st) of (ss1, out) \<Rightarrow>
             list_ex (\<lambda>x. sk_id x = ''s3'' \<and> in_room (room_for (sample_id 4)) x)
               (fst (join_group_enter s (sample_id 4) ss1))
           \<and> \<not> is_member d1 (sample_id 3) (sample_id 4))))"
    by code_simp
  then obtain st tr where r: "chat_exec_all feed_env ?rs sample_chat = Some (st, tr)"
    by (auto split: option.splits)
  with k obtain s where s: "find_socket ''s3'' (ch_sockets st) = Some s"
    "\<not> isl (assert_member (sk_user s) (sample_id 4) (ch_db st))"
    by (auto split: option.splits)
  obtain d1 evs where w: "http_write feed_env sample_cy (Leave (sample_id 4)) (ch_db st) = (d1, evs)" by fastforce
  obtain ss1 out where e: "on_events evs (ch_sockets st) = (ss1, out)" by fastforce
  obtain m where m: "assert_member (sk_user s) (sample_id 4) (ch_db st) = Inr m"
    using s(2) by (cases "assert_member (sk_user s) (sample_id 4) (ch_db st)") auto
  from k r s w e m chat_exec_all_run [OF r] show ?thesis
    by (intro exI [of _ st] exI [of _ tr] exI [of _ s] exI [of _ m] exI [of _ d1] exI [of _ evs]
        exI [of _ ss1] exI [of _ out]) simp
qed

text \<open>
  Typing indicators are no side door: they are relayed only from a socket that is in the group's
  room, to the other sockets in that room, never back to the sender, and nothing is written. A presence
  broadcast goes to the sockets in the room and lists the users of that room's sockets, each once, less
  the socket that is leaving.
\<close>

lemma typing_and_presence_stay_in_the_room:
  "((sid, e) \<in> set (relay_typing s groupId b ss) \<longrightarrow>
      (\<exists>g x. groupId = Some g \<and> in_room (room_for g) s \<and> e = EV_USER_TYPING g (sk_user s) b
         \<and> x \<in> set ss \<and> sk_id x = sid \<and> in_room (room_for g) x \<and> sid \<noteq> sk_id s))
   \<and> ((sid, e) \<in> set (presence_broadcast g excluded ss) \<longrightarrow>
      (\<exists>users x. e = EV_PRESENCE g users \<and> x \<in> set ss \<and> sk_id x = sid \<and> in_room (room_for g) x
         \<and> distinct users
         \<and> set users = {sk_user y | y. y \<in> set ss \<and> in_room (room_for g) y \<and> Some (sk_id y) \<noteq> excluded
              \<and> sk_user y \<noteq> []}))"
  by (auto simp: relay_typing_def emit_to_others_def presence_broadcast_def emit_to_mem js_unique_def Let_def
      split: option.splits if_splits)

text \<open>Ann types, and Cy's socket hears of it.\<close>

lemma typing_and_presence_stay_in_the_room_example:
  "\<exists>g x. in_room (room_for g) \<lparr>sk_id = ''s1'', sk_user = sample_id 1, sk_email = [], sk_rooms = [room_for (sample_id 4)]\<rparr>
     \<and> sk_id x = ''s3'' \<and> in_room (room_for g) x"
proof -
  let ?s = "\<lambda>i u. \<lparr>sk_id = i, sk_user = sample_id u, sk_email = [], sk_rooms = [room_for (sample_id 4)]\<rparr>"
  have "(''s3'', EV_USER_TYPING (sample_id 4) (sample_id 1) True)
      \<in> set (relay_typing (?s ''s1'' 1) (Some (sample_id 4)) True [?s ''s1'' 1, ?s ''s3'' 3])"
    by code_simp
  with typing_and_presence_stay_in_the_room [of "''s3''" "EV_USER_TYPING (sample_id 4) (sample_id 1) True"
      "?s ''s1'' 1" "Some (sample_id 4)" True "[?s ''s1'' 1, ?s ''s3'' 3]" "[]" None]
  show ?thesis by blast
qed

end
