(* ===== verification/ClientCache.thy ===== *)
theory ClientCache
  imports Feed "HOL-Library.Multiset"
begin

text \<open>
  The browser's copy of the server state (frontend/src/lib/socket/socket-provider.tsx, lib/queries): the
  query cache with a group's detail, the loaded pages of its history and the live buffer, the handlers
  that patch it when an event arrives on the socket, and the merge of pages and buffer that the message
  list shows. A cache entry that is absent is \<open>undefined\<close> in the code; \<open>cc_older\<close> is the \<open>nextCursor\<close> of
  the last loaded page.

  The lemmas describe what one event does to what is shown, and what a socket receives of a broadcast.
\<close>

section \<open>The cache\<close>

record group_detail =
  gd_group :: group_row
  gd_members :: "joined_member list"

record client_cache =
  cc_live :: "uuid \<rightharpoonup> broadcast_message list"
  cc_history :: "uuid \<rightharpoonup> broadcast_message list list"
  cc_older :: "uuid \<rightharpoonup> string option"
  cc_detail :: "uuid \<rightharpoonup> group_detail"
  cc_groupsStale :: bool

definition live_of :: "client_cache \<Rightarrow> uuid \<Rightarrow> broadcast_message list" where
  "live_of c g = (case cc_live c g of None \<Rightarrow> [] | Some ms \<Rightarrow> ms)"

definition pages_of :: "client_cache \<Rightarrow> uuid \<Rightarrow> broadcast_message list list" where
  "pages_of c g = (case cc_history c g of None \<Rightarrow> [] | Some ps \<Rightarrow> ps)"

text \<open>The id of a member's user, as \<open>m.user.id\<close>.\<close>

definition jm_userId :: "joined_member \<Rightarrow> uuid option" where
  "jm_userId m = map_option fst (jm_user m)"

section \<open>The socket handlers\<close>

definition on_new_message :: "broadcast_message \<Rightarrow> client_cache \<Rightarrow> client_cache" where
  "on_new_message m c = (let old = live_of c (bm_groupId m)
     in c\<lparr>cc_live := (cc_live c)(bm_groupId m \<mapsto>
          (if list_ex (\<lambda>x. bm_id x = bm_id m) old then old else old @ [m]))\<rparr>)"

definition update_members ::
  "uuid \<Rightarrow> (joined_member list \<Rightarrow> joined_member list) \<Rightarrow> client_cache \<Rightarrow> client_cache" where
  "update_members g f c = c\<lparr>cc_detail := (cc_detail c)(g :=
     map_option (\<lambda>old. old\<lparr>gd_members := f (gd_members old)\<rparr>) (cc_detail c g))\<rparr>"

definition with_joined :: "joined_member \<Rightarrow> joined_member list \<Rightarrow> joined_member list" where
  "with_joined member ms = (if list_ex (\<lambda>m. jm_userId m = jm_userId member) ms then ms else ms @ [member])"

definition on_member_joined :: "uuid \<Rightarrow> joined_member \<Rightarrow> client_cache \<Rightarrow> client_cache" where
  "on_member_joined g member c = (update_members g (with_joined member) c)\<lparr>cc_groupsStale := True\<rparr>"

definition on_member_left :: "uuid \<Rightarrow> uuid \<Rightarrow> client_cache \<Rightarrow> client_cache" where
  "on_member_left g userId c =
     (update_members g (filter (\<lambda>m. jm_userId m \<noteq> Some userId)) c)\<lparr>cc_groupsStale := True\<rparr>"

definition flip_roles :: "uuid \<Rightarrow> uuid \<Rightarrow> joined_member \<Rightarrow> joined_member" where
  "flip_roles previousOwnerId newOwnerId m =
     (if jm_userId m = Some newOwnerId then m\<lparr>jm_role := OWNER\<rparr>
      else if jm_userId m = Some previousOwnerId then m\<lparr>jm_role := MEMBER\<rparr> else m)"

definition on_owner_changed :: "uuid \<Rightarrow> uuid \<Rightarrow> uuid \<Rightarrow> client_cache \<Rightarrow> client_cache" where
  "on_owner_changed g previousOwnerId newOwnerId c =
     update_members g (map (flip_roles previousOwnerId newOwnerId)) c"

definition seen_at :: "uuid \<Rightarrow> time \<Rightarrow> joined_member \<Rightarrow> joined_member" where
  "seen_at userId lastReadAt m = (if jm_userId m = Some userId then m\<lparr>jm_lastReadAt := Some lastReadAt\<rparr> else m)"

definition on_read_receipt :: "uuid \<Rightarrow> uuid \<Rightarrow> time \<Rightarrow> client_cache \<Rightarrow> client_cache" where
  "on_read_receipt g userId lastReadAt c = update_members g (map (seen_at userId lastReadAt)) c"

text \<open>Patching a message wherever it is cached: in the live buffer and in every loaded page.\<close>

definition patch_messages ::
  "uuid \<Rightarrow> (broadcast_message \<Rightarrow> broadcast_message) \<Rightarrow> client_cache \<Rightarrow> client_cache" where
  "patch_messages g f c = c\<lparr>cc_live := (cc_live c)(g \<mapsto> map f (live_of c g)),
     cc_history := (cc_history c)(g := map_option (map (map f)) (cc_history c g))\<rparr>"

definition patch_reactions :: "uuid \<Rightarrow> (string \<times> uuid) list \<Rightarrow> broadcast_message \<Rightarrow> broadcast_message" where
  "patch_reactions messageId reactions m = (if bm_id m = messageId then m\<lparr>bm_reactions := reactions\<rparr> else m)"

definition replace_message :: "broadcast_message \<Rightarrow> broadcast_message \<Rightarrow> broadcast_message" where
  "replace_message message m = (if bm_id m = bm_id message then message else m)"

definition on_reaction_updated :: "uuid \<Rightarrow> uuid \<Rightarrow> (string \<times> uuid) list \<Rightarrow> client_cache \<Rightarrow> client_cache" where
  "on_reaction_updated g messageId reactions c = patch_messages g (patch_reactions messageId reactions) c"

definition on_message_updated :: "broadcast_message \<Rightarrow> client_cache \<Rightarrow> client_cache" where
  "on_message_updated message c = patch_messages (bm_groupId message) (replace_message message) c"

text \<open>Typing and presence go to hooks of their own and leave the cache alone.\<close>

definition on_server_event :: "server_event \<Rightarrow> client_cache \<Rightarrow> client_cache" where
  "on_server_event ev c = (case ev of
     EV_NEW_MESSAGE m \<Rightarrow> on_new_message m c
   | EV_MESSAGE_UPDATED m \<Rightarrow> on_message_updated m c
   | EV_MEMBER_JOINED g m \<Rightarrow> on_member_joined g m c
   | EV_MEMBER_LEFT g u \<Rightarrow> on_member_left g u c
   | EV_OWNER_CHANGED g old new \<Rightarrow> on_owner_changed g old new c
   | EV_REACTION_UPDATED g m rs \<Rightarrow> on_reaction_updated g m rs c
   | EV_READ_RECEIPT g u at \<Rightarrow> on_read_receipt g u at c
   | EV_USER_TYPING _ _ _ \<Rightarrow> c
   | EV_PRESENCE _ _ \<Rightarrow> c)"

text \<open>What the deliveries of one step do to the cache behind the socket \<open>sid\<close>.\<close>

definition receive :: "string \<Rightarrow> deliveries \<Rightarrow> client_cache \<Rightarrow> client_cache" where
  "receive sid out c = fold (\<lambda>(i, ev) c. if i = sid then on_server_event ev c else c) out c"

section \<open>The message list\<close>

text \<open>\<open>Map.set\<close>: a known key keeps its place and gets the new value.\<close>

definition by_id_set :: "broadcast_message \<Rightarrow> broadcast_message list \<Rightarrow> broadcast_message list" where
  "by_id_set m ms = (if list_ex (\<lambda>x. bm_id x = bm_id m) ms
     then map (\<lambda>x. if bm_id x = bm_id m then m else x) ms else ms @ [m])"

definition cached_messages :: "client_cache \<Rightarrow> uuid \<Rightarrow> broadcast_message list" where
  "cached_messages c g = concat (pages_of c g) @ live_of c g"

text \<open>
  What \<open>useGroupMessages\<close> returns. \<open>localeCompare\<close> on ISO texts of four-digit years compares the
  instants, and on ids in lower case it is the order of the code units.
\<close>

definition bm_key :: "broadcast_message \<Rightarrow> time \<times> uuid" where
  "bm_key m = (bm_createdAt m, bm_id m)"

definition group_messages :: "client_cache \<Rightarrow> uuid \<Rightarrow> broadcast_message list" where
  "group_messages c g = sort_key bm_key (fold by_id_set (cached_messages c g) [])"

section \<open>What a socket receives\<close>

definition watching :: "string \<Rightarrow> uuid \<Rightarrow> socket list \<Rightarrow> bool" where
  "watching sid g ss \<longleftrightarrow> list_ex (\<lambda>s. sk_id s = sid \<and> in_room (room_for g) s) ss"

lemma receive_append [simp]: "receive sid (a @ b) c = receive sid b (receive sid a c)"
  by (simp add: receive_def)

lemma receive_Nil [simp]: "receive sid [] c = c"
  by (simp add: receive_def)

lemma receive_Cons [simp]:
  "receive sid ((i, ev) # out) c = receive sid out (if i = sid then on_server_event ev c else c)"
  by (simp add: receive_def)

lemma receive_emit_absent:
  "sid \<notin> sk_id ` set ss \<Longrightarrow> receive sid (emit_to room ev ss) c = c"
  by (induction ss) (auto simp: emit_to_def)

lemma receive_emit:
  "distinct (map sk_id ss) \<Longrightarrow> receive sid (emit_to (room_for g) ev ss) c
     = (if watching sid g ss then on_server_event ev c else c)"
proof (induction ss)
  case Nil
  then show ?case by (simp add: emit_to_def watching_def)
next
  case (Cons s ss)
  have cons: "receive sid (emit_to (room_for g) ev (s # ss)) c = receive sid (emit_to (room_for g) ev ss)
      (if in_room (room_for g) s \<and> sk_id s = sid then on_server_event ev c else c)"
    by (simp add: emit_to_def)
  show ?case
  proof (cases "sk_id s = sid")
    case True
    with Cons.prems have "sid \<notin> sk_id ` set ss" by auto
    with True show ?thesis
      unfolding cons by (auto simp: receive_emit_absent watching_def list_ex_iff image_iff)
  next
    case False
    with Cons show ?thesis unfolding cons by (simp add: watching_def)
  qed
qed

text \<open>Events that only hooks listen to.\<close>

lemma receive_hooks:
  "(\<And>i ev c. (i, ev) \<in> set out \<Longrightarrow> on_server_event ev c = c) \<Longrightarrow> receive sid out c = c"
proof (induction out)
  case (Cons p out)
  obtain i ev where p: "p = (i, ev)" by fastforce
  with Cons.prems [of i ev] have "on_server_event ev c = c" by simp
  moreover have "receive sid out c = c"
    by (rule Cons.IH) (use Cons.prems in auto)
  ultimately show ?case by (simp add: p)
qed simp

lemma receive_presence [simp]: "receive sid (presence_broadcast g x ss) c = c"
  by (rule receive_hooks) (auto simp: presence_broadcast_def Let_def emit_to_def on_server_event_def)

lemma receive_typing [simp]: "receive sid (relay_typing s g b ss) c = c"
  by (rule receive_hooks) (auto simp: relay_typing_def emit_to_others_def on_server_event_def split: option.splits if_splits)

text \<open>The client's side of one application event.\<close>

definition on_app_event :: "app_event \<Rightarrow> client_cache \<Rightarrow> client_cache" where
  "on_app_event ev c = (case ev of
     MESSAGE_CREATED m \<Rightarrow> on_new_message m c
   | MESSAGE_UPDATED m \<Rightarrow> on_message_updated m c
   | MEMBER_JOINED g m \<Rightarrow> on_member_joined g m c
   | MEMBER_LEFT g u \<Rightarrow> on_member_left g u c
   | OWNER_CHANGED g old new \<Rightarrow> on_owner_changed g old new c
   | REACTION_CHANGED g m rs \<Rightarrow> on_reaction_updated g m rs c
   | READ_MARKED g u at \<Rightarrow> on_read_receipt g u at c)"

fun event_group :: "app_event \<Rightarrow> uuid" where
  "event_group (MESSAGE_CREATED m) = bm_groupId m"
| "event_group (MESSAGE_UPDATED m) = bm_groupId m"
| "event_group (MEMBER_JOINED g m) = g"
| "event_group (MEMBER_LEFT g u) = g"
| "event_group (OWNER_CHANGED g old new) = g"
| "event_group (REACTION_CHANGED g m rs) = g"
| "event_group (READ_MARKED g u at) = g"

lemma receive_on_event:
  assumes "on_event ev ss = (ss', out)" and "distinct (map sk_id ss)"
  shows "receive sid out c = (if watching sid (event_group ev) ss then on_app_event ev c else c)"
  using assms
  by (cases ev) (auto simp: on_event_def Let_def receive_emit on_app_event_def on_server_event_def)

lemma watching_shrinks: "shrinks ss ss' \<Longrightarrow> watching sid g ss' \<Longrightarrow> watching sid g ss"
  using shrinks_from [of ss ss'] by (fastforce simp: watching_def list_ex_iff in_room_def)

text \<open>
  What concerns a group, seen through \<open>view\<close>: a socket that is in the group's room at the end was
  in it all along, and has received every event of the group in the order of the events.
\<close>

lemma receive_on_events:
  assumes "on_events evs ss = (ss', out)" and "distinct (map sk_id ss)" and "watching sid g ss'"
    and other: "\<And>ev c. ev \<in> set evs \<Longrightarrow> event_group ev \<noteq> g \<Longrightarrow> view (on_app_event ev c) = view c"
    and own: "\<And>ev c. ev \<in> set evs \<Longrightarrow> event_group ev = g \<Longrightarrow> view (on_app_event ev c) = effect ev (view c)"
    and idle: "\<And>ev v. ev \<in> set evs \<Longrightarrow> event_group ev \<noteq> g \<Longrightarrow> effect ev v = v"
  shows "view (receive sid out c) = fold effect evs (view c)"
  using assms
proof (induction evs arbitrary: ss out c)
  case (Cons ev evs)
  from Cons.prems(1) obtain ss1 out1 out2 where ev: "on_event ev ss = (ss1, out1)"
    and rest: "on_events evs ss1 = (ss', out2)" and out: "out = out1 @ out2" by (auto split: prod.splits)
  have dist: "distinct (map sk_id ss1)" using shrinks_ids [OF on_event_shrinks [OF ev]] Cons.prems(2) by simp
  have "watching sid g ss1" using watching_shrinks [OF on_events_shrinks [OF rest] Cons.prems(3)] .
  then have w: "watching sid g ss" using watching_shrinks [OF on_event_shrinks [OF ev]] by blast
  have "view (receive sid out1 c) = effect ev (view c)"
    using w Cons.prems(4-6) by (cases "event_group ev = g") (auto simp: receive_on_event [OF ev Cons.prems(2)])
  moreover have "view (receive sid out2 (receive sid out1 c)) = fold effect evs (view (receive sid out1 c))"
    by (rule Cons.IH [OF rest dist Cons.prems(3)]) (use Cons.prems(4-6) in auto)
  ultimately show ?case by (simp add: out)
qed simp

section \<open>One event, seen in the member panel\<close>

definition shown_members :: "uuid \<Rightarrow> client_cache \<Rightarrow> joined_member multiset option" where
  "shown_members g c = map_option (\<lambda>gd. mset (gd_members gd)) (cc_detail c g)"

definition member_effect :: "uuid \<Rightarrow> app_event \<Rightarrow> joined_member multiset \<Rightarrow> joined_member multiset" where
  "member_effect g ev V = (if event_group ev \<noteq> g then V else case ev of
     MEMBER_JOINED _ m \<Rightarrow> (if \<exists>x \<in># V. jm_userId x = jm_userId m then V else add_mset m V)
   | MEMBER_LEFT _ u \<Rightarrow> filter_mset (\<lambda>m. jm_userId m \<noteq> Some u) V
   | OWNER_CHANGED _ old new \<Rightarrow> image_mset (flip_roles old new) V
   | READ_MARKED _ u at \<Rightarrow> image_mset (seen_at u at) V
   | _ \<Rightarrow> V)"

lemma shown_update_members:
  "shown_members g (update_members h f c) =
     (if h = g then map_option (\<lambda>gd. mset (f (gd_members gd))) (cc_detail c g) else shown_members g c)"
  by (simp add: shown_members_def update_members_def option.map_comp comp_def)

lemma shown_stale [simp]: "shown_members g (c\<lparr>cc_groupsStale := b\<rparr>) = shown_members g c"
  by (simp add: shown_members_def)

lemma shown_patch [simp]: "shown_members g (patch_messages h f c) = shown_members g c"
  "shown_members g (on_new_message m c) = shown_members g c"
  by (simp_all add: shown_members_def patch_messages_def on_new_message_def Let_def)

lemma member_effect_other: "event_group ev \<noteq> g \<Longrightarrow> member_effect g ev = (\<lambda>V. V)"
  by (simp add: fun_eq_iff member_effect_def)

lemma member_effect_app_event:
  "shown_members g (on_app_event ev c) = map_option (member_effect g ev) (shown_members g c)"
proof (cases "event_group ev = g")
  case True
  have ex: "(\<exists>x \<in># mset ms. P x) \<longleftrightarrow> list_ex P ms" for P and ms :: "joined_member list"
    by (auto simp: list_ex_iff)
  have j: "mset (with_joined m ms)
      = (if \<exists>x \<in># mset ms. jm_userId x = jm_userId m then mset ms else add_mset m (mset ms))" for m ms
    unfolding ex by (simp add: with_joined_def)
  from True show ?thesis
    by (cases ev; cases "cc_detail c g") (simp_all add: on_app_event_def member_effect_def on_member_joined_def
        on_member_left_def on_owner_changed_def on_read_receipt_def on_reaction_updated_def on_message_updated_def
        shown_update_members j, simp_all add: shown_members_def member_effect_def)
next
  case False
  then show ?thesis
    by (cases ev) (simp_all add: on_app_event_def member_effect_other on_member_joined_def on_member_left_def
        on_owner_changed_def on_read_receipt_def on_reaction_updated_def on_message_updated_def
        shown_update_members option.map_ident)
qed

lemma receive_members:
  assumes "on_events evs ss = (ss', out)" and "distinct (map sk_id ss)" and "watching sid g ss'"
  shows "shown_members g (receive sid out c) = map_option (fold (member_effect g) evs) (shown_members g c)"
proof -
  have "shown_members g (receive sid out c) = fold (\<lambda>ev. map_option (member_effect g ev)) evs (shown_members g c)"
    by (rule receive_on_events [OF assms])
      (simp_all add: member_effect_app_event member_effect_other option.map_ident)
  moreover have "fold (\<lambda>ev. map_option (member_effect g ev)) evs v = map_option (fold (member_effect g) evs) v" for v
    by (induction evs arbitrary: v) (simp_all add: option.map_comp comp_def option.map_id)
  ultimately show ?thesis by simp
qed

section \<open>One event, seen in the message list\<close>

definition message_effect :: "uuid \<Rightarrow> app_event \<Rightarrow> broadcast_message set \<Rightarrow> broadcast_message set" where
  "message_effect g ev M = (if event_group ev \<noteq> g then M else case ev of
     MESSAGE_CREATED m \<Rightarrow> insert m M
   | MESSAGE_UPDATED m \<Rightarrow> replace_message m ` M
   | REACTION_CHANGED _ mid rs \<Rightarrow> patch_reactions mid rs ` M
   | _ \<Rightarrow> M)"

lemma cached_update_members [simp]: "cached_messages (update_members h f c) g = cached_messages c g"
  "cached_messages (c\<lparr>cc_groupsStale := b\<rparr>) g = cached_messages c g"
  by (simp_all add: cached_messages_def update_members_def pages_of_def live_of_def)

lemma cached_patch:
  "set (cached_messages (patch_messages h f c) g) =
     (if h = g then f ` set (cached_messages c g) else set (cached_messages c g))"
proof -
  have "concat (map (map f) ps) = map f (concat ps)" for ps by (induction ps) auto
  then show ?thesis
    by (cases "cc_history c g") (auto simp: cached_messages_def patch_messages_def pages_of_def live_of_def)
qed

lemma cached_new:
  "(\<forall>x \<in> set (cached_messages c g). bm_id x = bm_id m \<longrightarrow> x = m) \<Longrightarrow> bm_groupId m = g \<Longrightarrow>
     set (cached_messages (on_new_message m c) g) = insert m (set (cached_messages c g))"
  by (auto simp: cached_messages_def on_new_message_def pages_of_def live_of_def Let_def list_ex_iff
      split: option.splits)

lemma cached_new_other:
  "bm_groupId m \<noteq> g \<Longrightarrow> cached_messages (on_new_message m c) g = cached_messages c g"
  by (simp add: cached_messages_def on_new_message_def pages_of_def live_of_def Let_def)

lemma message_effect_app_event:
  assumes "\<And>m. ev = MESSAGE_CREATED m \<Longrightarrow> bm_groupId m = g \<Longrightarrow>
    \<forall>x \<in> set (cached_messages c g). bm_id x = bm_id m \<longrightarrow> x = m"
  shows "set (cached_messages (on_app_event ev c) g) = message_effect g ev (set (cached_messages c g))"
  using assms
  by (cases ev) (simp_all add: on_app_event_def message_effect_def on_member_joined_def on_member_left_def
      on_owner_changed_def on_read_receipt_def on_reaction_updated_def on_message_updated_def cached_patch
      cached_new cached_new_other)

text \<open>Merging: each id once, with the value that was set last.\<close>

lemma by_id_set_ids: "distinct (map bm_id ms) \<Longrightarrow> distinct (map bm_id (by_id_set m ms))"
proof -
  assume d: "distinct (map bm_id ms)"
  have "map bm_id (map (\<lambda>x. if bm_id x = bm_id m then m else x) ms) = map bm_id ms"
    by (induction ms) auto
  with d show ?thesis by (auto simp: by_id_set_def list_ex_iff simp del: map_map)
qed

lemma merge_coherent:
  assumes "\<forall>x \<in> set xs \<union> set acc. \<forall>y \<in> set xs \<union> set acc. bm_id x = bm_id y \<longrightarrow> x = y"
    and "distinct (map bm_id acc)"
  shows "set (fold by_id_set xs acc) = set xs \<union> set acc \<and> distinct (map bm_id (fold by_id_set xs acc))"
  using assms
proof (induction xs arbitrary: acc)
  case (Cons x xs)
  have set: "set (by_id_set x acc) = insert x (set acc)"
  proof (cases "list_ex (\<lambda>y. bm_id y = bm_id x) acc")
    case True
    then obtain y where "y \<in> set acc" "bm_id y = bm_id x" by (auto simp: list_ex_iff)
    with Cons.prems(1) have "x \<in> set acc" by (metis Un_iff list.set_intros(1))
    moreover have "map (\<lambda>y. if bm_id y = bm_id x then x else y) acc = map id acc"
      using Cons.prems(1) by (intro map_cong) auto
    ultimately show ?thesis using True by (auto simp: by_id_set_def)
  qed (auto simp: by_id_set_def)
  from Cons.IH [of "by_id_set x acc"] Cons.prems show ?case
    by (simp add: set by_id_set_ids)
qed simp

end
