(* ===== verification/ClientSync.thy ===== *)
theory ClientSync
  imports ClientCache
begin

text \<open>
  The browser follows the server. A client that has loaded a group and whose socket stays in the group's
  room is run next to the chat of \<open>Feed\<close>: every step of any user delivers events, and the client's
  handlers patch its cache. The lemmas describe each write by what it does to a group's members and
  messages, and show that the events it emits do the same to the cache: what the member panel and the
  message list show is what the server would answer.
\<close>

section \<open>A client in the room\<close>

text \<open>The ids of a request, as far as events carry them, in lower case.\<close>

fun lower_ids :: "http_req \<Rightarrow> bool" where
  "lower_ids (JoinGroup mid now g) \<longleftrightarrow> as_uuid g = g"
| "lower_ids (Leave g) \<longleftrightarrow> as_uuid g = g"
| "lower_ids (MarkRead now g) \<longleftrightarrow> as_uuid g = g"
| "lower_ids (Transfer g t) \<longleftrightarrow> as_uuid g = g \<and> as_uuid t = t"
| "lower_ids (Toggle rid now g m emoji) \<longleftrightarrow> as_uuid g = g \<and> as_uuid m = m"
| "lower_ids _ \<longleftrightarrow> True"

fun lower_spelt :: "chat_req \<Rightarrow> bool" where
  "lower_spelt (Http u r) \<longleftrightarrow> as_uuid (au_userId u) = au_userId u \<and> lower_ids r"
| "lower_spelt _ \<longleftrightarrow> True"

lemma lower_well_spelt: "lower_spelt r \<Longrightarrow> well_spelt r"
  by (cases r rule: well_spelt.cases) auto

section \<open>What a write does to a group\<close>

definition member_view :: "uuid \<Rightarrow> db \<Rightarrow> joined_member multiset" where
  "member_view g d = image_mset (member_select d) (filter_mset (\<lambda>m. gm_groupId m = g) (mset (db_members d)))"

definition message_view :: "(time \<times> uuid) set \<Rightarrow> uuid \<Rightarrow> db \<Rightarrow> broadcast_message set" where
  "message_view older g d =
     message_select d ` {m \<in> set (db_messages d). ms_groupId m = g \<and> message_key m \<notin> older}"

lemma member_select_users: "db_users d' = db_users d \<Longrightarrow> member_select d' = member_select d"
  by (auto simp: member_select_def find_user_def)

lemma image_filter_cong:
  assumes "\<And>m. m \<in># M \<Longrightarrow> B m = B' m" and "\<And>m. m \<in># M \<Longrightarrow> B m \<Longrightarrow> A m = A' m"
  shows "image_mset A (filter_mset B M) = image_mset A' (filter_mset B' M)"
proof -
  have "filter_mset B M = filter_mset B' M"
    using assms(1) by (intro filter_mset_cong) auto
  moreover have "image_mset A (filter_mset B M) = image_mset A' (filter_mset B M)"
    using assms(2) by (intro image_mset_cong) auto
  ultimately show ?thesis by simp
qed

lemma mset_update_where: "mset (update_where P f t) = image_mset (\<lambda>r. if P r then f r else r) (mset t)"
  by (simp add: update_where_def)

lemma mset_delete_where: "mset (delete_where P t) = filter_mset (\<lambda>r. \<not> P r) (mset t)"
  by (simp add: delete_where_def mset_filter)

lemma view_userId:
  "db_wf d \<Longrightarrow> m \<in> set (db_members d) \<Longrightarrow> jm_userId (member_select d m) = Some (gm_userId m)"
  using find_user_has_user [of d "gm_userId m"] find_user_Some
  by (fastforce simp: jm_userId_def member_select_def db_wf_def refs_ok_def list_all_iff)

lemma view_same: "db_members d' = db_members d \<Longrightarrow> db_users d' = db_users d \<Longrightarrow> member_view g d' = member_view g d"
  by (simp add: member_view_def member_select_users [of d' d])

text \<open>Replacing rows: the view changes pointwise.\<close>

lemma view_update:
  assumes "db_members d' = map f (db_members d)" and "db_users d' = db_users d"
    and "\<And>m. m \<in> set (db_members d) \<Longrightarrow> gm_groupId (f m) = gm_groupId m"
    and "\<And>m. m \<in> set (db_members d) \<Longrightarrow> gm_groupId m = g \<Longrightarrow> member_select d (f m) = h (member_select d m)"
  shows "member_view g d' = image_mset h (member_view g d)"
  using assms
  by (simp add: member_view_def member_select_users [OF assms(2)] filter_mset_image_mset image_mset.compositionality)
    (rule image_filter_cong; simp)

subsection \<open>join, markRead, leave, transferOwnership\<close>

lemma join_view:
  assumes run: "groups_join mid now u h d = (d', evs, r)" and wf: "db_wf d" and h: "as_uuid h = h"
  shows "fold (member_effect g) evs (member_view g d) = member_view g d' \<and> db_users d' = db_users d"
proof (cases r)
  case (Inl e)
  with run have "d' = d" "evs = []" by (auto simp: groups_join_def Let_def split: option.splits sum.splits)
  then show ?thesis by simp
next
  case (Inr x)
  let ?m = "\<lparr>gm_id = mid, gm_groupId = h, gm_userId = as_uuid u, gm_role = MEMBER,
      gm_joinedAt = now, gm_lastReadAt = None\<rparr>"
  note j = groups_join_Inr [OF run [unfolded Inr], unfolded h]
  have users: "db_users d' = db_users d" using j(5)
    by (auto simp: db_create_member_def split: option.splits if_splits)
  have evs: "evs = [MEMBER_JOINED h (member_select d' ?m)]"
    using run Inr by (auto simp: groups_join_def Let_def h split: option.splits sum.splits)
  have wf': "db_wf d'" using j(5) wf by (rule db_create_member_wf)
  have absent: "jm_userId x \<noteq> jm_userId (member_select d' ?m)" if "x \<in># member_view h d" for x
  proof -
    from that obtain m where m: "m \<in> set (db_members d)" "gm_groupId m = h" "x = member_select d m"
      by (auto simp: member_view_def)
    have "gm_userId m \<noteq> as_uuid u" using j(3) m(1,2) h by (auto simp: is_member_def list_ex_iff)
    moreover have "jm_userId (member_select d' ?m) = Some (as_uuid u)"
      using view_userId [OF wf', of ?m] j(1) by simp
    ultimately show ?thesis using view_userId [OF wf m(1)] m(3) by simp
  qed
  have "member_view g d' = (if h = g then add_mset (member_select d' ?m) (member_view g d) else member_view g d)"
    by (simp add: member_view_def j(1) member_select_users [OF users] h)
  with absent users show ?thesis by (auto simp: evs member_effect_def)
qed

lemma read_view:
  assumes run: "mark_read now u h d = (d', evs, r)" and wf: "db_wf d" and low: "as_uuid h = h" "as_uuid u = u"
  shows "fold (member_effect g) evs (member_view g d) = member_view g d' \<and> db_users d' = db_users d"
proof (cases r)
  case (Inl e)
  with run have "d' = d" "evs = []" by (auto simp: mark_read_def split: sum.splits)
  then show ?thesis by simp
next
  case (Inr x)
  let ?f = "\<lambda>m. if gm_groupId m = h \<and> gm_userId m = u then m\<lparr>gm_lastReadAt := Some now\<rparr> else m"
  have d': "d' = d\<lparr>db_members := map ?f (db_members d)\<rparr>" and evs: "evs = [READ_MARKED h u now]"
    using run Inr low by (auto simp: mark_read_def db_update_member_def update_where_def split: sum.splits if_splits)
  have "member_view g d' = image_mset (if h = g then seen_at u now else id) (member_view g d)"
  proof (rule view_update [where f = ?f])
    show "member_select d (?f m) = (if h = g then seen_at u now else id) (member_select d m)"
      if "m \<in> set (db_members d)" "gm_groupId m = g" for m
      using view_userId [OF wf that(1)] that(2) by (auto simp: seen_at_def) (simp_all add: member_select_def)
  qed (simp_all add: d')
  then show ?thesis by (simp add: evs member_effect_def d')
qed

text \<open>A change of roles by row id is a change of roles by user within the group.\<close>

lemma role_view:
  assumes wf: "db_wf d" and m: "m \<in> set (db_members d)" and x: "x \<in> set (db_members d)" "gm_groupId x = gm_groupId m"
  shows "jm_userId (member_select d x) = Some (gm_userId m) \<longleftrightarrow> gm_id x = gm_id m"
  using view_userId [OF wf x(1)] same_member_key [OF wf x(1) m x(2)] same_member_id [OF wf x(1) m] by auto

lemma transfer_view:
  assumes run: "transfer_ownership a h t d = (d', evs, r)" and wf: "db_wf d"
    and low: "as_uuid h = h" "as_uuid a = a" "as_uuid t = t"
  shows "fold (member_effect g) evs (member_view g d) = member_view g d' \<and> db_users d' = db_users d"
proof (cases r)
  case (Inl e)
  with run have "d' = d" "evs = []" by (auto simp: transfer_ownership_def split: sum.splits if_splits)
  then show ?thesis by simp
next
  case (Inr out)
  with run obtain p where p: "transfer_read a h t d = Inr p" and wr: "transfer_write p d = Inr d'"
    and evs: "evs = [OWNER_CHANGED h a t]" and ne: "a \<noteq> t"
    by (auto simp: transfer_ownership_def split: sum.splits if_splits)
  from p obtain me tg where me: "find_membership a h d = Some me" and tg: "find_membership t h d = Some tg"
    and p_eq: "p = (gm_id tg, gm_id me)" by (rule transfer_read_Inr)
  note me_in = find_membership_SomeD [OF me] and tg_in = find_membership_SomeD [OF tg]
  from wr p_eq obtain d1 where d1: "set_role (gm_id tg) OWNER d = Inr d1"
    and d2: "set_role (gm_id me) MEMBER d1 = Inr d'" by (auto simp: transfer_write_def split: sum.splits)
  let ?f = "\<lambda>m. if gm_id m = gm_id me then m\<lparr>gm_role := MEMBER\<rparr>
      else if gm_id m = gm_id tg then m\<lparr>gm_role := OWNER\<rparr> else m"
  have d': "d' = d\<lparr>db_members := map ?f (db_members d)\<rparr>"
    unfolding set_role_Inr [OF d2] set_role_Inr [OF d1] by (simp add: update_where_def)
  have differ: "gm_id me \<noteq> gm_id tg"
    using same_member_id [OF wf conjunct1 [OF me_in] conjunct1 [OF tg_in]] me_in tg_in ne low by auto
  have "member_view g d' = image_mset (if h = g then flip_roles a t else id) (member_view g d)"
  proof (rule view_update [where f = ?f])
    show "member_select d (?f m) = (if h = g then flip_roles a t else id) (member_select d m)"
      if m: "m \<in> set (db_members d)" "gm_groupId m = g" for m
    proof (cases "h = g")
      case True
      with m me_in tg_in low have "gm_groupId m = gm_groupId me" "gm_groupId m = gm_groupId tg" by simp_all
      with role_view [OF wf conjunct1 [OF me_in] m(1)] role_view [OF wf conjunct1 [OF tg_in] m(1)] me_in tg_in low True differ
      show ?thesis by (auto simp: flip_roles_def) (simp_all add: member_select_def)
    next
      case False
      with m me_in tg_in low same_member_id [OF wf m(1) conjunct1 [OF me_in]]
        same_member_id [OF wf m(1) conjunct1 [OF tg_in]] show ?thesis by auto
    qed
  qed (simp_all add: d')
  then show ?thesis by (simp add: evs member_effect_def d')
qed

lemma delete_view:
  assumes wf: "db_wf d" and me: "me \<in> set (db_members d)"
    and d': "db_members d' = delete_where (\<lambda>m. gm_id m = gm_id me) (db_members d)" "db_users d' = db_users d"
  shows "member_view g d' = (if gm_groupId me = g
    then filter_mset (\<lambda>m. jm_userId m \<noteq> Some (gm_userId me)) (member_view g d) else member_view g d)"
proof -
  have v: "member_view g d' = image_mset (member_select d)
      (filter_mset (\<lambda>m. gm_groupId m = g \<and> gm_id m \<noteq> gm_id me) (mset (db_members d)))"
    by (simp add: member_view_def d' mset_delete_where member_select_users [OF d'(2)] filter_filter_mset conj_commute)
  show ?thesis
  proof (cases "gm_groupId me = g")
    case True
    have "member_view g d' = image_mset (member_select d) (filter_mset (\<lambda>m. gm_groupId m = g
        \<and> jm_userId (member_select d m) \<noteq> Some (gm_userId me)) (mset (db_members d)))"
      unfolding v using role_view [OF wf me] True by (intro image_filter_cong) auto
    with True show ?thesis by (simp add: member_view_def filter_mset_image_mset filter_filter_mset comp_def)
  next
    case False
    have "member_view g d' = image_mset (member_select d) (filter_mset (\<lambda>m. gm_groupId m = g) (mset (db_members d)))"
      unfolding v using same_member_id [OF wf _ me] False by (intro image_filter_cong) auto
    with False show ?thesis by (simp add: member_view_def)
  qed
qed

lemma promoted_view:
  assumes wf: "db_wf d" and s: "s \<in> set (db_members d)" and d1: "set_role (gm_id s) OWNER d = Inr d1"
  shows "member_view g d1 = (if gm_groupId s = g
    then image_mset (\<lambda>m. if jm_userId m = Some (gm_userId s) then m\<lparr>jm_role := OWNER\<rparr> else m) (member_view g d)
    else member_view g d)"
proof -
  let ?f = "\<lambda>m. if gm_id m = gm_id s then m\<lparr>gm_role := OWNER\<rparr> else m"
    and ?h = "if gm_groupId s = g
      then (\<lambda>m. if jm_userId m = Some (gm_userId s) then m\<lparr>jm_role := OWNER\<rparr> else m) else id"
  have "member_view g d1 = image_mset ?h (member_view g d)"
  proof (rule view_update [where f = ?f])
    show "member_select d (?f m) = ?h (member_select d m)" if m: "m \<in> set (db_members d)" "gm_groupId m = g" for m
          proof (cases "gm_groupId s = g")
      case True
      with role_view [OF wf s m(1)] m(2) show ?thesis by (simp add: member_select_def)
    next
      case False
      with same_member_id [OF wf m(1) s] m(2) show ?thesis by auto
    qed
  qed (auto simp: set_role_Inr [OF d1] update_where_def)
  then show ?thesis by simp
qed

lemma jm_userId_role [simp]: "jm_userId (m\<lparr>jm_role := r\<rparr>) = jm_userId m"
  by (simp add: jm_userId_def)

lemma flip_then_leave:
  "filter_mset (\<lambda>m. jm_userId m \<noteq> Some u) (image_mset (flip_roles u s) V) = filter_mset (\<lambda>m. jm_userId m \<noteq> Some u)
     (image_mset (\<lambda>m. if jm_userId m = Some s then m\<lparr>jm_role := OWNER\<rparr> else m) V)"
  unfolding filter_mset_image_mset by (rule image_filter_cong) (auto simp: flip_roles_def)

lemma leave_view:
  assumes run: "groups_leave u h d = (d', evs, r)" and wf: "db_wf d" and low: "as_uuid h = h" "as_uuid u = u"
    and ids: "\<forall>x \<in> set (db_users d). u_id x \<noteq> []" and kept: "has_group d' g"
  shows "fold (member_effect g) evs (member_view g d) = member_view g d' \<and> db_users d' = db_users d"
proof (cases r)
  case (Inl e)
  with run have "d' = d" "evs = []" by (auto simp: groups_leave_def split: sum.splits)
  then show ?thesis by simp
next
  case (Inr out)
  with run obtain plan where plan: "leave_read u h d = Inr plan"
    and wr: "leave_write h plan d = Inr (d', out)" and evs: "evs = leave_events u h out"
    by (auto simp: groups_leave_def split: sum.splits)
  from plan show ?thesis
  proof (cases rule: leave_read_cases)
    case (last me)
    with wr have del: "db_delete_group h d = Inr d'" and out: "lo_groupDeleted out" "lo_newOwnerId out = None"
      by (auto simp: leave_write_def low split: sum.splits)
    then have d': "db_members d' = delete_where (\<lambda>m. gm_groupId m = h) (db_members d)" "db_users d' = db_users d"
      "db_groups d' = delete_where (\<lambda>x. g_id x = h) (db_groups d)"
      by (auto simp: db_delete_group_def split: if_splits)
    have "h \<noteq> g" using kept d'(3) by (auto simp: has_group_def list_ex_iff row_simps)
    then have "member_view g d' = member_view g d"
      by (simp add: member_view_def d' mset_delete_where member_select_users [OF d'(2)] filter_filter_mset)
        (rule image_filter_cong; auto)
    with d'(2) out show ?thesis by (simp add: evs leave_events_def)
  next
    case (member me)
    note me = find_membership_SomeD [OF member(1)]
    from member wr have del: "db_delete_member (\<lambda>m. gm_id m = gm_id me) d = Inr d'"
      and out: "\<not> lo_groupDeleted out" "lo_newOwnerId out = None" by (auto simp: leave_write_def split: sum.splits)
    with db_delete_member_Inr [OF del] delete_view [OF wf, of me d' g] me low show ?thesis
      by (simp add: evs leave_events_def member_effect_def)
  next
    case (owner me s)
    note me = find_membership_SomeD [OF owner(1)] and s = first_by_SomeD [OF owner(3)]
    from owner wr obtain d1 where d1: "set_role (gm_id s) OWNER d = Inr d1"
      and del: "db_delete_member (\<lambda>m. gm_id m = gm_id me) d1 = Inr d'"
      and out: "\<not> lo_groupDeleted out" "lo_newOwnerId out = Some (gm_userId s)"
      by (auto simp: leave_write_def split: sum.splits)
    have "has_user d (gm_userId s)" using wf s(1) by (auto simp: db_wf_def refs_ok_def list_all_iff)
    then have named: "gm_userId s \<noteq> []" using ids by (auto simp: has_user_def list_ex_iff)
    have wf1: "db_wf d1" using d1 wf by (rule set_role_wf)
    have ne: "gm_id me \<noteq> gm_id s" using same_member_id [OF wf conjunct1 [OF me] s(1)] me s(2) by auto
    then have me1: "me \<in> set (db_members d1)"
      using me by (force simp: set_role_Inr [OF d1] row_simps)
    have users: "db_users d' = db_users d1" "db_users d1 = db_users d"
      using db_delete_member_Inr [OF del] set_role_Inr [OF d1] by simp_all
    have "member_view g d' = (if h = g then filter_mset (\<lambda>m. jm_userId m \<noteq> Some u) (image_mset
        (\<lambda>m. if jm_userId m = Some (gm_userId s) then m\<lparr>jm_role := OWNER\<rparr> else m) (member_view g d)) else member_view g d)"
      using delete_view [OF wf1 me1, of d' g] promoted_view [OF wf s(1) d1, of g] db_delete_member_Inr [OF del]
        me s(2) low by simp
    with users show ?thesis
      by (simp add: evs leave_events_def out named member_effect_def flip_then_leave)
  qed
qed

subsection \<open>Messages\<close>

text \<open>Messages that the client has not loaded stay where they are.\<close>

definition older_ok :: "(time \<times> uuid) set \<Rightarrow> uuid \<Rightarrow> db \<Rightarrow> bool" where
  "older_ok older g d \<longleftrightarrow> (\<forall>k \<in> older. \<exists>m \<in> set (db_messages d). message_key m = k \<and> ms_groupId m = g)"

text \<open>An update of a message keeps its ids and its place in the history.\<close>

definition keeps_place :: "(message_row \<Rightarrow> message_row) \<Rightarrow> bool" where
  "keeps_place f \<longleftrightarrow> (\<forall>m. ms_id (f m) = ms_id m \<and> ms_groupId (f m) = ms_groupId m \<and> message_key (f m) = message_key m)"

lemma keeps_place_updates [simp]:
  "keeps_place (\<lambda>m. m\<lparr>ms_content := c, ms_editedAt := e\<rparr>)" "keeps_place (\<lambda>m. m\<lparr>ms_content := c, ms_deletedAt := e\<rparr>)"
  by (simp_all add: keeps_place_def message_key_def)

lemma message_select_same:
  "db_users d' = db_users d \<Longrightarrow> reactions_of d' (ms_id m) = reactions_of d (ms_id m) \<Longrightarrow>
     message_select d' m = message_select d m"
  by (simp add: message_select_def find_user_def)

text \<open>A write that leaves the messages of the group and their reactions alone.\<close>

lemma message_view_same:
  assumes "db_users d' = db_users d"
    and "\<And>m. m \<in> set (db_messages d') \<and> ms_groupId m = g \<longleftrightarrow> m \<in> set (db_messages d) \<and> ms_groupId m = g"
    and "\<And>m. m \<in> set (db_messages d) \<Longrightarrow> ms_groupId m = g \<Longrightarrow> reactions_of d' (ms_id m) = reactions_of d (ms_id m)"
  shows "message_view older g d' = message_view older g d" and "older_ok older g d' = older_ok older g d"
proof -
  have "{m \<in> set (db_messages d'). ms_groupId m = g \<and> message_key m \<notin> older}
      = {m \<in> set (db_messages d). ms_groupId m = g \<and> message_key m \<notin> older}"
    using assms(2) by blast
  then show "message_view older g d' = message_view older g d"
    unfolding message_view_def
    by (auto intro!: image_cong message_select_same [OF assms(1)] assms(3))
  show "older_ok older g d' = older_ok older g d"
    unfolding older_ok_def using assms(2) by blast
qed

definition member_event :: "app_event \<Rightarrow> bool" where
  "member_event ev \<longleftrightarrow> (case ev of MEMBER_JOINED _ _ \<Rightarrow> True | MEMBER_LEFT _ _ \<Rightarrow> True
     | OWNER_CHANGED _ _ _ \<Rightarrow> True | READ_MARKED _ _ _ \<Rightarrow> True | _ \<Rightarrow> False)"

lemma member_events_no_message: "list_all member_event evs \<Longrightarrow> fold (message_effect g) evs M = M"
  by (induction evs) (auto simp: member_event_def message_effect_def split: app_event.splits)

lemma message_events_no_member:
  "list_all (\<lambda>ev. \<not> member_event ev) evs \<Longrightarrow> fold (member_effect g) evs V = V"
  by (induction evs) (auto simp: member_event_def member_effect_def split: app_event.splits)

lemma persist_messages:
  assumes run: "persist_and_emit row d = (d', evs, r)" and wf: "db_wf d" and old: "older_ok older g d"
  shows "fold (message_effect g) evs (message_view older g d) = message_view older g d'
    \<and> older_ok older g d' \<and> db_users d' = db_users d \<and> db_members d' = db_members d
    \<and> (\<forall>m. MESSAGE_CREATED m \<in> set evs \<longrightarrow> evs = [MESSAGE_CREATED m]
         \<and> (\<forall>x \<in> message_view older g d. bm_id x \<noteq> bm_id m))"
proof (cases r)
  case (Inl e)
  with persist_and_emit_Inl run old show ?thesis by fastforce
next
  case (Inr bm)
  note p = persist_and_emit_Inr [OF run [unfolded Inr] wf]
  have fresh: "\<forall>m \<in> set (db_messages d). ms_id m \<noteq> ms_id row"
    using p(4) by (auto simp: p(1) db_wf_def keys_ok_def no_clash_def sorted_wrt_append message_clash_def)
  then have new: "message_key row \<notin> older" using old
    by (auto simp: older_ok_def message_key_def)
  have sel: "message_select d' = message_select d" by (simp add: p(1) fun_eq_iff)
  have "{m \<in> set (db_messages d'). ms_groupId m = g \<and> message_key m \<notin> older}
      = (if ms_groupId row = g then insert row else id) {m \<in> set (db_messages d). ms_groupId m = g \<and> message_key m \<notin> older}"
    using new by (auto simp: p(1))
  then have "message_view older g d' = (if ms_groupId row = g then insert bm else id) (message_view older g d)"
    by (simp add: message_view_def sel p(3))
  moreover have "bm_groupId bm = ms_groupId row" "bm_id bm = ms_id row"
    by (simp_all add: p(3) message_select_def)
  moreover have "\<forall>x \<in> message_view older g d. bm_id x \<noteq> ms_id row"
    using fresh by (auto simp: message_view_def message_select_def)
  moreover have "older_ok older g d'" using old by (auto simp: older_ok_def p(1))
  ultimately show ?thesis by (simp add: p(1,2) message_effect_def)
qed

lemma update_messages:
  assumes run: "update_and_emit i f d = (d', evs, r)" and wf: "db_wf d" and old: "older_ok older g d"
    and f: "keeps_place f"
  shows "fold (message_effect g) evs (message_view older g d) = message_view older g d'
    \<and> older_ok older g d' \<and> db_users d' = db_users d \<and> db_members d' = db_members d
    \<and> (\<forall>m. MESSAGE_CREATED m \<notin> set evs)"
proof (cases "\<exists>m \<in> set (db_messages d). ms_id m = i")
  case False
  then have "\<not> list_ex (\<lambda>m. ms_id m = i) (db_messages d)" by (auto simp: list_ex_iff)
  with run have "d' = d" "evs = []" by (auto simp: update_and_emit_def db_update_message_def)
  with old show ?thesis by simp
next
  case True
  then obtain m where m: "m \<in> set (db_messages d)" "ms_id m = i" by blast
  have keys: "ms_id (f m) = ms_id m" "ms_groupId (f m) = ms_groupId m" "message_key (f m) = message_key m"
    using f by (simp_all add: keeps_place_def)
  let ?bm = "message_select d' (f m)"
  have run': "d' = replace_row m (f m) d" "evs = [MESSAGE_UPDATED ?bm]"
    using update_and_emit_row [where f = f, OF wf m(1) keys(1)] run m(2) by (simp_all add: Let_def)
  have sel: "message_select d' = message_select d" by (simp add: run'(1) replace_row_def fun_eq_iff)
  have rows: "{x \<in> set (db_messages d'). ms_groupId x = g \<and> message_key x \<notin> older}
      = (\<lambda>x. if x = m then f m else x) ` {x \<in> set (db_messages d). ms_groupId x = g \<and> message_key x \<notin> older}"
    using keys by (auto simp: run'(1) replace_row_def)
  have one: "replace_message ?bm (message_select d x) = message_select d (if x = m then f m else x)"
    if "x \<in> set (db_messages d)" for x
    using same_message_id [OF wf that m(1)] keys(1)
    by (auto simp: replace_message_def sel) (auto simp: message_select_def)
  have "message_view older g d' = (if ms_groupId m = g then (`) (replace_message ?bm) else id) (message_view older g d)"
  proof (cases "ms_groupId m = g")
    case True
    let ?S = "{x \<in> set (db_messages d). ms_groupId x = g \<and> message_key x \<notin> older}"
    have eq: "(\<lambda>x. message_select d (if x = m then f m else x)) ` ?S
        = (\<lambda>x. replace_message ?bm (message_select d x)) ` ?S"
      by (rule image_cong) (use one in simp_all)
    show ?thesis
      by (simp only: message_view_def rows True simp_thms if_True image_image sel eq [unfolded sel])
  next
    case False
    then have "(\<lambda>x. if x = m then f m else x) ` {x \<in> set (db_messages d). ms_groupId x = g \<and> message_key x \<notin> older}
        = {x \<in> set (db_messages d). ms_groupId x = g \<and> message_key x \<notin> older}" by auto
    with False show ?thesis unfolding message_view_def rows sel by simp
  qed
  moreover have "bm_groupId ?bm = ms_groupId m" by (simp add: message_select_def keys)
  moreover have "older_ok older g d'"
    unfolding older_ok_def
  proof
    fix j assume "j \<in> older"
    with old obtain x where x: "x \<in> set (db_messages d)" "message_key x = j" "ms_groupId x = g"
      unfolding older_ok_def by blast
    with keys show "\<exists>x \<in> set (db_messages d'). message_key x = j \<and> ms_groupId x = g"
      by (intro bexI [of _ "if x = m then f m else x"]) (auto simp: run'(1) replace_row_def)
  qed
  ultimately show ?thesis by (simp add: run' message_effect_def replace_row_def)
qed

lemma toggle_reactions:
  assumes run: "toggle rid now h m u e d = (d', evs, r)"
  shows "(\<exists>rs. d' = d\<lparr>db_reactions := rs\<rparr>)
    \<and> (\<forall>i. i \<noteq> as_uuid m \<longrightarrow> reactions_of d' i = reactions_of d i)
    \<and> (evs = [] \<and> d' = d \<or> message_in_group h m d \<and> evs = [REACTION_CHANGED h m (reactions_of d' (as_uuid m))])"
proof -
  obtain n d1 where rem: "toggle_remove m u e d = (n, d1)" by fastforce
  have drop: "filter (\<lambda>x. rx_messageId x = i) (delete_where (\<lambda>x. rx_messageId x = j \<and> P x) rs)
      = filter (\<lambda>x. rx_messageId x = i) rs" if "i \<noteq> j" for i j P and rs :: "reaction_row list"
    using that by (induction rs) auto
  have d1: "\<exists>rs. d1 = d\<lparr>db_reactions := rs\<rparr>" "i \<noteq> as_uuid m \<Longrightarrow> reactions_of d1 i = reactions_of d i" for i
    using rem by (auto simp: toggle_remove_def db_delete_reactions_def reactions_of_def drop)
  consider (none) "\<not> message_in_group h m d" "d' = d" "evs = []"
    | (removed) "d' = d1" "message_in_group h m d" "evs = [REACTION_CHANGED h m (reactions_of d' (as_uuid m))]"
    | (added) x where "n = 0" "toggle_add rid now m u e d1 = (d', x)"
        "case x of None \<Rightarrow> message_in_group h m d \<and> evs = [REACTION_CHANGED h m (reactions_of d' (as_uuid m))]
         | Some _ \<Rightarrow> d' = d1 \<and> evs = []"
    using run rem by (fastforce simp: toggle_def toggle_finish_def toggle_add_def Let_def
        split: if_splits prod.splits option.splits sum.splits prisma_error.splits)
  then show ?thesis
  proof cases
    case none
    then show ?thesis by (auto intro: exI [of _ "db_reactions d"])
  next
    case removed
    with d1 show ?thesis by auto
  next
    case (added x)
    with toggle_remove_reacted(4) [OF rem] have same: "d1 = d" by simp
    with added have a: "toggle_add rid now m u e d = (d', x)" by simp
    have "\<exists>rs. d' = d\<lparr>db_reactions := rs\<rparr>"
      using a by (auto simp: toggle_add_def db_create_reaction_def
          split: if_splits sum.splits prisma_error.splits option.splits intro: exI [of _ "db_reactions d"])
    moreover have "reactions_of d' i = reactions_of d i" if "i \<noteq> as_uuid m" for i
      using a that by (auto simp: toggle_add_def db_create_reaction_def insert_row_def reactions_of_def
          split: if_splits sum.splits prisma_error.splits option.splits)
    ultimately show ?thesis using added(3) same by (cases x) auto
  qed
qed

lemma select_id [simp]: "bm_id (message_select d x) = ms_id x"
  by (simp add: message_select_def)

lemma toggle_messages:
  assumes run: "toggle rid now h m u e d = (d', evs, r)" and wf: "db_wf d" and old: "older_ok older g d"
    and low: "as_uuid h = h" "as_uuid m = m"
  shows "fold (message_effect g) evs (message_view older g d) = message_view older g d'
    \<and> older_ok older g d' \<and> db_users d' = db_users d \<and> db_members d' = db_members d
    \<and> (\<forall>x. MESSAGE_CREATED x \<notin> set evs)"
proof -
  note t = toggle_reactions [OF run]
  obtain rs where rs: "d' = d\<lparr>db_reactions := rs\<rparr>" using t by blast
  let ?p = "patch_reactions m (reactions_of d' m)"
  have user: "find_user i d' = find_user i d" for i by (simp add: rs find_user_def)
  have sel: "message_select d' x = (message_select d x)\<lparr>bm_reactions := reactions_of d' (ms_id x)\<rparr>" for x
    by (simp add: message_select_def user)
  have patch: "message_select d' x = ?p (message_select d x)" for x
  proof (cases "ms_id x = m")
    case True
    then show ?thesis by (simp add: sel patch_reactions_def)
  next
    case False
    then have "reactions_of d' (ms_id x) = reactions_of d (ms_id x)" using t low(2) by simp
    with False show ?thesis by (simp add: sel patch_reactions_def) (simp add: message_select_def)
  qed
  have view: "message_view older g d' = ?p ` message_view older g d"
    unfolding message_view_def image_image patch by (simp add: rs)
  have keep: "message_view older g d' = message_view older g d"
    if "evs = [] \<and> d' = d \<or> message_in_group h m d \<and> h \<noteq> g"
  proof (cases "d' = d")
    case False
    with that obtain y where y: "y \<in> set (db_messages d)" "ms_id y = m" "ms_groupId y = h" and hg: "h \<noteq> g"
      by (auto simp: message_in_group_def low dest!: find_SomeD)
    have ne: "ms_id x \<noteq> m" if x: "x \<in> set (db_messages d)" "ms_groupId x = g" for x
    proof
      assume "ms_id x = m"
      with same_message_id [OF wf x(1) y(1)] y(2) have "x = y" by simp
      with x(2) y(3) hg show False by simp
    qed
    have "?p x = id x" if x: "x \<in> message_view older g d" for x
    proof -
      obtain y where "y \<in> set (db_messages d)" "ms_groupId y = g" "x = message_select d y"
        using x by (auto simp: message_view_def)
      with ne [of y] show ?thesis by (simp add: patch_reactions_def)
    qed
    then have "?p ` message_view older g d = id ` message_view older g d" by (rule image_cong [OF refl])
    then show ?thesis unfolding view by simp
  qed simp
  have "fold (message_effect g) evs (message_view older g d) = message_view older g d'"
  proof (cases "evs = [] \<and> d' = d")
    case False
    then have b: "message_in_group h m d" "evs = [REACTION_CHANGED h m (reactions_of d' m)]"
      using t low(2) by auto
    show ?thesis
    proof (cases "h = g")
      case True
      with b(2) view show ?thesis by (simp add: message_effect_def)
    next
      case False
      with b keep show ?thesis by (simp add: message_effect_def)
    qed
  qed simp
  moreover have "older_ok older g d'" using old by (simp add: older_ok_def rs)
  moreover have "db_users d' = db_users d" "db_members d' = db_members d" by (simp_all add: rs)
  ultimately show ?thesis using t by auto
qed

section \<open>One write\<close>

text \<open>The writes on memberships leave the messages of a group that stays alone.\<close>

lemma same_tables:
  "db_users d' = db_users d \<Longrightarrow> db_messages d' = db_messages d \<Longrightarrow> db_reactions d' = db_reactions d \<Longrightarrow>
     message_view older g d' = message_view older g d \<and> older_ok older g d' = older_ok older g d"
  using message_view_same [of d' d g older] by (simp add: reactions_of_def)

lemma join_messages:
  "groups_join mid now u h d = (d', evs, r) \<Longrightarrow> list_all member_event evs
     \<and> db_messages d' = db_messages d \<and> db_reactions d' = db_reactions d"
  by (auto simp: groups_join_def db_create_member_def member_event_def Let_def split: option.splits sum.splits if_splits)

lemma read_messages:
  "mark_read now u h d = (d', evs, r) \<Longrightarrow> list_all member_event evs
     \<and> db_messages d' = db_messages d \<and> db_reactions d' = db_reactions d"
  by (auto simp: mark_read_def db_update_member_def member_event_def split: sum.splits if_splits)

lemma transfer_messages:
  "transfer_ownership a h t d = (d', evs, r) \<Longrightarrow> list_all member_event evs
     \<and> db_messages d' = db_messages d \<and> db_reactions d' = db_reactions d"
  by (auto simp: transfer_ownership_def transfer_write_def member_event_def dest!: set_role_Inr split: sum.splits if_splits)

lemma create_views:
  assumes run: "groups_create gid mid now u name d = (d', r)" and g: "has_group d g"
  shows "member_view g d' = member_view g d \<and> db_messages d' = db_messages d \<and> db_reactions d' = db_reactions d
    \<and> db_users d' = db_users d"
proof -
  show ?thesis
  proof (cases "d' = d")
    case False
    let ?m = "\<lparr>gm_id = mid, gm_groupId = gid, gm_userId = as_uuid u, gm_role = OWNER, gm_joinedAt = now,
             gm_lastReadAt = None\<rparr>"
    have c: "\<not> has_group d gid \<and> db_members d' = db_members d @ [?m] \<and> db_messages d' = db_messages d
        \<and> db_reactions d' = db_reactions d \<and> db_users d' = db_users d"
      using run False by (auto simp: groups_create_def Let_def db_create_group_def db_create_member_def insert_row_def
        has_group_def list_ex_iff group_clash_def split: sum.splits option.splits if_splits)
    with g have "gid \<noteq> g" by auto
    with c show ?thesis by (simp add: member_view_def member_select_users [of d' d])
  qed simp
qed

lemma leave_messages:
  assumes run: "groups_leave u h d = (d', evs, r)" and wf: "db_wf d" and low: "as_uuid h = h"
    and users: "db_users d' = db_users d" and kept: "has_group d' g"
  shows "list_all member_event evs \<and> message_view older g d' = message_view older g d
    \<and> older_ok older g d' = older_ok older g d"
proof (cases r)
  case (Inl e)
  with run have "d' = d" "evs = []" by (auto simp: groups_leave_def split: sum.splits)
  then show ?thesis by simp
next
  case (Inr out)
  with run obtain plan where plan: "leave_read u h d = Inr plan"
    and wr: "leave_write h plan d = Inr (d', out)" and evs: "evs = leave_events u h out"
    by (auto simp: groups_leave_def split: sum.splits)
  have ev: "list_all member_event evs" by (simp add: evs leave_events_def member_event_def split: option.splits)
  show ?thesis
  proof (cases "plan = DropGroup")
    case False
    with wr have "db_messages d' = db_messages d" "db_reactions d' = db_reactions d"
      by (auto simp: leave_write_def dest!: set_role_Inr db_delete_member_Inr split: leave_plan.splits sum.splits)
    with ev users same_tables [of d' d older g] show ?thesis by simp
  next
    case True
    with wr have del: "db_delete_group h d = Inr d'" by (auto simp: leave_write_def low split: sum.splits)
    then have d': "db_messages d' = delete_where (\<lambda>m. ms_groupId m = h) (db_messages d)"
      "db_groups d' = delete_where (\<lambda>x. g_id x = h) (db_groups d)"
      "db_reactions d' = delete_where (\<lambda>x. list_ex (\<lambda>m. ms_id m = rx_messageId x \<and> ms_groupId m = h) (db_messages d))
        (db_reactions d)"
      by (auto simp: db_delete_group_def split: if_splits)
    have hg: "h \<noteq> g" using kept d'(2) by (auto simp: has_group_def list_ex_iff row_simps)
    have "reactions_of d' (ms_id m) = reactions_of d (ms_id m)"
      if m: "m \<in> set (db_messages d)" "ms_groupId m = g" for m
    proof -
      have "\<not> list_ex (\<lambda>x. ms_id x = ms_id m \<and> ms_groupId x = h) (db_messages d)"
        using same_message_id [OF wf _ m(1)] m(2) hg by (auto simp: list_ex_iff)
      then show ?thesis unfolding reactions_of_def d'(3) delete_where_def filter_filter
        by (intro arg_cong [where f = "map _"] filter_cong) auto
    qed
    with message_view_same [OF users, of g older] ev hg show ?thesis by (auto simp: d'(1) row_simps)
  qed
qed

definition views_ok :: "(time \<times> uuid) set \<Rightarrow> uuid \<Rightarrow> db \<Rightarrow> db \<Rightarrow> app_event list \<Rightarrow> bool" where
  "views_ok older g d d' evs \<longleftrightarrow>
     fold (member_effect g) evs (member_view g d) = member_view g d'
   \<and> fold (message_effect g) evs (message_view older g d) = message_view older g d'
   \<and> older_ok older g d' \<and> db_users d' = db_users d
   \<and> (\<forall>m. MESSAGE_CREATED m \<in> set evs \<longrightarrow> evs = [MESSAGE_CREATED m]
        \<and> (\<forall>x \<in> message_view older g d. bm_id x \<noteq> bm_id m))"

lemma views_ok_same: "older_ok older g d \<Longrightarrow> views_ok older g d d []"
  by (simp add: views_ok_def)

lemma views_ok_members:
  assumes "fold (member_effect g) evs (member_view g d) = member_view g d' \<and> db_users d' = db_users d"
    and "list_all member_event evs" and "message_view older g d' = message_view older g d" and "older_ok older g d'"
  shows "views_ok older g d d' evs"
  using assms by (auto simp: views_ok_def member_events_no_message list_all_iff member_event_def)

lemma views_ok_messages:
  assumes "fold (message_effect g) evs (message_view older g d) = message_view older g d'
      \<and> older_ok older g d' \<and> db_users d' = db_users d \<and> db_members d' = db_members d
      \<and> (\<forall>m. MESSAGE_CREATED m \<in> set evs \<longrightarrow> evs = [MESSAGE_CREATED m]
           \<and> (\<forall>x \<in> message_view older g d. bm_id x \<noteq> bm_id m))"
    and "list_all (\<lambda>ev. \<not> member_event ev) evs"
  shows "views_ok older g d d' evs"
  using assms view_same [of d' d g] by (simp add: views_ok_def message_events_no_member)

lemma persist_no_member: "persist_and_emit row d = (d', evs, r) \<Longrightarrow> list_all (\<lambda>ev. \<not> member_event ev) evs"
  by (auto simp: persist_and_emit_def Let_def member_event_def split: sum.splits)

lemma update_no_member: "update_and_emit i f d = (d', evs, r) \<Longrightarrow> list_all (\<lambda>ev. \<not> member_event ev) evs"
  by (auto simp: update_and_emit_def Let_def member_event_def split: sum.splits option.splits)

lemma toggle_no_member: "toggle rid now h m u e d = (d', evs, r) \<Longrightarrow> list_all (\<lambda>ev. \<not> member_event ev) evs"
  using toggle_reactions [of rid now h m u e d] by (auto simp: member_event_def)

lemma persist_views:
  "persist_and_emit row d = (d', evs, r) \<Longrightarrow> db_wf d \<Longrightarrow> older_ok older g d \<Longrightarrow> views_ok older g d d' evs"
  by (rule views_ok_messages [OF persist_messages persist_no_member])

lemma update_views:
  assumes "update_and_emit i f d = (d', evs, r)" and "db_wf d" and "older_ok older g d" and "keeps_place f"
  shows "views_ok older g d d' evs"
  using views_ok_messages [OF _ update_no_member [OF assms(1)], of g older d d'] update_messages [OF assms] by auto

lemma edit_views:
  "messages_edit now h m u c d = (d', evs, r) \<Longrightarrow> db_wf d \<Longrightarrow> older_ok older g d \<Longrightarrow> views_ok older g d d' evs"
  by (auto simp: messages_edit_def edit_write_def views_ok_same split: sum.splits intro: update_views)

lemma delete_views:
  "soft_delete now h m u d = (d', evs, r) \<Longrightarrow> db_wf d \<Longrightarrow> older_ok older g d \<Longrightarrow> views_ok older g d d' evs"
  by (auto simp: soft_delete_def delete_write_def views_ok_same split: sum.splits intro: update_views)

lemma toggle_views:
  assumes "toggle rid now h m u e d = (d', evs, r)" and "db_wf d" and "older_ok older g d"
    and "as_uuid h = h" "as_uuid m = m"
  shows "views_ok older g d d' evs"
  using views_ok_messages [OF _ toggle_no_member [OF assms(1)], of g older d d'] toggle_messages [OF assms] by auto

lemma http_views:
  assumes run: "http_write env u r d = (d', evs)" and wf: "db_wf d" and low: "lower_spelt (Http u r)"
    and ids: "\<forall>x \<in> set (db_users d). u_id x \<noteq> []" and g: "has_group d g" "has_group d' g"
    and old: "older_ok older g d"
  shows "views_ok older g d d' evs"
  using run
proof (cases rule: http_write_cases)
  case skip
  with old show ?thesis by (simp add: views_ok_same)
next
  case (create gid mid now name t)
  obtain x where c: "groups_create gid mid now (au_userId u) name d = (d', x)"
    using create(2) by (metis prod.collapse)
  from create_views [OF c g(1)] same_tables [of d' d older g] old create(3) show ?thesis
    by (simp add: views_ok_def)
next
  case (join mid now h)
  then obtain x where j: "groups_join mid now (au_userId u) h d = (d', evs, x)" by (auto simp: written_pair)
  from join low have h: "as_uuid h = h" by simp
  from join_view [OF j wf h, of g] join_messages [OF j] same_tables [of d' d older g] old show ?thesis
    by (intro views_ok_members) auto
next
  case (leave h)
  then obtain x where l: "groups_leave (au_userId u) h d = (d', evs, x)" by (auto simp: written_pair)
  from leave low have h: "as_uuid h = h" "as_uuid (au_userId u) = au_userId u" by simp_all
  note v = leave_view [OF l wf h ids g(2)]
  from v leave_messages [OF l wf h(1) conjunct2 [OF v] g(2)] old show ?thesis
    by (intro views_ok_members) auto
next
  case (read now h)
  then obtain x where m: "mark_read now (au_userId u) h d = (d', evs, x)" by (auto simp: written_pair)
  from read low have h: "as_uuid h = h" "as_uuid (au_userId u) = au_userId u" by simp_all
  from read_view [OF m wf h, of g] read_messages [OF m] same_tables [of d' d older g] old show ?thesis
    by (intro views_ok_members) auto
next
  case (transfer h t)
  then obtain x where m: "transfer_ownership (au_userId u) h t d = (d', evs, x)" by (auto simp: written_pair)
  from transfer low have h: "as_uuid h = h" "as_uuid (au_userId u) = au_userId u" "as_uuid t = t" by simp_all
  from transfer_view [OF m wf h, of g] transfer_messages [OF m] same_tables [of d' d older g] old show ?thesis
    by (intro views_ok_members) auto
next
  case (persist row)
  then show ?thesis by (auto simp: written_pair intro: persist_views [OF _ wf old])
next
  case (edit now h m c)
  then show ?thesis by (auto simp: written_pair intro: edit_views [OF _ wf old])
next
  case (delete now h m)
  then show ?thesis by (auto simp: written_pair intro: delete_views [OF _ wf old])
next
  case (toggle rid now h m e t)
  with low show ?thesis by (auto simp: written_pair intro: toggle_views [OF _ wf old])
qed

section \<open>One step\<close>

definition in_sync :: "(time \<times> uuid) set \<Rightarrow> uuid \<Rightarrow> db \<Rightarrow> client_cache \<Rightarrow> bool" where
  "in_sync older g d c \<longleftrightarrow> (has_group d g \<longrightarrow> (\<forall>x \<in> set (db_users d). u_id x \<noteq> []) \<and> older_ok older g d
     \<and> shown_members g c = Some (member_view g d) \<and> set (cached_messages c g) = message_view older g d)"

lemma receive_messages:
  assumes evs: "on_events evs ss = (ss', out)" and dist: "distinct (map sk_id ss)" and w: "watching sid g ss'"
    and fresh: "\<forall>m. MESSAGE_CREATED m \<in> set evs \<longrightarrow> evs = [MESSAGE_CREATED m]
         \<and> (\<forall>x \<in> set (cached_messages c g). bm_id x \<noteq> bm_id m)"
  shows "set (cached_messages (receive sid out c) g) = fold (message_effect g) evs (set (cached_messages c g))"
proof (cases "\<exists>m. MESSAGE_CREATED m \<in> set evs")
  case True
  then obtain m where m: "evs = [MESSAGE_CREATED m]" "\<forall>x \<in> set (cached_messages c g). bm_id x \<noteq> bm_id m"
    using fresh by blast
  with evs have ev: "on_event (MESSAGE_CREATED m) ss = (ss', out)" by (auto split: prod.splits)
  have "watching sid g ss" using watching_shrinks [OF on_event_shrinks [OF ev] w] .
  moreover have "set (cached_messages (on_app_event (MESSAGE_CREATED m) c) g)
      = message_effect g (MESSAGE_CREATED m) (set (cached_messages c g))"
    by (rule message_effect_app_event) (use m(2) in auto)
  ultimately show ?thesis
    by (cases "bm_groupId m = g") (simp_all add: m(1) receive_on_event [OF ev dist] message_effect_def)
next
  case False
  have e: "set (cached_messages (on_app_event ev x) g) = message_effect g ev (set (cached_messages x g))"
    if "ev \<in> set evs" for ev x
    by (rule message_effect_app_event) (use that False in auto)
  show ?thesis
    by (rule receive_on_events [where view = "\<lambda>c. set (cached_messages c g)", OF evs dist w])
      (simp_all add: e message_effect_def)
qed

lemma write_follows:
  assumes sync: "in_sync older g d c" and dist: "distinct (map sk_id ss)"
    and evs: "on_events evs ss = (ss1, out)" and w: "watching sid g ss1"
    and views: "has_group d g \<Longrightarrow> has_group d1 g \<Longrightarrow> older_ok older g d \<Longrightarrow> \<forall>x \<in> set (db_users d). u_id x \<noteq> [] \<Longrightarrow>
      views_ok older g d d1 evs"
    and old: "has_group d1 g \<Longrightarrow> has_group d g"
  shows "in_sync older g d1 (receive sid out c)"
  unfolding in_sync_def
proof
  assume g: "has_group d1 g"
  with old sync have s: "\<forall>x \<in> set (db_users d). u_id x \<noteq> []" "older_ok older g d"
    "shown_members g c = Some (member_view g d)" "set (cached_messages c g) = message_view older g d"
    by (simp_all add: in_sync_def)
  with views old g have v: "views_ok older g d d1 evs" by blast
  with s receive_members [OF evs dist w, of c] receive_messages [OF evs dist w, of c]
  show "(\<forall>x \<in> set (db_users d1). u_id x \<noteq> []) \<and> older_ok older g d1
     \<and> shown_members g (receive sid out c) = Some (member_view g d1)
     \<and> set (cached_messages (receive sid out c) g) = message_view older g d1"
    by (simp add: views_ok_def)
qed

lemma chat_step_follows:
  assumes "chat_step env r st out st'" and inv: "chat_inv st" and low: "lower_spelt r"
    and w: "watching sid g (ch_sockets st')" and sync: "in_sync older g (ch_db st) c"
  shows "in_sync older g (ch_db st') (receive sid out c)"
  using assms(1)
proof cases
  case (http u r' d1 evs ss1)
  have wf: "db_wf (ch_db st)" and dist: "distinct (map sk_id (ch_sockets st))"
    using inv by (simp_all add: chat_inv_def groups_inv_def)
  have w1: "watching sid g ss1" using w http(2) by simp
  have old: "has_group (ch_db st) g" if "has_group d1 g"
  proof -
    from http_write_faithful [OF _ _ http(3)] inv lower_well_spelt [OF low] http(1)
    have "faithful (created r') (ch_db st) d1 evs" by (auto simp: chat_inv_def)
    with that have "has_group (ch_db st) g \<or> created r' = Some g" by (simp add: faithful_def)
    moreover have "watching sid g (ch_sockets st)" using watching_shrinks [OF on_events_shrinks [OF http(5)] w1] .
    with new_room_empty [OF http(4)] have "created r' \<noteq> Some g"
      by (auto simp: watching_def list_ex_iff list_all_iff)
    ultimately show ?thesis by blast
  qed
  have low': "lower_spelt (Http u r')" using low http(1) by simp
  have "in_sync older g d1 (receive sid out c)"
    by (rule write_follows [OF sync dist http(5) w1 _ old])
      (use http_views [OF http(3) wf low', of g older] in blast)+
  with http(2) show ?thesis by simp
next
  case (connect sid' token ss1)
  with sync show ?thesis by simp
next
  case (enter sid' s h ss1 a)
  then have "receive sid out c = c"
    by (auto simp: join_group_def join_group_enter_def Let_def split: sum.splits)
  with sync enter(2) show ?thesis by simp
next
  case (exit sid' s h ss1 a)
  then have "receive sid out c = c"
    by (auto simp: leave_group_def Let_def split: option.splits if_splits)
  with sync exit(2) show ?thesis by simp
next
  case (typing sid' s h b)
  with sync show ?thesis by simp
next
  case (send sid' s mid now h body d1 evs a ss1)
  have dist: "distinct (map sk_id (ch_sockets st))" and inv': "groups_inv (ch_db st)"
    using inv by (simp_all add: chat_inv_def)
  then have wf: "db_wf (ch_db st)" by (simp add: groups_inv_def)
  have w1: "watching sid g ss1" using w send(2) by simp
  have old: "has_group d1 g \<Longrightarrow> has_group (ch_db st) g"
    using send_write [OF inv' send(4)] by (simp add: faithful_def)
  have views: "views_ok older g (ch_db st) d1 evs" if "older_ok older g (ch_db st)"
    using send(4) that by (auto simp: send_message_def messages_create_def Let_def views_ok_same
        split: if_splits sum.splits prod.splits intro: persist_views [OF _ wf])
  have "in_sync older g d1 (receive sid out c)"
    by (rule write_follows [OF sync dist send(5) w1 _ old]) (use views in blast)+
  with send(2) show ?thesis by simp
next
  case (disconnect sid' s ss1)
  have "receive sid out c = c"
    by (rule receive_hooks) (use disconnect(4) in \<open>auto simp: ws_disconnect_def presence_broadcast_def Let_def emit_to_def
      on_server_event_def split: option.splits if_splits\<close>)
  with sync disconnect(2) show ?thesis by simp
qed

end
