(* ===== verification/ClientHistory.thy ===== *)
theory ClientHistory
  imports ClientSync
begin

text \<open>
  What the browser shows of a group: the first page and the member list that a client loads, the older
  pages it asks for with the cursor of the last page, and the runs of such a client next to the chat.
  The messages not loaded yet stay below the cursor of the next page, whatever is written meanwhile, so
  the list that is shown is always the server's history from that point on.
\<close>

section \<open>Opening a group\<close>

definition PAGE_SIZE :: nat where "PAGE_SIZE = 20"

text \<open>The first fetches of \<open>useGroup\<close> and \<open>useGroupMessages\<close>; \<open>None\<close> when one of them fails.\<close>

definition load_group :: "page_env \<Rightarrow> uuid \<Rightarrow> db \<Rightarrow> client_cache option" where
  "load_group env g d = (case (find_one g d, find_page env g PAGE_SIZE None d) of
     (Inr (grp, ms), Inr (page, meta)) \<Rightarrow> Some \<lparr>cc_live = Map.empty, cc_history = [g \<mapsto> [page]],
        cc_older = [g \<mapsto> pm_nextCursor meta],
        cc_detail = [g \<mapsto> \<lparr>gd_group = grp, gd_members = ms\<rparr>], cc_groupsStale = False\<rparr>
   | _ \<Rightarrow> None)"

text \<open>The messages below the loaded page, and what the list is to show when these are left out.\<close>

definition not_loaded :: "uuid \<Rightarrow> client_cache \<Rightarrow> db \<Rightarrow> (time \<times> uuid) set" where
  "not_loaded g c d =
     {message_key m | m. m \<in> set (db_messages d) \<and> ms_groupId m = g \<and> ms_id m \<notin> bm_id ` set (cached_messages c g)}"

definition server_messages :: "(time \<times> uuid) set \<Rightarrow> uuid \<Rightarrow> db \<Rightarrow> broadcast_message list" where
  "server_messages older g d = map (message_select d)
     (sort_key message_key (filter (\<lambda>m. ms_groupId m = g \<and> message_key m \<notin> older) (db_messages d)))"

lemma find_one_members:
  assumes "as_uuid g = g" and "find_one g d = Inr (grp, ms)"
  shows "mset ms = member_view g d"
  using assms by (auto simp: find_one_def member_view_def mset_filter split: option.splits)

lemma find_one_group: "as_uuid g = g \<Longrightarrow> has_group d g \<Longrightarrow> \<exists>grp ms. find_one g d = Inr (grp, ms)"
  by (auto simp: find_one_def find_group_def has_group_def list_ex_iff find_None_iff split: option.splits)

lemma find_one_has_group: "as_uuid g = g \<Longrightarrow> find_one g d = Inr (grp, ms) \<Longrightarrow> has_group d g"
  by (auto simp: find_one_def find_group_def has_group_def list_ex_iff dest: find_SomeD split: option.splits)

lemma find_page_rows:
  assumes c: "decoded_cursor env cursor = Inr c" and g: "as_uuid g = g"
    and all: "all = filter (below c) (history g d)"
  shows "find_page env g PAGE_SIZE cursor d = Inr (map (message_select d) (take PAGE_SIZE all),
      \<lparr>pm_limit = PAGE_SIZE, pm_nextCursor = (if PAGE_SIZE < length all
          then Some (encode_cursor (message_key (last (take PAGE_SIZE all)))) else None),
        pm_hasMore = (PAGE_SIZE < length all)\<rparr>)"
proof (cases "PAGE_SIZE < length all")
  case True
  moreover from True have "take PAGE_SIZE all \<noteq> []" by (auto simp: PAGE_SIZE_def)
  ultimately show ?thesis by (simp add: find_page_def c g page_rows_history all [symmetric] Let_def min_def)
next
  case False
  then show ?thesis by (simp add: find_page_def c g page_rows_history all [symmetric] Let_def)
qed

lemma loaded_page:
  assumes page: "find_page env g PAGE_SIZE cursor d = Inr (page, meta)" and g: "as_uuid g = g"
  obtains c rows where "decoded_cursor env cursor = Inr c" and "page = map (message_select d) rows"
    and "rows = take PAGE_SIZE (filter (below c) (history g d))"
    and "pm_nextCursor meta = None \<longrightarrow> rows = filter (below c) (history g d)"
    and "\<forall>cur. pm_nextCursor meta = Some cur \<longrightarrow> rows \<noteq> [] \<and> cur = encode_cursor (message_key (last rows))"
proof -
  from page obtain c where c: "decoded_cursor env cursor = Inr c" by (auto simp: find_page_def split: sum.splits)
  let ?all = "filter (below c) (history g d)"
  have ne: "take PAGE_SIZE ?all \<noteq> []" if "PAGE_SIZE < length ?all" using that by (auto simp: PAGE_SIZE_def)
  from page have m: "page = map (message_select d) (take PAGE_SIZE ?all)" "pm_nextCursor meta =
      (if PAGE_SIZE < length ?all then Some (encode_cursor (message_key (last (take PAGE_SIZE ?all)))) else None)"
    unfolding find_page_rows [OF c g refl] by auto
  show ?thesis
  proof (rule that [OF c m(1) refl])
    show "pm_nextCursor meta = None \<longrightarrow> take PAGE_SIZE ?all = ?all" by (simp add: m(2))
    show "\<forall>cur. pm_nextCursor meta = Some cur \<longrightarrow>
        take PAGE_SIZE ?all \<noteq> [] \<and> cur = encode_cursor (message_key (last (take PAGE_SIZE ?all)))"
      using ne by (auto simp: m(2))
  qed
qed

lemma set_history: "set (history g d) = {m \<in> set (db_messages d). ms_groupId m = g}"
  by (auto simp: history_def newest_first_def)

lemma page_messages:
  "m \<in> set (take n (filter P (history g d))) \<Longrightarrow> m \<in> {m \<in> set (db_messages d). ms_groupId m = g}"
  by (drule in_set_takeD) (simp add: set_history)

text \<open>What is left below a page lies below its last row.\<close>

lemma below_page:
  assumes wf: "db_wf d" and m: "m \<in> set (filter (below c) (history g d))" "m \<notin> set (take PAGE_SIZE (filter (below c) (history g d)))"
  shows "message_key m < message_key (last (take PAGE_SIZE (filter (below c) (history g d))))"
proof -
  let ?all = "filter (below c) (history g d)" and ?l = "min PAGE_SIZE (length (filter (below c) (history g d)))"
  have desc: "sorted_wrt (\<lambda>a b. message_key b < message_key a) ?all"
    using message_pages.descending [of "(g, d)"] wf by (simp add: sorted_wrt_filter)
  have l: "0 < ?l" "?l \<le> length ?all" using m(1) by (cases ?all; force simp: PAGE_SIZE_def)+
  have t: "take ?l ?all = take PAGE_SIZE ?all" by (simp add: min_def)
  have "m \<in> set (drop ?l ?all)" using m t by (metis append_take_drop_id Un_iff set_append)
  then have "m \<in> set (filter (\<lambda>r. message_key r < message_key (last (take ?l ?all))) ?all)"
    unfolding message_pages.below_nth [OF desc l] .
  then show ?thesis by (simp add: t)
qed

text \<open>The cursor of the next page separates what is loaded from what is not.\<close>

definition frontier :: "page_env \<Rightarrow> uuid \<Rightarrow> client_cache \<Rightarrow> (time \<times> uuid) set \<Rightarrow> bool" where
  "frontier env g c older \<longleftrightarrow> cc_history c g \<noteq> None \<and> (case cc_older c g of
     None \<Rightarrow> False
   | Some None \<Rightarrow> older = {}
   | Some (Some cur) \<Rightarrow> (\<exists>k. decoded_cursor env (Some cur) = Inr (Some k) \<and> (\<forall>x \<in> older. x < k)))"

lemma page_frontier:
  assumes wf: "db_wf d" and pos: "positions_ok env d" and hist: "cc_history c g \<noteq> None"
    and rows: "rows = take PAGE_SIZE (filter (below k) (history g d))"
    and none: "pm_nextCursor meta = None \<longrightarrow> rows = filter (below k) (history g d)"
    and some: "\<forall>cur. pm_nextCursor meta = Some cur \<longrightarrow> rows \<noteq> [] \<and> cur = encode_cursor (message_key (last rows))"
    and next_page: "cc_older c g = Some (pm_nextCursor meta)"
    and older: "\<And>x. x \<in> older \<Longrightarrow> \<exists>m \<in> set (filter (below k) (history g d)). m \<notin> set rows \<and> message_key m = x"
  shows "frontier env g c older"
proof (cases "pm_nextCursor meta")
  case None
  with none older have "older = {}" by blast
  with None next_page hist show ?thesis by (simp add: frontier_def)
next
  case (Some cur)
  then have cur: "rows \<noteq> []" "cur = encode_cursor (message_key (last rows))" using some by blast+
  then have "last rows \<in> set (filter (below k) (history g d))" using rows by (metis in_set_takeD last_in_set)
  then have "decoded_cursor env (Some cur) = Inr (Some (message_key (last rows)))"
    using decoded_own_cursor [OF pos] by (simp add: cur(2) set_history)
  moreover have "x < message_key (last rows)" if "x \<in> older" for x
    using older [OF that] below_page [OF wf, of _ k g] rows by blast
  ultimately show ?thesis using Some next_page hist by (simp add: frontier_def)
qed

lemma load_in_sync:
  assumes load: "load_group env g d = Some c" and wf: "db_wf d" and g: "as_uuid g = g"
    and ids: "\<forall>x \<in> set (db_users d). u_id x \<noteq> []" and pos: "positions_ok env d"
  shows "in_sync (not_loaded g c d) g d c \<and> frontier env g c (not_loaded g c d)"
proof -
  from load obtain grp ms page meta where one: "find_one g d = Inr (grp, ms)"
    and page: "find_page env g PAGE_SIZE None d = Inr (page, meta)"
    and c: "c = \<lparr>cc_live = Map.empty, cc_history = [g \<mapsto> [page]], cc_older = [g \<mapsto> pm_nextCursor meta],
        cc_detail = [g \<mapsto> \<lparr>gd_group = grp, gd_members = ms\<rparr>], cc_groupsStale = False\<rparr>"
    by (auto simp: load_group_def split: sum.splits prod.splits)
  have cached: "cached_messages c g = page" by (simp add: c cached_messages_def pages_of_def live_of_def)
  obtain k rows where k: "decoded_cursor env None = Inr k" and rows: "page = map (message_select d) rows"
    "rows = take PAGE_SIZE (filter (below k) (history g d))"
    and nxt: "pm_nextCursor meta = None \<longrightarrow> rows = filter (below k) (history g d)"
      "\<forall>cur. pm_nextCursor meta = Some cur \<longrightarrow> rows \<noteq> [] \<and> cur = encode_cursor (message_key (last rows))"
    by (rule loaded_page [OF page g]) (rule that)
  have sub: "set rows \<subseteq> {m \<in> set (db_messages d). ms_groupId m = g}"
    unfolding rows(2) by (rule subsetI) (rule page_messages)
  have loaded: "message_key m \<notin> not_loaded g c d \<longleftrightarrow> m \<in> set rows"
    if m: "m \<in> set (db_messages d)" "ms_groupId m = g" for m
  proof
    assume "message_key m \<notin> not_loaded g c d"
    with m have "ms_id m \<in> bm_id ` set page" unfolding not_loaded_def cached by blast
    then obtain x where x: "x \<in> set rows" "ms_id x = ms_id m" by (auto simp: rows(1))
    with sub same_message_id [OF wf _ m(1), of x] show "m \<in> set rows" by auto
  next
    assume "m \<in> set rows"
    then have "ms_id m \<in> bm_id ` set page" by (simp add: rows(1) image_image)
    then show "message_key m \<notin> not_loaded g c d" unfolding not_loaded_def cached by (auto simp: message_key_def)
  qed
  have "{m \<in> set (db_messages d). ms_groupId m = g \<and> message_key m \<notin> not_loaded g c d} = set rows"
    using sub loaded by blast
  then have "set (cached_messages c g) = message_view (not_loaded g c d) g d"
    unfolding message_view_def cached by (simp add: rows(1))
  moreover have "older_ok (not_loaded g c d) g d" by (auto simp: older_ok_def not_loaded_def)
  moreover have "shown_members g c = Some (member_view g d)"
    using find_one_members [OF g one] by (simp add: shown_members_def c)
  moreover have "frontier env g c (not_loaded g c d)"
  proof (rule page_frontier [OF wf pos _ rows(2) nxt])
    show "\<exists>m \<in> set (filter (below k) (history g d)). m \<notin> set rows \<and> message_key m = x" if x: "x \<in> not_loaded g c d" for x
    proof -
      from x obtain m where m: "m \<in> set (db_messages d)" "ms_groupId m = g" "message_key m = x" by (auto simp: not_loaded_def)
      moreover have "below k m" using k by (simp add: decoded_cursor_def below_def)
      ultimately show ?thesis using loaded x set_history [of g d] by auto
    qed
  qed (simp_all add: c)
  ultimately show ?thesis using ids by (simp add: in_sync_def)
qed

section \<open>Older pages\<close>

text \<open>\<open>fetchNextPage\<close> with the \<open>nextCursor\<close> of the last page; \<open>None\<close> when there is no next page, or it fails.\<close>

definition load_older :: "page_env \<Rightarrow> uuid \<Rightarrow> db \<Rightarrow> client_cache \<Rightarrow> client_cache option" where
  "load_older env g d c = (case cc_older c g of
     Some (Some cursor) \<Rightarrow> (case find_page env g PAGE_SIZE (Some cursor) d of
         Inl e \<Rightarrow> None
       | Inr (page, meta) \<Rightarrow> Some (c\<lparr>cc_history := (cc_history c)(g := map_option (\<lambda>ps. ps @ [page]) (cc_history c g)),
             cc_older := (cc_older c)(g \<mapsto> pm_nextCursor meta)\<rparr>))
   | _ \<Rightarrow> None)"

lemma older_in_sync:
  assumes load: "load_older env g d c = Some c'" and wf: "db_wf d" and g: "as_uuid g = g" and pos: "positions_ok env d"
    and sync: "in_sync older g d c" and front: "frontier env g c older"
  shows "\<exists>older' \<subseteq> older. in_sync older' g d c' \<and> frontier env g c' older'"
proof -
  from load obtain cursor page meta where cur: "cc_older c g = Some (Some cursor)"
    and page: "find_page env g PAGE_SIZE (Some cursor) d = Inr (page, meta)"
    and c': "c' = c\<lparr>cc_history := (cc_history c)(g := map_option (\<lambda>ps. ps @ [page]) (cc_history c g)),
             cc_older := (cc_older c)(g \<mapsto> pm_nextCursor meta)\<rparr>"
    by (auto simp: load_older_def split: option.splits sum.splits)
  from front obtain ps where ps: "cc_history c g = Some ps" by (auto simp: frontier_def)
  from front cur obtain k where k: "decoded_cursor env (Some cursor) = Inr (Some k)" "\<forall>x \<in> older. x < k"
    by (auto simp: frontier_def)
  obtain q rows where q: "decoded_cursor env (Some cursor) = Inr q" and rows: "page = map (message_select d) rows"
    "rows = take PAGE_SIZE (filter (below q) (history g d))"
    and nxt: "pm_nextCursor meta = None \<longrightarrow> rows = filter (below q) (history g d)"
      "\<forall>cur. pm_nextCursor meta = Some cur \<longrightarrow> rows \<noteq> [] \<and> cur = encode_cursor (message_key (last rows))"
    by (rule loaded_page [OF page g]) (rule that)
  have qk: "q = Some k" using q k(1) by simp
  let ?older = "{message_key m | m. m \<in> set (db_messages d) \<and> ms_groupId m = g \<and> message_key m \<in> older \<and> m \<notin> set rows}"
  have sub: "set rows \<subseteq> {m \<in> set (db_messages d). ms_groupId m = g}"
    unfolding rows(2) by (rule subsetI) (rule page_messages)
  have "{m \<in> set (db_messages d). ms_groupId m = g \<and> message_key m \<notin> ?older}
      = {m \<in> set (db_messages d). ms_groupId m = g \<and> message_key m \<notin> older} \<union> set rows"
    using sub inj_message_key [OF wf] by (auto simp: inj_on_def)
  then have "message_view ?older g d = message_view older g d \<union> set page"
    by (simp add: message_view_def rows(1) image_Un)
  moreover have "set (cached_messages c' g) = set (cached_messages c g) \<union> set page"
    by (auto simp: cached_messages_def pages_of_def live_of_def c' ps)
  moreover have "older_ok ?older g d" by (auto simp: older_ok_def)
  moreover have "shown_members g c' = shown_members g c" by (simp add: shown_members_def c')
  ultimately have "in_sync ?older g d c'" using sync by (auto simp: in_sync_def)
  moreover have "frontier env g c' ?older"
  proof (rule page_frontier [OF wf pos _ rows(2) nxt])
    show "\<exists>m \<in> set (filter (below q) (history g d)). m \<notin> set rows \<and> message_key m = x" if x: "x \<in> ?older" for x
    proof -
      from x obtain m where m: "m \<in> set (db_messages d)" "ms_groupId m = g" "message_key m = x" "x \<in> older" "m \<notin> set rows"
        by auto
      then have "below q m" using k(2) by (simp add: qk below_under under_def)
      with m set_history [of g d] show ?thesis by auto
    qed
  qed (simp_all add: c' ps)
  ultimately show ?thesis by (intro exI [of _ ?older]) auto
qed

section \<open>Executions of a client\<close>

text \<open>
  A client whose socket stays in the room: the chat moves and delivers, or the user loads the next
  older page. When a page is loaded, the database holds UUIDs and four-digit years.
\<close>

inductive follow ::
  "page_env \<Rightarrow> chat_env \<Rightarrow> string \<Rightarrow> uuid \<Rightarrow> chat_state \<Rightarrow> client_cache \<Rightarrow> chat_state \<Rightarrow> client_cache \<Rightarrow> bool"
  for pe env sid g st c where
  begin_follow: "watching sid g (ch_sockets st) \<Longrightarrow> follow pe env sid g st c st c"
| step: "follow pe env sid g st c st1 c1 \<Longrightarrow> chat_step env r st1 out st2 \<Longrightarrow> lower_spelt r \<Longrightarrow>
     watching sid g (ch_sockets st2) \<Longrightarrow> follow pe env sid g st c st2 (receive sid out c1)"
| older: "follow pe env sid g st c st1 c1 \<Longrightarrow> positions_ok pe (ch_db st1) \<Longrightarrow>
     load_older pe g (ch_db st1) c1 = Some c2 \<Longrightarrow> follow pe env sid g st c st1 c2"

lemma on_server_event_pages [simp]:
  "cc_older (on_server_event ev c) = cc_older c"
  "cc_history (on_server_event ev c) g = None \<longleftrightarrow> cc_history c g = None"
  by (cases ev; auto simp: on_server_event_def on_new_message_def on_message_updated_def on_reaction_updated_def
      patch_messages_def on_member_joined_def on_member_left_def on_owner_changed_def on_read_receipt_def
      update_members_def Let_def)+

lemma receive_pages [simp]:
  "cc_older (receive sid out c) = cc_older c"
  "cc_history (receive sid out c) g = None \<longleftrightarrow> cc_history c g = None"
proof -
  have "cc_older (receive sid out c) = cc_older c \<and> (cc_history (receive sid out c) g = None \<longleftrightarrow> cc_history c g = None)"
    unfolding receive_def by (induction out arbitrary: c) (simp_all split: prod.splits)
  then show "cc_older (receive sid out c) = cc_older c"
    and "cc_history (receive sid out c) g = None \<longleftrightarrow> cc_history c g = None" by blast+
qed

lemma receive_frontier [simp]: "frontier env g (receive sid out c) older = frontier env g c older"
  by (simp add: frontier_def del: not_None_eq)

lemma follow_sync:
  assumes "follow pe env sid g st c st' c'" and "chat_inv st" and "signs_ids env" and "as_uuid g = g"
    and "in_sync older g (ch_db st) c" and "frontier pe g c older"
  shows "chat_inv st' \<and> (\<exists>older' \<subseteq> older. in_sync older' g (ch_db st') c' \<and> frontier pe g c' older')"
  using assms
proof (induction rule: follow.induct)
  case (step st1 c1 r out st2)
  then obtain o1 where o1: "chat_inv st1" "o1 \<subseteq> older" "in_sync o1 g (ch_db st1) c1" "frontier pe g c1 o1" by blast
  have "chat_inv st2"
    using chat_step_inv [OF step.hyps(2) o1(1) step.prems(2) lower_well_spelt [OF step.hyps(3)]] .
  moreover have "in_sync o1 g (ch_db st2) (receive sid out c1)"
    using chat_step_follows [OF step.hyps(2) o1(1) step.hyps(3,4) o1(3)] .
  moreover have "frontier pe g (receive sid out c1) o1" using o1(4) by simp
  ultimately show ?case using o1(2) by blast
next
  case (older st1 c1 c2)
  then obtain o1 where o1: "chat_inv st1" "o1 \<subseteq> older" "in_sync o1 g (ch_db st1) c1" "frontier pe g c1 o1" by blast
  have "db_wf (ch_db st1)" using o1(1) by (simp add: chat_inv_def groups_inv_def)
  from older_in_sync [OF older.hyps(3) this older.prems(3) older.hyps(2) o1(3,4)] o1(1,2) show ?case by blast
qed blast

text \<open>The message list, as a list: the messages shown once each and in the order of the server.\<close>

lemma synced_list:
  assumes wf: "db_wf d" and sync: "set (cached_messages c g) = message_view older g d"
  shows "group_messages c g = server_messages older g d"
proof -
  let ?rows = "filter (\<lambda>m. ms_groupId m = g \<and> message_key m \<notin> older) (db_messages d)"
  let ?merged = "fold by_id_set (cached_messages c g) []"
  have same: "x = y" if "x \<in> message_view older g d" "y \<in> message_view older g d" "bm_id x = bm_id y" for x y
  proof -
    from that(1,2) obtain a b where "x = message_select d a" "a \<in> set (db_messages d)"
      "y = message_select d b" "b \<in> set (db_messages d)" by (auto simp: message_view_def)
    with same_message_id [OF wf, of a b] that(3) show ?thesis by simp
  qed
  have merged: "set ?merged = message_view older g d" "distinct (map bm_id ?merged)"
    using merge_coherent [of "cached_messages c g" "[]"] same sync by auto
  have key: "bm_key \<circ> message_select d = message_key"
    by (auto simp: fun_eq_iff bm_key_def message_key_def message_select_def)
  have ids: "distinct (map ms_id ?rows)"
  proof -
    have "distinct ?rows" using messages.distinct_rows [OF wf_messages [OF wf]] by simp
    moreover have "inj_on ms_id (set ?rows)" using same_message_id [OF wf] by (auto simp: inj_on_def)
    ultimately show ?thesis by (simp add: distinct_map)
  qed
  have view: "set (map (message_select d) ?rows) = message_view older g d"
    by (auto simp: message_view_def)
  have dist: "distinct ?merged" "distinct (map (message_select d) ?rows)"
  proof -
    show "distinct ?merged" using merged(2) by (simp add: distinct_map)
    have "map bm_id (map (message_select d) ?rows) = map ms_id ?rows" by simp
    with ids have "distinct (map bm_id (map (message_select d) ?rows))" by (simp only:)
    then show "distinct (map (message_select d) ?rows)" by (rule distinct_map [THEN iffD1, THEN conjunct1])
  qed
  then have "mset ?merged = mset (map (message_select d) ?rows)"
    using set_eq_iff_mset_eq_distinct [OF dist] merged(1) view by (simp only: simp_thms)
  moreover have "inj_on bm_key (set ?merged)"
    using merged(2) by (auto simp: distinct_map inj_on_def bm_key_def)
  ultimately have "sort_key bm_key ?merged = sort_key bm_key (map (message_select d) ?rows)"
    by (intro sort_key_inj_key_eq) simp_all
  also have "\<dots> = map (message_select d) (sort_key message_key ?rows)"
  proof -
    have "insort_key bm_key (message_select d x) (map (message_select d) ys)
        = map (message_select d) (insort_key message_key x ys)" for x ys
      by (induction ys) (simp_all add: key [symmetric])
    then have "sort_key bm_key (map (message_select d) xs) = map (message_select d) (sort_key message_key xs)" for xs
      by (induction xs) simp_all
    then show ?thesis .
  qed
  finally show ?thesis by (simp add: group_messages_def server_messages_def)
qed

end
