(* ===== verification/ClientRuns.thy ===== *)
theory ClientRuns
  imports ClientHistory
begin

text \<open>
  Executions of a browser next to the chat, and the two properties of the browser's copy: the member
  panel and the message list show what the server holds.
\<close>

section \<open>Running a client\<close>

text \<open>What happens: a request of anybody, or the click on \<open>Load older\<close>; a run lists the last one first.\<close>

datatype browser_act = Chat chat_req | LoadOlder

fun follow_act ::
  "page_env \<Rightarrow> chat_env \<Rightarrow> string \<Rightarrow> uuid \<Rightarrow> browser_act \<Rightarrow> chat_state \<times> client_cache \<Rightarrow> (chat_state \<times> client_cache) option"
  where
  "follow_act pe env sid g (Chat r) (st, c) = (case chat_exec env r st of None \<Rightarrow> None
     | Some (st1, out) \<Rightarrow> (if lower_spelt r \<and> watching sid g (ch_sockets st1) then Some (st1, receive sid out c) else None))"
| "follow_act pe env sid g LoadOlder (st, c) =
     (if positions_ok pe (ch_db st) then map_option (Pair st) (load_older pe g (ch_db st) c) else None)"

fun follow_exec ::
  "page_env \<Rightarrow> chat_env \<Rightarrow> string \<Rightarrow> uuid \<Rightarrow> browser_act list \<Rightarrow> chat_state \<times> client_cache \<Rightarrow> (chat_state \<times> client_cache) option"
  where
  "follow_exec pe env sid g [] s = Some s"
| "follow_exec pe env sid g (a # rs) s = (case follow_exec pe env sid g rs s of None \<Rightarrow> None
     | Some s1 \<Rightarrow> follow_act pe env sid g a s1)"

lemma follow_exec_sound:
  "follow_exec pe env sid g rs (st, c) = Some (st', c') \<Longrightarrow> watching sid g (ch_sockets st) \<Longrightarrow>
     follow pe env sid g st c st' c'"
proof (induction rs arbitrary: st' c')
  case Nil
  then show ?case by (auto intro: follow.begin_follow)
next
  case (Cons a rs)
  then obtain st1 c1 where run: "follow pe env sid g st c st1 c1" and a: "follow_act pe env sid g a (st1, c1) = Some (st', c')"
    by (auto split: option.splits)
  show ?case
  proof (cases a)
    case (Chat r)
    with a obtain out where "chat_exec env r st1 = Some (st', out)" "lower_spelt r" "watching sid g (ch_sockets st')"
      "c' = receive sid out c1" by (auto split: option.splits if_splits)
    with follow.step [OF run chat_exec_step] show ?thesis by blast
  next
    case LoadOlder
    with a have "positions_ok pe (ch_db st1)" "load_older pe g (ch_db st1) c1 = Some c'" "st' = st1"
      by (auto split: if_splits)
    with follow.older [OF run] show ?thesis by blast
  qed
qed

section \<open>Properties\<close>

text \<open>What a client that has loaded the group knows at any later time.\<close>

lemma loaded_client:
  assumes inv: "chat_inv st" and env: "signs_ids env" and ids: "\<forall>x \<in> set (db_users (ch_db st)). u_id x \<noteq> []"
    and g: "as_uuid g = g" and pos: "positions_ok pe (ch_db st)" and load: "load_group pe g (ch_db st) = Some c"
    and run: "follow pe env sid g st c st' c'"
  obtains older where "db_wf (ch_db st')" and "older \<subseteq> not_loaded g c (ch_db st)"
    and "in_sync older g (ch_db st') c'" and "frontier pe g c' older"
proof -
  have "db_wf (ch_db st)" using inv by (simp add: chat_inv_def groups_inv_def)
  note start = load_in_sync [OF load this g ids pos]
  from follow_sync [OF run inv env g start [THEN conjunct1] start [THEN conjunct2]] obtain older where
    "chat_inv st'" "older \<subseteq> not_loaded g c (ch_db st)" "in_sync older g (ch_db st') c'" "frontier pe g c' older" by blast
  then show ?thesis by (intro that) (simp_all add: chat_inv_def groups_inv_def)
qed


definition user_of :: "nat \<Rightarrow> auth_user" where
  "user_of n = \<lparr>au_userId = sample_id n, au_email = ''x@x.com''\<rparr>"

text \<open>Ann's page: her socket is in the room of the sample group.\<close>

definition sample_opened :: chat_state where
  "sample_opened = \<lparr>ch_db = sample_db, ch_sockets = [\<lparr>sk_id = ''s1'', sk_user = sample_id 1,
     sk_email = ''ann@x.com'', sk_rooms = [''s1'', room_for (sample_id 4)]\<rparr>]\<rparr>"

definition sample_day :: "browser_act list" where
  "sample_day = rev [Chat (Http (user_of 3) (Leave (sample_id 4))),
     Chat (Http (user_of 1) (Edit 520 (sample_id 4) (sample_id 8) (JStr ''hi all''))),
     Chat (Send (sample_id 21) 530 ''s1'' (Some (sample_id 4)) (Some ''bye'')),
     Chat (Http (user_of 1) (Transfer (sample_id 4) (sample_id 2)))]"

definition watch_run :: "chat_state \<Rightarrow> browser_act list \<Rightarrow> (client_cache \<times> chat_state \<times> client_cache) option" where
  "watch_run s acts = (case load_group sample_page_env (sample_id 4) (ch_db s) of None \<Rightarrow> None
     | Some c \<Rightarrow> map_option (Pair c) (follow_exec sample_page_env feed_env ''s1'' (sample_id 4) acts (s, c)))"

lemma watch_run_follows:
  assumes "watch_run s acts = Some (c, st', c')" and "watching ''s1'' (sample_id 4) (ch_sockets s)"
  shows "load_group sample_page_env (sample_id 4) (ch_db s) = Some c"
    and "follow sample_page_env feed_env ''s1'' (sample_id 4) s c st' c'"
proof -
  from assms(1) have "load_group sample_page_env (sample_id 4) (ch_db s) = Some c"
    and exec: "follow_exec sample_page_env feed_env ''s1'' (sample_id 4) acts (s, c) = Some (st', c')"
    by (auto simp: watch_run_def split: option.splits)
  then show "load_group sample_page_env (sample_id 4) (ch_db s) = Some c" by blast
  show "follow sample_page_env feed_env ''s1'' (sample_id 4) s c st' c'"
    by (rule follow_exec_sound [OF exec assms(2)])
qed

lemma sample_opened_inv: "chat_inv sample_opened"
  unfolding chat_inv_def using sample_groups_inv by (simp add: sample_opened_def) code_simp

lemma sample_users_named: "\<forall>x \<in> set (db_users (ch_db sample_opened)). u_id x \<noteq> []"
  by (simp add: sample_opened_def sample_db_def sample_user_def)

lemma sample_positions: "positions_ok sample_page_env (ch_db sample_opened)"
  by code_simp

lemma sample_watching: "watching ''s1'' (sample_id 4) (ch_sockets sample_opened)"
  by (simp add: watching_def sample_opened_def in_room_def)

lemma sample_watched: "case watch_run sample_opened sample_day of None \<Rightarrow> False
   | Some (c, st', c') \<Rightarrow> \<not> isl (find_one (sample_id 4) (ch_db st')) \<and> has_group (ch_db st') (sample_id 4)
      \<and> cc_older c' (sample_id 4) = Some None
      \<and> map bm_content (group_messages c' (sample_id 4)) = [''hi all'', ''Hi Ann'', ''bye'']"
  by code_simp




end
