(* ===== verification/ClientRoom.thy ===== *)
theory ClientRoom
  imports ClientRuns
begin

text \<open>
  A group page that comes and goes (use-group-room.ts, the queries of queries/messages.ts when the page is
  mounted again): the room hook emits \<open>join_group\<close> and \<open>leave_group\<close>; loading older pages ends with the
  whole history; and a page that is opened again fetches its loaded pages anew and merges them with what
  the live buffer kept, which is stale where something changed while the socket was out of the room.
\<close>

section \<open>The room hook\<close>

text \<open>The dependencies of the effect: the socket, whether it is connected, and the group of the page.\<close>

type_synonym room_deps = "string option \<times> bool \<times> uuid"

definition room_setup :: "room_deps \<Rightarrow> chat_req list" where
  "room_setup deps = (case deps of (socket, connected, groupId) \<Rightarrow> (case socket of
     None \<Rightarrow> []
   | Some sid \<Rightarrow> (if \<not> connected \<or> groupId = [] then [] else [Enter sid (Some groupId)])))"

definition room_cleanup :: "room_deps \<Rightarrow> chat_req list" where
  "room_cleanup deps = map (\<lambda>r. case r of Enter sid g \<Rightarrow> Exit sid g | _ \<Rightarrow> r) (room_setup deps)"

text \<open>One render, from the last dependencies to the new ones; \<open>None\<close> when the page is not mounted.\<close>

definition use_group_room :: "room_deps option \<Rightarrow> room_deps option \<Rightarrow> chat_req list" where
  "use_group_room old new = (if old = new then []
     else (case old of None \<Rightarrow> [] | Some deps \<Rightarrow> room_cleanup deps)
        @ (case new of None \<Rightarrow> [] | Some deps \<Rightarrow> room_setup deps))"

fun room_emits :: "room_deps option \<Rightarrow> room_deps option list \<Rightarrow> chat_req list" where
  "room_emits old [] = []"
| "room_emits old (new # rest) = use_group_room old new @ room_emits new rest"

text \<open>The rooms that the emitted requests leave a socket in.\<close>

fun room_effect :: "chat_req \<Rightarrow> (string \<times> uuid) set \<Rightarrow> (string \<times> uuid) set" where
  "room_effect (Enter sid (Some g)) rs = insert (sid, g) rs"
| "room_effect (Exit sid (Some g)) rs = rs - {(sid, g)}"
| "room_effect _ rs = rs"

definition rooms_wanted :: "room_deps option \<Rightarrow> (string \<times> uuid) set" where
  "rooms_wanted deps = (case deps of Some (Some sid, True, g) \<Rightarrow> (if g = [] then {} else {(sid, g)}) | _ \<Rightarrow> {})"

lemma render_effect: "fold room_effect (use_group_room old new) (rooms_wanted old) = rooms_wanted new"
  by (auto simp: use_group_room_def room_cleanup_def room_setup_def rooms_wanted_def split: option.splits bool.splits)

lemma room_hook_tracks_the_page:
  "fold room_effect (room_emits old rs) (rooms_wanted old) = rooms_wanted (last (old # rs))"
  by (induction rs arbitrary: old) (simp_all add: render_effect)

section \<open>Loading everything\<close>

text \<open>Up to \<open>n\<close> clicks on \<open>Load older\<close>, which is gone once there is no next page.\<close>

fun click_older :: "page_env \<Rightarrow> uuid \<Rightarrow> db \<Rightarrow> nat \<Rightarrow> client_cache \<Rightarrow> client_cache option" where
  "click_older env g d 0 c = Some c"
| "click_older env g d (Suc n) c = (if cc_older c g = Some None then Some c
     else Option.bind (load_older env g d c) (click_older env g d n))"

lemma click_older_sync:
  assumes "click_older env g d n c = Some c'" and wf: "db_wf d" and g: "as_uuid g = g" and pos: "positions_ok env d"
    and "in_sync older g d c" and "frontier env g c older"
  shows "\<exists>older' \<subseteq> older. in_sync older' g d c' \<and> frontier env g c' older'"
  using assms(1,5,6)
proof (induction n arbitrary: c older)
  case (Suc n)
  show ?case
  proof (cases "cc_older c g = Some None")
    case False
    with Suc.prems(1) obtain c1 where c1: "load_older env g d c = Some c1" "click_older env g d n c1 = Some c'"
      by (auto simp: bind_eq_Some_conv)
    from older_in_sync [OF c1(1) wf g pos Suc.prems(2,3)] obtain o1 where
      o1: "o1 \<subseteq> older" "in_sync o1 g d c1" "frontier env g c1 o1" by blast
    from Suc.IH [OF c1(2) o1(2,3)] o1(1) show ?thesis by blast
  qed (use Suc.prems in auto)
qed auto

text \<open>Every page leaves fewer rows below its cursor, if there is a next page at all.\<close>

lemma strictly_sorted_distinct: "sorted_wrt (\<lambda>a b. (f b :: 'b :: order) < f a) xs \<Longrightarrow> distinct xs"
  by (induction xs) auto

lemma page_left:
  assumes wf: "db_wf d" and g: "as_uuid g = g" and pos: "positions_ok env d" and k: "decoded_cursor env cursor = Inr k"
  obtains page meta where "find_page env g PAGE_SIZE cursor d = Inr (page, meta)"
    and "pm_nextCursor meta = None
      \<or> (\<exists>cur k'. pm_nextCursor meta = Some cur \<and> decoded_cursor env (Some cur) = Inr k'
          \<and> length (filter (below k') (history g d)) < length (filter (below k) (history g d)))"
proof -
  let ?all = "filter (below k) (history g d)"
  let ?last = "last (take PAGE_SIZE ?all)"
  note page = find_page_rows [OF k g refl, of d]
  show ?thesis
  proof (cases "PAGE_SIZE < length ?all")
    case True
    have "take PAGE_SIZE ?all \<noteq> []" using True by (auto simp: PAGE_SIZE_def)
    then have l: "?last \<in> set (take PAGE_SIZE ?all)" by (rule last_in_set)
    then have db: "?last \<in> set (db_messages d)" using page_messages by blast
    have below: "below (Some (message_key ?last)) m \<longleftrightarrow> message_key m < message_key ?last" for m
      by (auto simp: below_under under_def)
    have "message_key ?last < the k" if "k \<noteq> None"
      using in_set_takeD [OF l] that by (auto simp: below_under under_def)
    then have "set (filter (below (Some (message_key ?last))) (history g d)) \<subseteq> set ?all - {?last}"
      by (cases k) (auto simp: below, auto simp: below_under under_def)
    moreover have "distinct (history g d)"
      using message_pages.descending [of "(g, d)"] wf by (simp add: strictly_sorted_distinct)
    ultimately have "length (filter (below (Some (message_key ?last))) (history g d)) \<le> card (set ?all - {?last})"
      by (metis card_mono distinct_card distinct_filter finite_Diff finite_set)
    also have "\<dots> < length ?all"
      using in_set_takeD [OF l] by (meson card_Diff1_less card_length finite_set less_le_trans)
    finally show ?thesis using page True decoded_own_cursor [OF pos db] by (intro that) (auto split: if_splits)
  qed (use page in \<open>intro that, auto\<close>)
qed

text \<open>The rows that are still below the cursor of a cache.\<close>

definition rows_left :: "page_env \<Rightarrow> uuid \<Rightarrow> db \<Rightarrow> client_cache \<Rightarrow> nat \<Rightarrow> bool" where
  "rows_left env g d c n \<longleftrightarrow> (case cc_older c g of
     None \<Rightarrow> False
   | Some None \<Rightarrow> True
   | Some (Some cur) \<Rightarrow> (\<exists>k. decoded_cursor env (Some cur) = Inr k \<and> length (filter (below k) (history g d)) < n))"

lemma click_older_ends:
  assumes wf: "db_wf d" and g: "as_uuid g = g" and pos: "positions_ok env d"
  shows "rows_left env g d c n \<Longrightarrow> \<exists>c'. click_older env g d n c = Some c' \<and> cc_older c' g = Some None"
proof (induction n arbitrary: c)
  case 0
  then show ?case by (auto simp: rows_left_def split: option.splits)
next
  case (Suc n)
  show ?case
  proof (cases "cc_older c g = Some None")
    case False
    with Suc.prems obtain cur k where cur: "cc_older c g = Some (Some cur)" "decoded_cursor env (Some cur) = Inr k"
      and n: "length (filter (below k) (history g d)) < Suc n"
      by (auto simp: rows_left_def split: option.splits)
    obtain page meta where page: "find_page env g PAGE_SIZE (Some cur) d = Inr (page, meta)"
      and next_page: "pm_nextCursor meta = None \<or> (\<exists>cur' k'. pm_nextCursor meta = Some cur' \<and> decoded_cursor env (Some cur') = Inr k'
          \<and> length (filter (below k') (history g d)) < length (filter (below k) (history g d)))"
      by (rule page_left [OF wf g pos cur(2)])
    obtain c1 where c1: "load_older env g d c = Some c1" "cc_older c1 g = Some (pm_nextCursor meta)"
      by (simp add: load_older_def cur(1) page)
    with next_page n have "rows_left env g d c1 n" by (auto simp: rows_left_def)
    from Suc.IH [OF this] c1(1) False show ?thesis by auto
  qed simp
qed

lemma load_group_left:
  assumes load: "load_group env g d = Some c" and wf: "db_wf d" and g: "as_uuid g = g" and pos: "positions_ok env d"
  shows "rows_left env g d c (length (db_messages d))"
proof -
  have all: "decoded_cursor env None = Inr None" by (simp add: decoded_cursor_def)
  obtain page meta where page: "find_page env g PAGE_SIZE None d = Inr (page, meta)"
    and next_page: "pm_nextCursor meta = None \<or> (\<exists>cur' k'. pm_nextCursor meta = Some cur' \<and> decoded_cursor env (Some cur') = Inr k'
        \<and> length (filter (below k') (history g d)) < length (filter (below None) (history g d)))"
    by (rule page_left [OF wf g pos all])
  have "length (filter (below None) (history g d)) \<le> length (db_messages d)"
    by (simp add: below_under under_def history_def newest_first_def)
  moreover have "cc_older c g = Some (pm_nextCursor meta)"
    using load page by (auto simp: load_group_def split: sum.splits)
  ultimately show ?thesis using next_page by (fastforce simp: rows_left_def)
qed

section \<open>Opening a page again\<close>

text \<open>
  The page of a group is mounted again when the cached queries have become stale but are still kept: the
  query library fetches the detail and as many pages as were loaded, the live buffer stays (its
  \<open>staleTime\<close> is infinite).
\<close>

definition reopen_group :: "page_env \<Rightarrow> uuid \<Rightarrow> db \<Rightarrow> client_cache \<Rightarrow> client_cache option" where
  "reopen_group env g d c = (case load_group env g d of None \<Rightarrow> None
     | Some c0 \<Rightarrow> map_option (\<lambda>c1. c\<lparr>cc_history := (cc_history c)(g := cc_history c1 g),
           cc_older := (cc_older c)(g := cc_older c1 g), cc_detail := (cc_detail c)(g := cc_detail c1 g)\<rparr>)
         (click_older env g d (length (pages_of c g) - 1) c0))"

lemma by_id_set_keeps: "x \<in> set ms \<Longrightarrow> bm_id x \<noteq> bm_id m \<Longrightarrow> x \<in> set (by_id_set m ms)"
  by (force simp: by_id_set_def)

lemma fold_by_id_keeps: "x \<in> set acc \<Longrightarrow> bm_id x \<notin> bm_id ` set ms \<Longrightarrow> x \<in> set (fold by_id_set ms acc)"
  by (induction ms arbitrary: acc) (auto simp: by_id_set_keeps)

lemma by_id_set_sets: "m \<in> set (by_id_set m ms)"
  by (force simp: by_id_set_def list_ex_iff)

lemma last_copy_wins: "distinct (map bm_id ms) \<Longrightarrow> x \<in> set ms \<Longrightarrow> x \<in> set (fold by_id_set ms acc)"
  by (induction ms arbitrary: acc) (auto simp: by_id_set_sets intro: fold_by_id_keeps)

lemma live_copy_is_shown:
  assumes "distinct (map bm_id (live_of c g))" and "x \<in> set (live_of c g)"
  shows "x \<in> set (group_messages c g)"
  using last_copy_wins [OF assms] by (simp add: group_messages_def cached_messages_def)

lemma load_older_live: "load_older env g d c = Some c' \<Longrightarrow> cc_live c' = cc_live c"
  by (auto simp: load_older_def split: option.splits sum.splits)

lemma click_older_live: "click_older env g d n c = Some c' \<Longrightarrow> cc_live c' = cc_live c"
  by (induction n arbitrary: c) (auto simp: bind_eq_Some_conv load_older_live split: if_splits)

lemma reopened_pages:
  assumes re: "reopen_group env g d c = Some c'" and wf: "db_wf d" and g: "as_uuid g = g"
    and ids: "\<forall>x \<in> set (db_users d). u_id x \<noteq> []" and pos: "positions_ok env d"
  shows "\<exists>older. set (cached_messages c' g) = message_view older g d \<union> set (live_of c g)"
proof -
  from re obtain c0 c1 where c0: "load_group env g d = Some c0"
    and c1: "click_older env g d (length (pages_of c g) - 1) c0 = Some c1"
    and c': "c' = c\<lparr>cc_history := (cc_history c)(g := cc_history c1 g),
           cc_older := (cc_older c)(g := cc_older c1 g), cc_detail := (cc_detail c)(g := cc_detail c1 g)\<rparr>"
    by (auto simp: reopen_group_def split: option.splits)
  note start = load_in_sync [OF c0 wf g ids pos]
  from click_older_sync [OF c1 wf g pos start [THEN conjunct1] start [THEN conjunct2]] obtain older where
    "in_sync older g d c1" by blast
  moreover have "has_group d g" using find_one_has_group [OF g] c0 by (auto simp: load_group_def split: sum.splits)
  ultimately have view: "set (cached_messages c1 g) = message_view older g d" by (simp add: in_sync_def)
  have "cc_live c0 = Map.empty" using c0 by (auto simp: load_group_def split: sum.splits)
  then have "live_of c1 g = []" using click_older_live [OF c1] by (simp add: live_of_def)
  with view have "set (concat (pages_of c1 g)) = message_view older g d" by (simp add: cached_messages_def)
  moreover have "pages_of c' g = pages_of c1 g" "live_of c' g = live_of c g"
    by (simp_all add: c' pages_of_def live_of_def)
  ultimately have "set (cached_messages c' g) = message_view older g d \<union> set (live_of c g)"
    by (simp add: cached_messages_def)
  then show ?thesis by blast
qed

lemma reopened_live: "reopen_group env g d c = Some c' \<Longrightarrow> live_of c' g = live_of c g"
  by (auto simp: reopen_group_def live_of_def split: option.splits)

lemma set_server_messages: "set (server_messages older g d) = message_view older g d"
  by (auto simp: server_messages_def message_view_def)

text \<open>Any part of a group's messages is what is left of it without some older ones.\<close>

lemma part_of_view:
  assumes "set xs \<subseteq> message_view {} g d" and wf: "db_wf d"
  shows "\<exists>older. set xs = message_view older g d"
proof (intro exI)
  let ?gone = "message_key ` {m \<in> set (db_messages d). ms_groupId m = g \<and> message_select d m \<notin> set xs}"
  have "message_key m \<in> ?gone \<longleftrightarrow> message_select d m \<notin> set xs" if "m \<in> set (db_messages d)" "ms_groupId m = g" for m
    using that inj_message_key [OF wf] by (auto simp: inj_on_def)
  with assms(1) show "set xs = message_view ?gone g d" by (auto simp: message_view_def)
qed

section \<open>Properties\<close>

text \<open>
  C12. Loading older messages ends. Whoever has loaded a group and keeps clicking \<open>Load older\<close> runs
  out of pages after at most as many clicks as there are messages, without an error, and then sees the whole
  history of the group. (The database is at rest meanwhile, holds UUIDs and four-digit years.)
\<close>

theorem loading_older_ends:
  assumes "db_wf d" and "positions_ok env d" and "\<forall>x \<in> set (db_users d). u_id x \<noteq> []" and "as_uuid g = g"
    and "load_group env g d = Some c"
  shows "\<exists>c'. click_older env g d (length (db_messages d)) c = Some c' \<and> cc_older c' g = Some None
     \<and> group_messages c' g = server_messages {} g d"
proof -
  note start = load_in_sync [OF assms(5,1,4,3,2)]
  from click_older_ends [OF assms(1,4,2) load_group_left [OF assms(5,1,4,2)]] obtain c' where
    c': "click_older env g d (length (db_messages d)) c = Some c'" "cc_older c' g = Some None" by blast
  from click_older_sync [OF c'(1) assms(1,4,2) start [THEN conjunct1] start [THEN conjunct2]] obtain older where
    o: "in_sync older g d c'" "frontier env g c' older" by blast
  have "has_group d g" using find_one_has_group [OF assms(4)] assms(5) by (auto simp: load_group_def split: sum.splits)
  with o c'(2) have "set (cached_messages c' g) = message_view {} g d" by (simp add: in_sync_def frontier_def)
  with c' synced_list [OF assms(1)] show ?thesis by blast
qed

definition busy_db :: db where
  "busy_db = sample_db\<lparr>db_messages := db_messages sample_db
     @ map (\<lambda>i. sample_message (20 + i) 2 ''..'' (int (400 + i))) [0..<20]\<rparr>"

lemma busy_db_wf: "db_wf busy_db"
  by code_simp

lemma busy_positions: "positions_ok sample_page_env busy_db"
  by code_simp

lemma busy_loaded:
  obtains c where "load_group sample_page_env (sample_id 4) busy_db = Some c" and "cc_older c (sample_id 4) \<noteq> Some None"
proof -
  have "has_group busy_db (sample_id 4)" by (simp add: has_group_def busy_db_def sample_db_def)
  then obtain grp ms where one: "find_one (sample_id 4) busy_db = Inr (grp, ms)"
    using find_one_group [OF as_uuid_sample(1)] by blast
  have "decoded_cursor sample_page_env None = Inr None" by (simp add: decoded_cursor_def)
  note page = find_page_rows [OF this as_uuid_sample(1) [of 4] refl, where d = busy_db]
  have "\<forall>m \<in> set (db_messages busy_db). ms_groupId m = sample_id 4"
    by (auto simp: busy_db_def sample_db_def sample_message_def)
  then have "length (history (sample_id 4) busy_db) = length (db_messages busy_db)"
    by (simp add: history_def newest_first_def)
  then have "PAGE_SIZE < length (filter (below None) (history (sample_id 4) busy_db))"
    by (simp add: below_under under_def PAGE_SIZE_def busy_db_def sample_db_def)
  with one page that show ?thesis by (auto simp: load_group_def)
qed

text \<open>Witness for C12: a group of twenty-two messages, of which the first page shows twenty.\<close>

theorem loading_older_ends_witness:
  "\<exists>c c'. load_group sample_page_env (sample_id 4) busy_db = Some c \<and> cc_older c (sample_id 4) \<noteq> Some None
     \<and> click_older sample_page_env (sample_id 4) busy_db 22 c = Some c'
     \<and> group_messages c' (sample_id 4) = server_messages {} (sample_id 4) busy_db"
proof -
  obtain c where c: "load_group sample_page_env (sample_id 4) busy_db = Some c" "cc_older c (sample_id 4) \<noteq> Some None"
    by (rule busy_loaded)
  have "\<forall>x \<in> set (db_users busy_db). u_id x \<noteq> []" "length (db_messages busy_db) = 22"
    by (simp_all add: busy_db_def sample_db_def sample_user_def)
  with loading_older_ends [OF busy_db_wf busy_positions _ as_uuid_sample(1) c(1)] c show ?thesis by auto
qed


text \<open>
  A message of Bob reaches Ann's page; she goes to the list of groups, he deletes the message, she comes back.
\<close>

definition away_visit :: "(client_cache \<times> chat_state \<times> client_cache) option" where
  "away_visit = (case (load_group sample_page_env (sample_id 4) (ch_db sample_opened),
      chat_exec feed_env (Http (user_of 2) (PostMessage (sample_id 22) 530 (sample_id 4) (JStr ''secret''))) sample_opened) of
     (Some c, Some (st1, out)) \<Rightarrow> (case chat_exec_all feed_env
         (use_group_room (Some (Some ''s1'', True, sample_id 4)) None
          @ Http (user_of 2) (Remove 540 (sample_id 4) (sample_id 22))
          # use_group_room None (Some (Some ''s1'', True, sample_id 4))) st1 of
       Some (st2, _) \<Rightarrow> map_option (\<lambda>c2. (receive ''s1'' out c, st2, c2))
         (reopen_group sample_page_env (sample_id 4) (ch_db st2) (receive ''s1'' out c))
     | None \<Rightarrow> None)
   | _ \<Rightarrow> None)"

lemma away_visit_outcome: "case away_visit of None \<Rightarrow> False
   | Some (c, st, c') \<Rightarrow> db_wf (ch_db st) \<and> positions_ok sample_page_env (ch_db st)
      \<and> list_all (\<lambda>x. u_id x \<noteq> []) (db_users (ch_db st)) \<and> map bm_content (live_of c (sample_id 4)) = [''secret'']
      \<and> list_all (\<lambda>m. bm_content m \<noteq> ''secret'') (server_messages {} (sample_id 4) (ch_db st))"
  by code_simp


section \<open>Before the join\<close>

text \<open>
  The first fetch and the join of the room are not ordered. Here Ann's page has fetched the group, Bob writes, and
  only then her socket enters the room: the page is in the room and lacks the message, for the broadcast
  did not reach it and nothing is fetched again.
\<close>

definition gap_visit :: "(chat_state \<times> client_cache) option" where
  "gap_visit = (let st = sample_opened\<lparr>ch_sockets := map (leave_room (room_for (sample_id 4))) (ch_sockets sample_opened)\<rparr>
     in case (load_group sample_page_env (sample_id 4) (ch_db st),
         chat_exec_all feed_env (Http (user_of 2) (PostMessage (sample_id 22) 530 (sample_id 4) (JStr ''early''))
           # use_group_room None (Some (Some ''s1'', True, sample_id 4))) st) of
       (Some c, Some (st1, tr)) \<Rightarrow> Some (st1, receive ''s1'' (concat (map snd tr)) c)
     | _ \<Rightarrow> None)"

lemma gap_visit_outcome: "case gap_visit of None \<Rightarrow> False
   | Some (st, c) \<Rightarrow> watching ''s1'' (sample_id 4) (ch_sockets st)
      \<and> map bm_content (group_messages c (sample_id 4)) = [''hello'', ''Hi Ann'']
      \<and> map bm_content (server_messages {} (sample_id 4) (ch_db st)) = [''hello'', ''Hi Ann'', ''early'']"
  by code_simp

end
