(* ===== verification/ClientSession.thy ===== *)
theory ClientSession
  imports Tokens
begin

text \<open>
  The browser's session (frontend/src/lib/api/client.ts, session.ts, auth.ts, lib/auth/auth-context.tsx):
  the two tokens in localStorage, the axios interceptors with their single-flight refresh, and the
  authentication status. The interceptors are a machine driven by events (a request, a 401, the answer
  to the refresh), with the HTTP calls as its effects; localStorage is shared by the tabs of a browser,
  the pending refresh is each tab's own. An empty text is falsy, so an empty token counts as none.

  The lemmas show that one tab never presents a refresh token twice, which is what the server's reuse
  detection relies on, and that two tabs do.
\<close>

section \<open>Storage\<close>

record kept_tokens =
  kt_access :: "string option"
  kt_refresh :: "string option"

definition store_set :: "auth_tokens \<Rightarrow> kept_tokens" where
  "store_set t = \<lparr>kt_access = Some (at_accessToken t), kt_refresh = Some (at_refreshToken t)\<rparr>"

definition store_clear :: kept_tokens where
  "store_clear = \<lparr>kt_access = None, kt_refresh = None\<rparr>"

definition is_authenticated :: "kept_tokens \<Rightarrow> bool" where
  "is_authenticated k \<longleftrightarrow> kt_access k \<noteq> None"

definition truthy :: "string option \<Rightarrow> bool" where
  "truthy s \<longleftrightarrow> (case s of None \<Rightarrow> False | Some t \<Rightarrow> t \<noteq> [])"

text \<open>\<open>userStore.get\<close>: \<open>parse\<close> is \<open>JSON.parse\<close>, \<open>None\<close> when it throws.\<close>

definition user_store_get :: "(string \<Rightarrow> 'u option) \<Rightarrow> string option \<Rightarrow> 'u option" where
  "user_store_get parse raw = (case raw of None \<Rightarrow> None | Some s \<Rightarrow> (if s = [] then None else parse s))"

section \<open>The interceptors\<close>

record api_request =
  rq_id :: nat
  rq_retried :: bool
  rq_bearer :: "string option"

definition attach_token :: "kept_tokens \<Rightarrow> api_request \<Rightarrow> api_request" where
  "attach_token k rq = (if truthy (kt_access k) then rq\<lparr>rq_bearer := kt_access k\<rparr> else rq)"

text \<open>The pending refresh promise of a tab, by the token it presented, and the requests awaiting it.\<close>

record tab =
  tb_inflight :: "string option"
  tb_waiting :: "api_request list"

definition idle_tab :: tab where
  "idle_tab = \<lparr>tb_inflight = None, tb_waiting = []\<rparr>"

datatype client_effect = PostRefresh string | Submit api_request | Reject nat | LogoutEvent

text \<open>\<open>refreshAccessToken\<close>: join the refresh in flight or start one.\<close>

definition refresh_access_token :: "string \<Rightarrow> tab \<Rightarrow> tab \<times> client_effect list" where
  "refresh_access_token refreshToken t = (case tb_inflight t of
     Some _ \<Rightarrow> (t, [])
   | None \<Rightarrow> (t\<lparr>tb_inflight := Some refreshToken\<rparr>, [PostRefresh refreshToken]))"

text \<open>The response interceptor on a 401, up to its \<open>await\<close>.\<close>

definition on_unauthorized :: "api_request \<Rightarrow> kept_tokens \<Rightarrow> tab \<Rightarrow> tab \<times> client_effect list" where
  "on_unauthorized rq k t = (case kt_refresh k of
     Some r \<Rightarrow>
       (if rq_retried rq \<or> r = [] then (t, [Reject (rq_id rq)])
        else case refresh_access_token r t of
            (t1, out) \<Rightarrow> (t1\<lparr>tb_waiting := tb_waiting t1 @ [rq\<lparr>rq_retried := True\<rparr>]\<rparr>, out))
   | None \<Rightarrow> (t, [Reject (rq_id rq)]))"

text \<open>The end of \<open>doRefresh\<close>, and what each waiting request does with its value.\<close>

definition resume :: "kept_tokens \<Rightarrow> string option \<Rightarrow> api_request \<Rightarrow> client_effect list" where
  "resume k newAccessToken rq = (if truthy newAccessToken
     then [Submit (attach_token k (rq\<lparr>rq_bearer := newAccessToken\<rparr>))]
     else [LogoutEvent, Reject (rq_id rq)])"

definition refresh_settled ::
  "exn + auth_tokens \<Rightarrow> kept_tokens \<Rightarrow> tab \<Rightarrow> kept_tokens \<times> tab \<times> client_effect list" where
  "refresh_settled answer k t = (case answer of
     Inl _ \<Rightarrow> (store_clear, idle_tab, concat (map (resume store_clear None) (tb_waiting t)))
   | Inr toks \<Rightarrow> (let k1 = store_set toks
        in (k1, idle_tab, concat (map (resume k1 (Some (at_accessToken toks))) (tb_waiting t)))))"

datatype client_event = Request nat | Unauthorized api_request | Settled "exn + auth_tokens"
  | SignedIn auth_tokens | SignedOut

definition client_step ::
  "client_event \<Rightarrow> kept_tokens \<times> tab \<Rightarrow> (kept_tokens \<times> tab) \<times> client_effect list" where
  "client_step ev s = (case s of (k, t) \<Rightarrow> (case ev of
     Request n \<Rightarrow> ((k, t), [Submit (attach_token k \<lparr>rq_id = n, rq_retried = False, rq_bearer = None\<rparr>)])
   | Unauthorized rq \<Rightarrow> (case on_unauthorized rq k t of (t1, out) \<Rightarrow> ((k, t1), out))
   | Settled answer \<Rightarrow> (if tb_inflight t = None then ((k, t), [])
        else case refresh_settled answer k t of (k1, t1, out) \<Rightarrow> ((k1, t1), out))
   | SignedIn toks \<Rightarrow> ((store_set toks, t), [])
   | SignedOut \<Rightarrow> ((store_clear, t), [])))"

fun client_run :: "client_event list \<Rightarrow> kept_tokens \<times> tab \<Rightarrow> (kept_tokens \<times> tab) \<times> client_effect list" where
  "client_run [] s = (s, [])"
| "client_run (ev # evs) s = (case client_step ev s of
     (s1, out1) \<Rightarrow> (case client_run evs s1 of (s2, out2) \<Rightarrow> (s2, out1 @ out2)))"

section \<open>The authentication status\<close>

datatype auth_status = Loading | Authenticated | Unauthenticated

record auth_view =
  av_user :: "string option"
  av_status :: auth_status

definition on_mount :: "kept_tokens \<Rightarrow> string option \<Rightarrow> auth_view" where
  "on_mount k user = (if is_authenticated k then \<lparr>av_user = user, av_status = Authenticated\<rparr>
     else \<lparr>av_user = None, av_status = Unauthenticated\<rparr>)"

definition on_forced_logout :: "auth_view \<Rightarrow> auth_view" where
  "on_forced_logout v = \<lparr>av_user = None, av_status = Unauthenticated\<rparr>"

definition signed_in :: "auth_tokens \<Rightarrow> string \<Rightarrow> kept_tokens \<times> auth_view" where
  "signed_in toks user = (store_set toks, \<lparr>av_user = Some user, av_status = Authenticated\<rparr>)"

text \<open>
  \<open>logout\<close>: the API call, whose \<open>finally\<close> clears the tokens and passes an error on, and what the
  provider does after it; \<open>answer\<close> is how the request ends, when there is one.
\<close>

definition api_logout :: "exn + unit \<Rightarrow> kept_tokens \<Rightarrow> kept_tokens \<times> (exn + unit)" where
  "api_logout answer k = (store_clear, if truthy (kt_refresh k) then answer else Inr ())"

definition logout :: "exn + unit \<Rightarrow> kept_tokens \<times> auth_view \<Rightarrow> (kept_tokens \<times> auth_view) \<times> (exn + unit)" where
  "logout answer s = (case s of (k, v) \<Rightarrow> (case api_logout answer k of
     (k1, Inl e) \<Rightarrow> ((k1, v), Inl e)
   | (k1, Inr _) \<Rightarrow> ((k1, \<lparr>av_user = None, av_status = Unauthenticated\<rparr>), Inr ())))"

section \<open>Properties\<close>

text \<open>The refresh tokens presented, and those received, in order.\<close>

definition presented :: "client_effect list \<Rightarrow> string list" where
  "presented out = concat (map (\<lambda>e. case e of PostRefresh r \<Rightarrow> [r] | _ \<Rightarrow> []) out)"

definition received :: "client_event list \<Rightarrow> string list" where
  "received evs = concat (map (\<lambda>ev. case ev of Settled (Inr toks) \<Rightarrow> [at_refreshToken toks]
     | SignedIn toks \<Rightarrow> [at_refreshToken toks] | _ \<Rightarrow> []) evs)"

lemma presented_append [simp]: "presented (a @ b) = presented a @ presented b"
  by (simp add: presented_def)

lemma presented_resume [simp]: "presented (concat (map (resume k a) rqs)) = []"
  by (induction rqs) (auto simp: presented_def resume_def)

text \<open>
  The invariant: what is kept has been received, what was presented too, and while no refresh is in
  flight the kept token has not been presented and nobody waits.
\<close>

definition session_ok :: "string list \<Rightarrow> string list \<Rightarrow> kept_tokens \<times> tab \<Rightarrow> bool" where
  "session_ok seen posted s \<longleftrightarrow> set posted \<subseteq> set seen \<and> distinct posted
     \<and> (\<forall>r. kt_refresh (fst s) = Some r \<longrightarrow> r \<in> set seen \<and> (tb_inflight (snd s) = None \<longrightarrow> r \<notin> set posted))
     \<and> (tb_inflight (snd s) = None \<longrightarrow> tb_waiting (snd s) = [])
     \<and> list_all rq_retried (tb_waiting (snd s))"

lemma session_unauthorized:
  assumes ok: "session_ok seen posted (k, t)" and run: "on_unauthorized rq k t = (t1, out)"
  shows "session_ok seen (posted @ presented out) (k, t1)"
proof (cases "kt_refresh k")
  case None
  with run have "t1 = t" "presented out = []" by (auto simp: on_unauthorized_def presented_def)
  with ok show ?thesis by simp
next
  case (Some r)
  let ?waiting = "tb_waiting t @ [rq\<lparr>rq_retried := True\<rparr>]"
  show ?thesis
  proof (cases "rq_retried rq \<or> r = []")
    case True
    with run Some have "t1 = t" "presented out = []" by (auto simp: on_unauthorized_def presented_def)
    with ok show ?thesis by simp
  next
    case sent: False
    show ?thesis
    proof (cases "tb_inflight t")
      case None
      with run Some sent have "out = [PostRefresh r]" "t1 = t\<lparr>tb_inflight := Some r, tb_waiting := ?waiting\<rparr>"
        by (simp_all add: on_unauthorized_def refresh_access_token_def)
      with ok Some None show ?thesis by (simp add: session_ok_def presented_def)
    next
      case (Some p)
      with run \<open>kt_refresh k = Some r\<close> sent have "out = []" "t1 = t\<lparr>tb_waiting := ?waiting\<rparr>"
        by (simp_all add: on_unauthorized_def refresh_access_token_def)
      with ok Some show ?thesis by (simp add: session_ok_def presented_def)
    qed
  qed
qed

lemma session_step:
  assumes ok: "session_ok seen posted s" and run: "client_step ev s = (s1, out)"
    and fresh: "set (received [ev]) \<inter> set seen = {}"
  shows "session_ok (seen @ received [ev]) (posted @ presented out) s1"
proof -
  obtain k t where s: "s = (k, t)" by (cases s)
  have more: "session_ok (seen @ r) posted s" if "session_ok seen posted s" for r s
    using that by (auto simp: session_ok_def)
  have keep: "session_ok (seen @ [r]) posted (store_set toks, t1)"
    if "session_ok seen posted (k, t)" "r = at_refreshToken toks" "r \<notin> set seen" "t1 = t \<or> t1 = idle_tab" for r toks t1
    using that by (auto simp: session_ok_def store_set_def idle_tab_def)
  have clear: "session_ok seen posted (store_clear, t1)"
    if "session_ok seen posted (k, t)" "t1 = t \<or> t1 = idle_tab" for t1
    using that by (auto simp: session_ok_def store_clear_def idle_tab_def)
  show ?thesis
  proof (cases ev)
    case (Request n)
    with run ok show ?thesis by (auto simp: s client_step_def received_def presented_def)
  next
    case (Unauthorized rq)
    with run ok session_unauthorized show ?thesis
      by (auto simp: s client_step_def received_def split: prod.splits)
  next
    case (Settled answer)
    show ?thesis
    proof (cases "tb_inflight t = None")
      case True
      with run ok Settled more show ?thesis by (auto simp: s client_step_def presented_def)
    next
      case False
      then show ?thesis
      proof (cases answer)
        case (Inl e)
        with False run ok Settled clear show ?thesis
          by (auto simp: s client_step_def refresh_settled_def received_def)
      next
        case (Inr toks)
        with False run ok Settled keep fresh show ?thesis
          by (auto simp: s client_step_def refresh_settled_def received_def Let_def)
      qed
    qed
  next
    case (SignedIn toks)
    with run ok keep fresh show ?thesis by (auto simp: s client_step_def received_def presented_def)
  next
    case SignedOut
    with run ok clear show ?thesis by (auto simp: s client_step_def received_def presented_def)
  qed
qed

lemma received_Cons: "received (ev # evs) = received [ev] @ received evs"
  by (simp add: received_def)

lemma session_run:
  assumes "session_ok seen posted s" and "client_run evs s = (s', out)" and "distinct (received evs)"
    and "set (received evs) \<inter> set seen = {}"
  shows "session_ok (seen @ received evs) (posted @ presented out) s'"
  using assms
proof (induction evs arbitrary: seen posted s out)
  case Nil
  then show ?case by (simp add: received_def presented_def)
next
  case (Cons ev evs)
  from Cons.prems(2) obtain s1 out1 out2 where ev: "client_step ev s = (s1, out1)"
    and rest: "client_run evs s1 = (s', out2)" and out: "out = out1 @ out2" by (auto split: prod.splits)
  have d: "distinct (received [ev] @ received evs)" "set (received [ev] @ received evs) \<inter> set seen = {}"
    using Cons.prems(3,4) received_Cons [of ev evs] by simp_all
  have "session_ok (seen @ received [ev]) (posted @ presented out1) s1"
    by (rule session_step [OF Cons.prems(1) ev]) (use d(2) in auto)
  moreover have "set (received evs) \<inter> set (seen @ received [ev]) = {}" "distinct (received evs)" using d by auto
  ultimately show ?case
    using Cons.IH [of "seen @ received [ev]" "posted @ presented out1" s1 out2] rest
    unfolding received_Cons [of ev evs] out by simp
qed

text \<open>
  C8. One refresh per token. In any sequence of requests, 401s, refresh answers, sign-ins and sign-outs
  of one tab, in which the server never hands out the same refresh token twice, the tab presents no
  refresh token twice, however many requests fail at once. So the server's reuse detection never
  meets a token that the tab itself has spent. Requests wait only while a refresh is in flight, and a
  request that was sent again after one is not retried a second time.
\<close>

theorem single_flight_refresh:
  assumes "client_run evs (k, idle_tab) = ((k', t'), out)"
    and "distinct ((case kt_refresh k of None \<Rightarrow> [] | Some r \<Rightarrow> [r]) @ received evs)"
  shows "distinct (presented out) \<and> (tb_inflight t' = None \<longrightarrow> tb_waiting t' = [])
    \<and> (\<forall>rq \<in> set (tb_waiting t'). \<forall>k2 t2. on_unauthorized (attach_token k2 rq) k2 t2 = (t2, [Reject (rq_id rq)]))"
proof -
  let ?seen = "case kt_refresh k of None \<Rightarrow> [] | Some r \<Rightarrow> [r]"
  have "session_ok ?seen [] (k, idle_tab)" by (auto simp: session_ok_def idle_tab_def)
  from session_run [OF this assms(1)] assms(2) have ok: "session_ok (?seen @ received evs) (presented out) (k', t')"
    by (auto split: option.splits)
  have "on_unauthorized (attach_token k2 rq) k2 t2 = (t2, [Reject (rq_id rq)])" if "rq_retried rq" for rq k2 t2
    using that by (auto simp: on_unauthorized_def attach_token_def split: option.splits)
  with ok show ?thesis by (auto simp: session_ok_def list_all_iff)
qed

definition tokens_named :: "string \<Rightarrow> string \<Rightarrow> auth_tokens" where
  "tokens_named a r = \<lparr>at_accessToken = a, at_refreshToken = r\<rparr>"

definition request_numbered :: "nat \<Rightarrow> api_request" where
  "request_numbered n = \<lparr>rq_id = n, rq_retried = False, rq_bearer = Some ''a0''\<rparr>"

definition busy_hour :: "client_event list" where
  "busy_hour = [Unauthorized (request_numbered 1), Unauthorized (request_numbered 2), Request 3,
     Settled (Inr (tokens_named ''a1'' ''r1'')), Unauthorized (request_numbered 4)]"

text \<open>Witness for C8: two requests fail at once, share a refresh, and later a third one starts the next.\<close>

theorem single_flight_refresh_witness:
  "\<exists>k' t' out. client_run busy_hour (store_set (tokens_named ''a0'' ''r0''), idle_tab) = ((k', t'), out)
     \<and> presented out = [''r0'', ''r1''] \<and> distinct (presented out)"
proof -
  obtain k' t' out where run: "client_run busy_hour (store_set (tokens_named ''a0'' ''r0''), idle_tab) = ((k', t'), out)"
    by (metis prod.collapse)
  have "presented (snd (client_run busy_hour (store_set (tokens_named ''a0'' ''r0''), idle_tab))) = [''r0'', ''r1'']"
    "distinct ((case kt_refresh (store_set (tokens_named ''a0'' ''r0'')) of None \<Rightarrow> [] | Some r \<Rightarrow> [r]) @ received busy_hour)"
    by code_simp+
  with single_flight_refresh [OF run] run show ?thesis by auto
qed


text \<open>
  A sign-out that the server does not answer clears the tokens and leaves the page signed in: the
  provider awaits the call, which passes the error on, and never gets to its own state.
\<close>

lemma failed_logout_keeps_the_view:
  assumes "truthy (kt_refresh k)"
  shows "logout (Inl e) (k, v) = ((store_clear, v), Inl e) \<and> on_mount store_clear u = \<lparr>av_user = None, av_status = Unauthenticated\<rparr>"
  using assms by (simp add: logout_def api_logout_def on_mount_def is_authenticated_def store_clear_def)

end
