(* ===== verification/ClientSocket.thy ===== *)
theory ClientSocket
  imports ClientRoom ClientSession
begin

text \<open>
  The life of the browser's socket (lib/socket/socket-provider.tsx): the effect opens one when the visitor is
  signed in and closes it when that ends; \<open>connect\<close> and \<open>disconnect\<close> set what the rest of the page is told.
  A closed socket fires no event any more, and one that is open reconnects by itself. The handshake asks
  for the token anew each time.

  The lemmas show that there is at most one open socket, that the page is told of one only while the
  visitor is signed in, and that the room hook then holds no room of an ended session.
\<close>

section \<open>The provider\<close>

text \<open>\<open>sp_live\<close> is the socket of the effect, by a number; the other two are the state that is provided.\<close>

record socket_provider =
  sp_status :: auth_status
  sp_live :: "nat option"
  sp_next :: nat
  sp_socket :: "nat option"
  sp_connected :: bool

datatype provider_event = StatusIs auth_status | Attempt nat | FiresConnect nat | FiresDisconnect nat

datatype provider_out = OpenSocket nat | CloseSocket nat | Handshake nat "string option"

definition provider_mounted :: socket_provider where
  "provider_mounted = \<lparr>sp_status = Loading, sp_live = None, sp_next = 0, sp_socket = None, sp_connected = False\<rparr>"

definition provider_cleanup :: "socket_provider \<Rightarrow> socket_provider \<times> provider_out list" where
  "provider_cleanup p = (case sp_live p of
     None \<Rightarrow> (p, [])
   | Some n \<Rightarrow> (p\<lparr>sp_live := None, sp_socket := None, sp_connected := False\<rparr>, [CloseSocket n]))"

definition provider_setup :: "auth_status \<Rightarrow> socket_provider \<Rightarrow> socket_provider \<times> provider_out list" where
  "provider_setup status p = (if status \<noteq> Authenticated then (p\<lparr>sp_status := status\<rparr>, [])
     else (p\<lparr>sp_status := status, sp_live := Some (sp_next p), sp_next := Suc (sp_next p)\<rparr>, [OpenSocket (sp_next p)]))"

text \<open>The effect depends on the status: a render with the same one does nothing.\<close>

definition provider_status :: "auth_status \<Rightarrow> socket_provider \<Rightarrow> socket_provider \<times> provider_out list" where
  "provider_status status p = (if status = sp_status p then (p, [])
     else case provider_cleanup p of (p1, out1) \<Rightarrow> (case provider_setup status p1 of (p2, out2) \<Rightarrow> (p2, out1 @ out2)))"

text \<open>\<open>k\<close> holds the tokens at that moment; an attempt to connect presents the access token.\<close>

definition provider_step :: "kept_tokens \<Rightarrow> provider_event \<Rightarrow> socket_provider \<Rightarrow> socket_provider \<times> provider_out list" where
  "provider_step k ev p = (case ev of
     StatusIs status \<Rightarrow> provider_status status p
   | Attempt n \<Rightarrow> (p, if sp_live p = Some n then [Handshake n (kt_access k)] else [])
   | FiresConnect n \<Rightarrow> (if sp_live p = Some n then p\<lparr>sp_socket := Some n, sp_connected := True\<rparr> else p, [])
   | FiresDisconnect n \<Rightarrow> (if sp_live p = Some n then p\<lparr>sp_connected := False\<rparr> else p, []))"

fun provider_run ::
  "(kept_tokens \<times> provider_event) list \<Rightarrow> socket_provider \<Rightarrow> socket_provider \<times> provider_out list" where
  "provider_run [] p = (p, [])"
| "provider_run ((k, ev) # evs) p = (case provider_step k ev p of (p1, out1) \<Rightarrow>
     (case provider_run evs p1 of (p2, out2) \<Rightarrow> (p2, out1 @ out2)))"

section \<open>One socket, while signed in\<close>

definition provider_ok :: "socket_provider \<Rightarrow> bool" where
  "provider_ok p \<longleftrightarrow> (sp_live p \<noteq> None \<longleftrightarrow> sp_status p = Authenticated)
     \<and> (sp_socket p = None \<or> sp_socket p = sp_live p) \<and> (sp_connected p \<longrightarrow> sp_socket p \<noteq> None)"

definition opened :: "provider_out list \<Rightarrow> int" where
  "opened out = int (length (filter (\<lambda>x. case x of OpenSocket _ \<Rightarrow> True | _ \<Rightarrow> False) out))
     - int (length (filter (\<lambda>x. case x of CloseSocket _ \<Rightarrow> True | _ \<Rightarrow> False) out))"

definition live_count :: "socket_provider \<Rightarrow> int" where
  "live_count p = (if sp_live p = None then 0 else 1)"

lemma mounted_provider: "provider_ok provider_mounted" "live_count provider_mounted = 0"
  by (simp_all add: provider_ok_def provider_mounted_def live_count_def)

lemma provider_step_ok:
  "provider_step k ev p = (p', out) \<Longrightarrow> provider_ok p \<Longrightarrow> provider_ok p' \<and> live_count p' = live_count p + opened out"
  by (cases ev) (auto simp: provider_step_def provider_status_def provider_cleanup_def provider_setup_def provider_ok_def
      live_count_def opened_def split: if_splits option.splits)

lemma opened_append: "opened (a @ b) = opened a + opened b"
  by (simp add: opened_def)

lemma provider_run_ok:
  "provider_run evs p = (p', out) \<Longrightarrow> provider_ok p \<Longrightarrow> provider_ok p' \<and> live_count p' = live_count p + opened out"
proof (induction evs arbitrary: p out)
  case (Cons e evs)
  obtain k ev where e: "e = (k, ev)" by fastforce
  obtain p1 o1 o2 where r: "provider_step k ev p = (p1, o1)" "provider_run evs p1 = (p', o2)" "out = o1 @ o2"
    using Cons.prems(1) by (auto simp: e split: prod.splits)
  from provider_step_ok [OF r(1) Cons.prems(2)] Cons.IH [OF r(2)] show ?case by (simp add: r(3) opened_append)
qed (simp add: opened_def)

text \<open>What the room hook of a page is given; \<open>sid\<close> is the id of the socket of that number.\<close>

definition hook_deps :: "(nat \<Rightarrow> string) \<Rightarrow> uuid \<Rightarrow> socket_provider \<Rightarrow> room_deps" where
  "hook_deps sid groupId p = (map_option sid (sp_socket p), sp_connected p, groupId)"

text \<open>
  Whatever happened, there is at most one open socket, and none without a session: the page has no socket and
  its room hook wants no room.
\<close>

lemma no_session_no_socket:
  assumes "provider_run evs provider_mounted = (p, out)"
  shows "opened out = live_count p \<and> opened out \<le> 1
    \<and> (sp_status p \<noteq> Authenticated \<longrightarrow> sp_socket p = None \<and> opened out = 0 \<and> rooms_wanted (Some (hook_deps sid g p)) = {})"
  using provider_run_ok [OF assms mounted_provider(1)]
  by (auto simp: provider_mounted_def provider_ok_def live_count_def hook_deps_def rooms_wanted_def split: option.splits)

text \<open>Every handshake presents the access token that is kept at that moment, a reconnection too.\<close>

lemma handshake_token:
  "provider_step k ev p = (p', out) \<Longrightarrow> Handshake n tok \<in> set out \<Longrightarrow> tok = kt_access k \<and> sp_live p = Some n"
  by (auto simp: provider_step_def provider_status_def provider_cleanup_def provider_setup_def
      split: provider_event.splits if_splits option.splits)

end
