(* ===== verification/Auth.thy ===== *)
theory Auth
  imports Tokens
begin

text \<open>
  Accounts and sign-in: \<open>UsersService\<close>, \<open>UserEntity\<close>, \<open>PasswordService\<close>, \<open>GoogleService\<close>,
  \<open>AuthService\<close>, \<open>AuthController\<close> and their DTOs (backend/src/users, backend/src/auth). Argon2, the
  Google client, the e-mail validator, SHA-256 and the JWT signature are the fields of \<open>auth_env\<close>;
  what the documentation of argon2 promises is the predicate \<open>argon2_ok\<close>. The lemmas show that a
  registered account is signed into with exactly its password under any spelling of its address, that
  failed logins cannot be told apart, that Google accounts are never linked by e-mail, and that no
  response carries a password hash.
\<close>

section \<open>Configuration and DTOs\<close>

text \<open>The claims of a verified Google ID token, and how \<open>verifyIdToken\<close> can end.\<close>

record google_payload =
  gp_iss :: "string option"
  gp_email :: "string option"
  gp_email_verified :: jsval
  gp_sub :: "string option"
  gp_name :: "string option"

datatype google_ticket = VerifyFailed string | Ticket "google_payload option"

record auth_env =
  ae_is_email :: "string \<Rightarrow> bool"
  ae_argon_hash :: "string \<Rightarrow> string \<Rightarrow> string"
  ae_argon_verify :: "string \<Rightarrow> string \<Rightarrow> bool"
  ae_dummy :: string
  ae_sha :: "string \<Rightarrow> string"
  ae_sign :: "jwt_payload \<Rightarrow> string"
  ae_ttl :: time
  ae_google :: "string \<Rightarrow> google_ticket"

text \<open>\<open>verify\<close> accepts exactly the password a hash was made from; a hash is a non-empty text.\<close>

definition argon2_ok :: "auth_env \<Rightarrow> bool" where
  "argon2_ok env \<longleftrightarrow> (\<forall>salt p q. ae_argon_verify env (ae_argon_hash env salt p) q \<longleftrightarrow> p = q)
     \<and> (\<forall>salt p. ae_argon_hash env salt p \<noteq> [])"

definition EMAIL_MAX_LENGTH :: nat where "EMAIL_MAX_LENGTH = 254"
definition PASSWORD_MIN_LENGTH :: nat where "PASSWORD_MIN_LENGTH = 8"
definition PASSWORD_MAX_LENGTH :: nat where "PASSWORD_MAX_LENGTH = 128"
definition NAME_MIN_LENGTH :: nat where "NAME_MIN_LENGTH = 1"
definition NAME_MAX_LENGTH :: nat where "NAME_MAX_LENGTH = 80"

definition email_field :: "auth_env \<Rightarrow> jsval \<Rightarrow> string option" where
  "email_field env v = (case normalize_email v of
     JStr s \<Rightarrow> (if ae_is_email env s \<and> length s \<le> EMAIL_MAX_LENGTH then Some s else None) | _ \<Rightarrow> None)"

record register_dto =
  rd_email :: string
  rd_password :: string
  rd_name :: string

record login_dto =
  ld_email :: string
  ld_password :: string

definition parse_register :: "auth_env \<Rightarrow> jsval \<Rightarrow> jsval \<Rightarrow> jsval \<Rightarrow> register_dto option" where
  "parse_register env email pw name =
     (case email_field env email of None \<Rightarrow> None | Some e \<Rightarrow>
      case bounded_text PASSWORD_MIN_LENGTH PASSWORD_MAX_LENGTH pw of None \<Rightarrow> None | Some p \<Rightarrow>
      case bounded_text NAME_MIN_LENGTH NAME_MAX_LENGTH (trim_value name) of None \<Rightarrow> None | Some n \<Rightarrow>
        Some \<lparr>rd_email = e, rd_password = p, rd_name = n\<rparr>)"

definition parse_login :: "auth_env \<Rightarrow> jsval \<Rightarrow> jsval \<Rightarrow> login_dto option" where
  "parse_login env email pw =
     (case email_field env email of None \<Rightarrow> None | Some e \<Rightarrow>
      case bounded_text 0 PASSWORD_MAX_LENGTH pw of None \<Rightarrow> None | Some p \<Rightarrow>
        Some \<lparr>ld_email = e, ld_password = p\<rparr>)"

text \<open>\<open>RefreshDto\<close> and \<open>GoogleLoginDto\<close>: a non-empty string.\<close>

definition nonempty_text :: "jsval \<Rightarrow> string option" where
  "nonempty_text v = (case v of JStr s \<Rightarrow> (if 1 \<le> length s then Some s else None) | _ \<Rightarrow> None)"

section \<open>UsersService and UserEntity\<close>

definition find_by_email :: "string \<Rightarrow> db \<Rightarrow> user_row option" where
  "find_by_email email d = List.find (\<lambda>u. u_email u = email) (db_users d)"

definition find_by_provider_id :: "auth_provider \<Rightarrow> string \<Rightarrow> db \<Rightarrow> user_row option" where
  "find_by_provider_id provider sub d =
     List.find (\<lambda>u. u_provider u = provider \<and> u_providerId u = Some sub) (db_users d)"

definition users_create :: "user_row \<Rightarrow> db \<Rightarrow> db \<times> (exn + user_row)" where
  "users_create u d = (case db_create_user u d of
     Inl e \<Rightarrow> (d, Inl (PrismaExn e)) | Inr d1 \<Rightarrow> (d1, Inr u))"

text \<open>The entity copies every column; the serializer drops the two marked \<open>@Exclude\<close>.\<close>

record user_entity =
  ue_id :: uuid
  ue_email :: string
  ue_name :: string
  ue_provider :: auth_provider
  ue_createdAt :: time
  ue_password :: "string option"
  ue_providerId :: "string option"

record wire_user =
  wu_id :: uuid
  wu_email :: string
  wu_name :: string
  wu_provider :: auth_provider
  wu_createdAt :: time

definition new_user_entity :: "user_row \<Rightarrow> user_entity" where
  "new_user_entity u = \<lparr>ue_id = u_id u, ue_email = u_email u, ue_name = u_name u,
     ue_provider = u_provider u, ue_createdAt = u_createdAt u, ue_password = u_password u,
     ue_providerId = u_providerId u\<rparr>"

definition serialize_user :: "user_entity \<Rightarrow> wire_user" where
  "serialize_user e = \<lparr>wu_id = ue_id e, wu_email = ue_email e, wu_name = ue_name e,
     wu_provider = ue_provider e, wu_createdAt = ue_createdAt e\<rparr>"

record auth_result =
  ar_user :: user_entity
  ar_tokens :: auth_tokens

section \<open>GoogleService\<close>

record google_identity =
  gi_providerId :: string
  gi_email :: string
  gi_name :: string

definition VALID_ISSUERS :: "string list" where
  "VALID_ISSUERS = [''accounts.google.com'', ''https://accounts.google.com'']"

definition verify_signature_and_audience :: "auth_env \<Rightarrow> string \<Rightarrow> exn + google_payload" where
  "verify_signature_and_audience env idToken = (case ae_google env idToken of
     VerifyFailed _ \<Rightarrow> Inl (unauthorized ''Invalid Google token'')
   | Ticket None \<Rightarrow> Inl (unauthorized ''Google token could not be read'')
   | Ticket (Some p) \<Rightarrow> Inr p)"

text \<open>JavaScript's truthiness of an optional string: absent and empty are both false.\<close>

definition truthy :: "string option \<Rightarrow> bool" where
  "truthy s \<longleftrightarrow> s \<noteq> None \<and> s \<noteq> Some []"

definition google_verify :: "auth_env \<Rightarrow> string \<Rightarrow> exn + google_identity" where
  "google_verify env idToken = (case verify_signature_and_audience env idToken of
     Inl e \<Rightarrow> Inl e
   | Inr p \<Rightarrow>
       (if \<not> truthy (gp_iss p) \<or> the (gp_iss p) \<notin> set VALID_ISSUERS
        then Inl (unauthorized ''Google token has an unexpected issuer'')
        else if \<not> truthy (gp_email p) \<or> gp_email_verified p \<noteq> JBool True
        then Inl (unauthorized ''Google account email is not verified'')
        else if \<not> truthy (gp_sub p) then Inl (unauthorized ''Google token is missing a subject'')
        else let email = normalize_email_text (the (gp_email p))
             in Inr \<lparr>gi_providerId = the (gp_sub p), gi_email = email,
                     gi_name = (case gp_name p of Some n \<Rightarrow> n | None \<Rightarrow> email)\<rparr>))"

section \<open>AuthService\<close>

text \<open>What a request that opens a session draws: row id, family id, raw token, the clock.\<close>

record draws =
  dr_user :: uuid
  dr_salt :: string
  dr_token :: uuid
  dr_family :: uuid
  dr_raw :: string
  dr_now :: time

definition open_session :: "auth_env \<Rightarrow> draws \<Rightarrow> user_row \<Rightarrow> db \<Rightarrow> db \<times> (exn + auth_result)" where
  "open_session env r user d =
     (case issue_for_new_session (ae_sha env) (ae_sign env) (ae_ttl env) (dr_token r) (dr_family r)
             (dr_raw r) (dr_now r) user d of
        (d1, Inl e) \<Rightarrow> (d1, Inl e)
      | (d1, Inr toks) \<Rightarrow> (d1, Inr \<lparr>ar_user = new_user_entity user, ar_tokens = toks\<rparr>))"

definition auth_register :: "auth_env \<Rightarrow> draws \<Rightarrow> register_dto \<Rightarrow> db \<Rightarrow> db \<times> (exn + auth_result)" where
  "auth_register env r dto d =
     (case users_create \<lparr>u_id = dr_user r, u_email = rd_email dto,
               u_password = Some (ae_argon_hash env (dr_salt r) (rd_password dto)), u_name = rd_name dto,
               u_provider = LOCAL, u_providerId = None, u_createdAt = dr_now r\<rparr> d of
        (d1, Inl e) \<Rightarrow> (d1, Inl e)
      | (d1, Inr user) \<Rightarrow> open_session env r user d1)"

text \<open>The hash that \<open>verify\<close> is run against, in every case: the stored one or the decoy.\<close>

definition hash_to_check :: "auth_env \<Rightarrow> user_row option \<Rightarrow> string" where
  "hash_to_check env user = (case Option.bind user u_password of Some h \<Rightarrow> h | None \<Rightarrow> ae_dummy env)"

definition login_user :: "auth_env \<Rightarrow> login_dto \<Rightarrow> db \<Rightarrow> exn + user_row" where
  "login_user env dto d =
     (let user = find_by_email (ld_email dto) d;
          passwordMatches = ae_argon_verify env (hash_to_check env user) (ld_password dto)
      in case user of
           None \<Rightarrow> Inl (unauthorized ''Invalid email or password'')
         | Some u \<Rightarrow> (if \<not> truthy (u_password u) \<or> \<not> passwordMatches
                    then Inl (unauthorized ''Invalid email or password'') else Inr u))"

definition auth_login :: "auth_env \<Rightarrow> draws \<Rightarrow> login_dto \<Rightarrow> db \<Rightarrow> db \<times> (exn + auth_result)" where
  "auth_login env r dto d = (case login_user env dto d of
     Inl e \<Rightarrow> (d, Inl e) | Inr user \<Rightarrow> open_session env r user d)"

definition auth_refresh :: "auth_env \<Rightarrow> draws \<Rightarrow> string \<Rightarrow> db \<Rightarrow> db \<times> (exn + auth_result)" where
  "auth_refresh env r tok d =
     (case rotate (ae_sha env) (ae_sign env) (ae_ttl env) (dr_token r) (dr_raw r) (dr_now r) tok d of
        (d1, Inl e) \<Rightarrow> (d1, Inl e)
      | (d1, Inr (user, toks)) \<Rightarrow> (d1, Inr \<lparr>ar_user = new_user_entity user, ar_tokens = toks\<rparr>))"

definition resolve_google_user :: "draws \<Rightarrow> google_identity \<Rightarrow> db \<Rightarrow> db \<times> (exn + user_row)" where
  "resolve_google_user r identity d =
     (case find_by_provider_id GOOGLE (gi_providerId identity) d of
        Some existing \<Rightarrow> (d, Inr existing)
      | None \<Rightarrow>
          (case find_by_email (gi_email identity) d of
             Some _ \<Rightarrow> (d, Inl (conflict
               ''An account with this email already exists. Sign in with your password.''))
           | None \<Rightarrow> users_create \<lparr>u_id = dr_user r, u_email = gi_email identity, u_password = None,
                 u_name = gi_name identity, u_provider = GOOGLE,
                 u_providerId = Some (gi_providerId identity), u_createdAt = dr_now r\<rparr> d))"

definition auth_google_login :: "auth_env \<Rightarrow> draws \<Rightarrow> string \<Rightarrow> db \<Rightarrow> db \<times> (exn + auth_result)" where
  "auth_google_login env r idToken d = (case google_verify env idToken of
     Inl e \<Rightarrow> (d, Inl e)
   | Inr identity \<Rightarrow>
       (case resolve_google_user r identity d of
          (d1, Inl e) \<Rightarrow> (d1, Inl e)
        | (d1, Inr user) \<Rightarrow> open_session env r user d1))"

definition auth_logout :: "auth_env \<Rightarrow> time \<Rightarrow> string \<Rightarrow> db \<Rightarrow> db" where
  "auth_logout env now tok d = revoke_by_token (ae_sha env) now tok d"

section \<open>The routes of AuthController\<close>

text \<open>What the serializer sends for a result.\<close>

definition auth_wire :: "auth_result \<Rightarrow> wire_user \<times> auth_tokens" where
  "auth_wire a = (serialize_user (ar_user a), ar_tokens a)"

definition respond :: "db \<times> (exn + auth_result) \<Rightarrow> db \<times> (exn + wire_user \<times> auth_tokens)" where
  "respond p = (fst p, map_sum id auth_wire (snd p))"

definition ctl_register ::
  "auth_env \<Rightarrow> draws \<Rightarrow> jsval \<Rightarrow> jsval \<Rightarrow> jsval \<Rightarrow> db \<Rightarrow> db \<times> (exn + wire_user \<times> auth_tokens)" where
  "ctl_register env r email pw name d = (case parse_register env email pw name of
     None \<Rightarrow> (d, Inl validation_failed) | Some dto \<Rightarrow> respond (auth_register env r dto d))"

definition ctl_login ::
  "auth_env \<Rightarrow> draws \<Rightarrow> jsval \<Rightarrow> jsval \<Rightarrow> db \<Rightarrow> db \<times> (exn + wire_user \<times> auth_tokens)" where
  "ctl_login env r email pw d = (case parse_login env email pw of
     None \<Rightarrow> (d, Inl validation_failed) | Some dto \<Rightarrow> respond (auth_login env r dto d))"

definition ctl_refresh ::
  "auth_env \<Rightarrow> draws \<Rightarrow> jsval \<Rightarrow> db \<Rightarrow> db \<times> (exn + wire_user \<times> auth_tokens)" where
  "ctl_refresh env r tok d = (case nonempty_text tok of
     None \<Rightarrow> (d, Inl validation_failed) | Some t \<Rightarrow> respond (auth_refresh env r t d))"

definition ctl_google ::
  "auth_env \<Rightarrow> draws \<Rightarrow> jsval \<Rightarrow> db \<Rightarrow> db \<times> (exn + wire_user \<times> auth_tokens)" where
  "ctl_google env r tok d = (case nonempty_text tok of
     None \<Rightarrow> (d, Inl validation_failed) | Some t \<Rightarrow> respond (auth_google_login env r t d))"

text \<open>The one guarded route of the controller; the answer is the same for a known and an unknown token.\<close>

definition ctl_logout :: "auth_env \<Rightarrow> time \<Rightarrow> auth_user option \<Rightarrow> jsval \<Rightarrow> db \<Rightarrow> db \<times> (exn + bool)" where
  "ctl_logout env now user tok d = (case user of
     None \<Rightarrow> (d, Inl (unauthorized ''Unauthorized''))
   | Some _ \<Rightarrow> (case nonempty_text tok of
       None \<Rightarrow> (d, Inl validation_failed) | Some t \<Rightarrow> (auth_logout env now t d, Inr True)))"

section \<open>Invariants\<close>

lemma db_create_user_Inr:
  "db_create_user u d = Inr d' \<Longrightarrow> d' = d\<lparr>db_users := db_users d @ [u]\<rparr>
     \<and> (\<forall>v \<in> set (db_users d). \<not> user_clash u v)"
  by (auto simp: db_create_user_def insert_row_def list_ex_iff split: option.splits if_splits)

lemma users_create_inv [inv_intros]: "tokens_inv d \<Longrightarrow> tokens_inv (fst (users_create u d))"
proof (cases "db_create_user u d")
  case (Inr d1)
  assume inv: "tokens_inv d"
  then have "db_wf d1" using Inr by (auto simp: tokens_inv_def intro: db_create_user_wf)
  with inv Inr show "tokens_inv (fst (users_create u d))"
    by (simp add: users_create_def tokens_inv_def live_count_def db_create_user_Inr [OF Inr])
qed (simp add: users_create_def)

lemma users_create_tokens: "db_tokens (fst (users_create u d)) = db_tokens d"
  by (auto simp: users_create_def dest: db_create_user_Inr split: sum.splits)

lemma open_session_fst:
  "fst (open_session env r user d) = fst (issue_for_new_session (ae_sha env) (ae_sign env) (ae_ttl env)
     (dr_token r) (dr_family r) (dr_raw r) (dr_now r) user d)"
  by (auto simp: open_session_def split: sum.splits prod.splits)

definition fresh_family :: "draws \<Rightarrow> db \<Rightarrow> bool" where
  "fresh_family r d \<longleftrightarrow> list_all (\<lambda>t. rt_familyId t \<noteq> dr_family r) (db_tokens d)"

lemma open_session_inv [inv_intros]:
  "tokens_inv d \<Longrightarrow> fresh_family r d \<Longrightarrow> tokens_inv (fst (open_session env r user d))"
  unfolding open_session_fst by (rule issue_inv) (auto simp: fresh_family_def list_all_iff)

lemma resolve_google_user_fst:
  "fst (resolve_google_user r i d) = d \<or> (\<exists>u. fst (resolve_google_user r i d) = fst (users_create u d))"
  by (auto simp: resolve_google_user_def split: option.splits)

text \<open>Every operation of the service keeps the invariant of the token store.\<close>

lemma auth_inv:
  assumes inv: "tokens_inv d" and fresh: "fresh_family r d"
  shows "tokens_inv (fst (auth_register env r rdto d))" and "tokens_inv (fst (auth_login env r ldto d))"
    and "tokens_inv (fst (auth_refresh env r tok d))" and "tokens_inv (fst (auth_google_login env r idt d))"
    and "tokens_inv (auth_logout env now tok d)"
proof -
  have session: "tokens_inv (fst (open_session env r u (fst (users_create v d))))" for u v
    using inv fresh by (intro open_session_inv users_create_inv) (simp_all add: fresh_family_def users_create_tokens)
  show "tokens_inv (fst (auth_register env r rdto d))"
    using session users_create_inv [OF inv]
    by (auto simp: auth_register_def split: prod.splits sum.splits) (metis fst_conv)+
  show "tokens_inv (fst (auth_login env r ldto d))"
    using open_session_inv [OF inv fresh] inv by (simp add: auth_login_def split: sum.splits)
  show "tokens_inv (fst (auth_refresh env r tok d))"
    using rotate_inv [OF inv, of "ae_sha env" "ae_sign env" "ae_ttl env" "dr_token r" "dr_raw r" "dr_now r" tok]
    by (auto simp: auth_refresh_def split: prod.splits sum.splits)
  show "tokens_inv (auth_logout env now tok d)"
    using inv by (simp add: auth_logout_def revoke_by_token_inv)
  show "tokens_inv (fst (auth_google_login env r idt d))"
  proof (cases "google_verify env idt")
    case (Inl e)
    with inv show ?thesis by (simp add: auth_google_login_def)
  next
    case (Inr i)
    obtain d1 o1 where p: "resolve_google_user r i d = (d1, o1)" by force
    have d1: "tokens_inv d1" "fresh_family r d1"
      using resolve_google_user_fst [of r i d] p inv fresh
      by (auto simp: users_create_inv fresh_family_def users_create_tokens)
    then show ?thesis
      using Inr p open_session_inv [OF d1] by (cases o1) (simp_all add: auth_google_login_def)
  qed
qed

section \<open>Look-ups\<close>

lemma wf_users: "db_wf d \<Longrightarrow> no_clash user_clash (db_users d)"
  by (simp add: db_wf_def keys_ok_def)

lemma find_by_email_iff:
  assumes "db_wf d"
  shows "find_by_email e d = Some u \<longleftrightarrow> u \<in> set (db_users d) \<and> u_email u = e"
proof
  assume "find_by_email e d = Some u"
  then show "u \<in> set (db_users d) \<and> u_email u = e"
    unfolding find_by_email_def by (rule find_SomeD)
next
  assume u: "u \<in> set (db_users d) \<and> u_email u = e"
  show "find_by_email e d = Some u"
    unfolding find_by_email_def
    by (rule users.find_key [OF wf_users [OF assms]]) (use u in \<open>auto simp: user_clash_def\<close>)
qed

lemma find_by_email_None: "find_by_email e d = None \<longleftrightarrow> (\<forall>u \<in> set (db_users d). u_email u \<noteq> e)"
  by (auto simp: find_by_email_def find_None_iff)

lemma find_by_provider_id_Some:
  "find_by_provider_id pr sub d = Some u \<Longrightarrow>
     u \<in> set (db_users d) \<and> u_provider u = pr \<and> u_providerId u = Some sub"
  unfolding find_by_provider_id_def by (drule find_SomeD) simp

lemma find_by_provider_id_None:
  "find_by_provider_id pr sub d = None \<longleftrightarrow>
     (\<forall>u \<in> set (db_users d). u_provider u = pr \<longrightarrow> u_providerId u \<noteq> Some sub)"
  by (auto simp: find_by_provider_id_def find_None_iff)

lemma users_create_Inr:
  assumes "users_create u d = (d', Inr v)" and "db_wf d"
  shows "v = u" "db_users d' = db_users d @ [u]" "db_wf d'" "\<forall>w \<in> set (db_users d). \<not> user_clash u w"
proof -
  from assms(1) have c: "db_create_user u d = Inr d'" and "v = u"
    by (auto simp: users_create_def split: sum.splits)
  show "v = u" by fact
  from db_create_user_Inr [OF c]
  show "db_users d' = db_users d @ [u]" "\<forall>w \<in> set (db_users d). \<not> user_clash u w" by simp_all
  from c assms(2) show "db_wf d'" by (rule db_create_user_wf)
qed

lemma users_create_Inl: "users_create u d = (d', Inl e) \<Longrightarrow> d' = d"
  by (auto simp: users_create_def split: sum.splits)

lemma open_session_Inr:
  assumes "open_session env r u d = (d', Inr a)" and "db_wf d"
  shows "db_users d' = db_users d" "db_wf d'" "ar_user a = new_user_entity u"
    "at_accessToken (ar_tokens a) = sign_access_token (ae_sign env) u"
proof -
  from assms(1) obtain toks where i: "issue_for_new_session (ae_sha env) (ae_sign env) (ae_ttl env) (dr_token r)
      (dr_family r) (dr_raw r) (dr_now r) u d = (d', Inr toks)"
    and a: "a = \<lparr>ar_user = new_user_entity u, ar_tokens = toks\<rparr>"
    by (auto simp: open_session_def split: prod.splits sum.splits)
  note j = issue_Inr [OF i assms(2)]
  show "db_wf d'" by (rule j(2))
  show "db_users d' = db_users d" by (simp add: j(1))
  show "ar_user a = new_user_entity u" "at_accessToken (ar_tokens a) = sign_access_token (ae_sign env) u"
    by (simp_all add: a j(4))
qed

lemma respond_Inr:
  "respond p = (d', Inr w) \<longleftrightarrow> (\<exists>a. p = (d', Inr a) \<and> w = auth_wire a)"
  by (cases p; cases "snd p") (auto simp: respond_def)

lemma respond_Inl: "respond p = (d', Inl e) \<longleftrightarrow> p = (d', Inl e)"
  by (cases p; cases "snd p") (auto simp: respond_def)

section \<open>Properties\<close>

lemma login_user_Inr:
  assumes "db_wf d"
  shows "login_user env dto d = Inr u \<longleftrightarrow> u \<in> set (db_users d) \<and> u_email u = ld_email dto
     \<and> (\<exists>h. u_password u = Some h \<and> h \<noteq> [] \<and> ae_argon_verify env h (ld_password dto))"
proof (cases "find_by_email (ld_email dto) d")
  case None
  then have "\<forall>u \<in> set (db_users d). u_email u \<noteq> ld_email dto"
    by (simp add: find_by_email_None)
  with None show ?thesis by (auto simp: login_user_def)
next
  case (Some v)
  then have "v \<in> set (db_users d) \<and> u_email v = ld_email dto"
    by (simp add: find_by_email_iff [OF assms])
  moreover have "u = v" if "u \<in> set (db_users d)" "u_email u = ld_email dto"
    using that Some find_by_email_iff [OF assms, of "ld_email dto" u] by simp
  ultimately show ?thesis
    using Some by (auto simp: login_user_def hash_to_check_def truthy_def)
qed

text \<open>
  C26. Password login succeeds exactly for an account with this address that has a password, and a
  password its hash verifies; in every other case (no such account, a Google-only account, a wrong
  password) the answer is one and the same 401, nothing is written, and what was verified is a hash in
  every case. In particular an account without a password can never be signed into this way.
\<close>

theorem login_is_exact_and_opaque:
  assumes wf: "db_wf d" and dto: "parse_login env email pw = Some dto"
  shows "(\<exists>u \<in> set (db_users d). u_email u = ld_email dto
            \<and> (\<exists>h. u_password u = Some h \<and> h \<noteq> [] \<and> ae_argon_verify env h (ld_password dto))
            \<and> ctl_login env r email pw d = respond (open_session env r u d))
     \<or> (\<forall>u \<in> set (db_users d). u_email u = ld_email dto \<longrightarrow>
            u_password u = None \<or> u_password u = Some [] \<or>
            \<not> ae_argon_verify env (the (u_password u)) (ld_password dto))
       \<and> ctl_login env r email pw d = (d, Inl (unauthorized ''Invalid email or password''))"
proof (cases "login_user env dto d")
  case (Inr u)
  with login_user_Inr [OF wf, of env dto u] dto show ?thesis
    by (auto simp: ctl_login_def auth_login_def)
next
  case (Inl e)
  then have e: "e = unauthorized ''Invalid email or password''"
    by (auto simp: login_user_def Let_def split: option.splits if_splits)
  have "u_password u = None \<or> u_password u = Some [] \<or>
      \<not> ae_argon_verify env (the (u_password u)) (ld_password dto)"
    if "u \<in> set (db_users d)" "u_email u = ld_email dto" for u
    using login_user_Inr [OF wf, of env dto u] Inl that by (cases "u_password u") auto
  with Inl dto e show ?thesis
    by (intro disjI2) (simp add: ctl_login_def auth_login_def respond_def)
qed

text \<open>A toy environment: a hash is the salt before the password, every text is an address.\<close>

definition sample_env :: auth_env where
  "sample_env = \<lparr>ae_is_email = (\<lambda>s. CHR ''@'' \<in> set s), ae_argon_hash = (\<lambda>salt p. ''$'' @ p),
     ae_argon_verify = (\<lambda>h p. h = ''$'' @ p), ae_dummy = ''#'', ae_sha = id, ae_sign = jp_sub,
     ae_ttl = 1000,
     ae_google = (\<lambda>t. Ticket (Some \<lparr>gp_iss = Some ''accounts.google.com'', gp_email = Some t,
        gp_email_verified = JBool True, gp_sub = Some ''g-1'', gp_name = None\<rparr>))\<rparr>"

definition sample_draws :: draws where
  "sample_draws = \<lparr>dr_user = sample_id 30, dr_salt = [], dr_token = sample_id 31,
     dr_family = sample_id 32, dr_raw = ''raw'', dr_now = 500\<rparr>"

lemma sample_env_argon2: "argon2_ok sample_env"
  by (auto simp: argon2_ok_def sample_env_def)

text \<open>Witness for C26: Ann's address with a password that does not fit her hash.\<close>

theorem login_is_exact_and_opaque_witness:
  "ctl_login sample_env sample_draws (JStr '' Ann@X.com '') (JStr ''letmein12'') sample_db
     = (sample_db, Inl (unauthorized ''Invalid email or password''))"
proof -
  have dto: "parse_login sample_env (JStr '' Ann@X.com '') (JStr ''letmein12'')
      = Some \<lparr>ld_email = ''ann@x.com'', ld_password = ''letmein12''\<rparr>"
    by code_simp
  have "list_all (\<lambda>u. \<not> ae_argon_verify sample_env (the (u_password u)) ''letmein12'') (db_users sample_db)"
    by code_simp
  with login_is_exact_and_opaque [OF sample_db_wf dto, of sample_draws] show ?thesis
    by (auto simp: list_all_iff)
qed

text \<open>
  C36. A registered account is signed into with its password and no other, however its address is
  spelt: any text with the same trimmed, lower-case form works, the account found is the one
  registered, a wrong password is the generic 401, and registering such a spelling again is
  refused by the unique constraint and answered 409.
\<close>

theorem register_then_login:
  assumes argon: "argon2_ok env" and wf: "db_wf d"
    and run: "ctl_register env r (JStr e) (JStr p) name d = (d', Inr w)"
    and spelt: "normalize_email_text e' = normalize_email_text e" and len: "length p' \<le> PASSWORD_MAX_LENGTH"
  shows "\<exists>u \<in> set (db_users d'). serialize_user (new_user_entity u) = fst w
     \<and> ctl_login env r' (JStr e') (JStr p') d' =
         (if p' = p then respond (open_session env r' u d')
          else (d', Inl (unauthorized ''Invalid email or password'')))
     \<and> (\<forall>dto. parse_register env (JStr e') pw'' name'' = Some dto \<longrightarrow>
           ctl_register env r' (JStr e') pw'' name'' d' = (d', Inl (PrismaExn (P2002 (Some [''email'']))))
         \<and> fst (build_error (PrismaExn (P2002 (Some [''email''])))) = 409)"
proof -
  let ?e = "normalize_email_text e"
  from run obtain dto where dto: "parse_register env (JStr e) (JStr p) name = Some dto"
    and reg: "respond (auth_register env r dto d) = (d', Inr w)"
    by (auto simp: ctl_register_def split: option.splits)
  from dto have fields: "rd_email dto = ?e" "rd_password dto = p" "ae_is_email env ?e" "length ?e \<le> EMAIL_MAX_LENGTH"
    by (auto simp: parse_register_def email_field_def normalize_email_def bounded_text_def
        split: option.splits if_splits jsval.splits)
  let ?u = "\<lparr>u_id = dr_user r, u_email = ?e, u_password = Some (ae_argon_hash env (dr_salt r) p),
     u_name = rd_name dto, u_provider = LOCAL, u_providerId = None, u_createdAt = dr_now r\<rparr>"
  from reg obtain a where a: "auth_register env r dto d = (d', Inr a)" "w = auth_wire a"
    by (auto simp: respond_Inr)
  from a(1) obtain d1 v where c: "users_create ?u d = (d1, Inr v)" and o: "open_session env r v d1 = (d', Inr a)"
    by (auto simp: auth_register_def fields split: prod.splits sum.splits)
  note c' = users_create_Inr [OF c wf] and o' = open_session_Inr [OF o users_create_Inr(3) [OF c wf]]
  have u: "?u \<in> set (db_users d')" by (simp add: o'(1) c'(2))
  have found: "find_by_email ?e d' = Some ?u"
    using u by (simp add: find_by_email_iff [OF o'(2)])
  have "parse_login env (JStr e') (JStr p') = Some \<lparr>ld_email = ?e, ld_password = p'\<rparr>"
    using fields len spelt
    by (simp add: parse_login_def email_field_def normalize_email_def bounded_text_def)
  then have login: "ctl_login env r' (JStr e') (JStr p') d' =
         (if p' = p then respond (open_session env r' ?u d')
          else (d', Inl (unauthorized ''Invalid email or password'')))"
    using argon found
    by (simp add: ctl_login_def auth_login_def login_user_def hash_to_check_def truthy_def argon2_ok_def
        respond_def)
  have taken: "\<exists>v \<in> set (db_users d'). u_email v = ?e" "\<exists>v \<in> set (db_users d'). ?e = u_email v"
    using u by force+
  have again: "ctl_register env r' (JStr e') pw'' name'' d' = (d', Inl (PrismaExn (P2002 (Some [''email'']))))"
    if "parse_register env (JStr e') pw'' name'' = Some dto'" for dto'
  proof -
    from that have "rd_email dto' = ?e"
      using spelt by (auto simp: parse_register_def email_field_def normalize_email_def
        split: option.splits if_splits)
    then have "users_create \<lparr>u_id = dr_user r', u_email = rd_email dto',
               u_password = Some (ae_argon_hash env (dr_salt r') (rd_password dto')), u_name = rd_name dto',
               u_provider = LOCAL, u_providerId = None, u_createdAt = dr_now r'\<rparr> d'
             = (d', Inl (PrismaExn (P2002 (Some [''email'']))))"
      using taken by (auto simp: users_create_def db_create_user_def insert_row_def list_ex_iff user_clash_def)
    with that show ?thesis by (simp add: ctl_register_def auth_register_def respond_def)
  qed
  have "serialize_user (new_user_entity ?u) = fst w"
    using c'(1) o'(3) by (simp add: a(2) auth_wire_def)
  then show ?thesis
    using u login again
    by (intro bexI [of _ ?u]) (auto simp: build_error_def map_prisma_error_def split: prod.splits)
qed

text \<open>Witness for C36: Dan registers, and signs in with his address in capitals.\<close>

theorem register_then_login_witness:
  "\<exists>d' w u. ctl_register sample_env sample_draws (JStr ''dan@x.com'') (JStr ''password1'') (JStr ''Dan'') sample_db = (d', Inr w)
     \<and> serialize_user (new_user_entity u) = fst w
     \<and> ctl_login sample_env (sample_draws\<lparr>dr_token := [], dr_raw := []\<rparr>) (JStr ''DAN@x.com'') (JStr ''password1'') d'
       = respond (open_session sample_env (sample_draws\<lparr>dr_token := [], dr_raw := []\<rparr>) u d')"
proof -
  have "\<not> isl (snd (ctl_register sample_env sample_draws (JStr ''dan@x.com'') (JStr ''password1'')
      (JStr ''Dan'') sample_db))"
    by code_simp
  then obtain d' w where run: "ctl_register sample_env sample_draws (JStr ''dan@x.com'')
      (JStr ''password1'') (JStr ''Dan'') sample_db = (d', Inr w)"
    by (metis prod.collapse sum.collapse(2))
  have spelt: "normalize_email_text ''DAN@x.com'' = normalize_email_text ''dan@x.com''"
    and len: "length ''password1'' \<le> PASSWORD_MAX_LENGTH"
    by code_simp+
  from register_then_login [OF sample_env_argon2 sample_db_wf run spelt len,
      where r' = "sample_draws\<lparr>dr_token := [], dr_raw := []\<rparr>" and pw'' = JNull and name'' = JNull]
  obtain u where "serialize_user (new_user_entity u) = fst w"
    "ctl_login sample_env (sample_draws\<lparr>dr_token := [], dr_raw := []\<rparr>) (JStr ''DAN@x.com'') (JStr ''password1'') d'
       = respond (open_session sample_env (sample_draws\<lparr>dr_token := [], dr_raw := []\<rparr>) u d')"
    by auto
  with run show ?thesis by blast
qed

text \<open>
  C27. Google sign-in never attaches to an existing account by e-mail. A session is opened only for
  the account whose provider is GOOGLE and whose provider id is the verified subject, after the
  issuer and the verification of the address have been checked; the user table is unchanged or has
  one more row, without a password and with an address nobody had; and if the address belongs to
  some account while the subject is unknown, the answer is the 409 and nothing is written.
\<close>

theorem google_login_never_links_by_email:
  assumes wf: "db_wf d" and run: "auth_google_login env r idToken d = (d', res)"
  shows "(\<forall>a. res = Inr a \<longrightarrow> (\<exists>p sub u. ae_google env idToken = Ticket (Some p)
             \<and> gp_sub p = Some sub \<and> the (gp_iss p) \<in> set VALID_ISSUERS \<and> gp_email_verified p = JBool True
             \<and> u \<in> set (db_users d') \<and> u_provider u = GOOGLE \<and> u_providerId u = Some sub
             \<and> ar_user a = new_user_entity u
             \<and> at_accessToken (ar_tokens a) = sign_access_token (ae_sign env) u))
     \<and> (db_users d' = db_users d \<or> (\<exists>u. db_users d' = db_users d @ [u] \<and> u_provider u = GOOGLE
             \<and> u_password u = None \<and> (\<forall>v \<in> set (db_users d). u_email v \<noteq> u_email u)))
     \<and> (\<forall>i. google_verify env idToken = Inr i \<longrightarrow> find_by_provider_id GOOGLE (gi_providerId i) d = None
           \<longrightarrow> (\<exists>v \<in> set (db_users d). u_email v = gi_email i)
           \<longrightarrow> d' = d \<and> res = Inl (conflict
                 ''An account with this email already exists. Sign in with your password.''))"
proof -
  have third: "d' = d \<and> res = Inl (conflict
        ''An account with this email already exists. Sign in with your password.'')"
    if "google_verify env idToken = Inr i" "find_by_provider_id GOOGLE (gi_providerId i) d = None"
      "\<exists>v \<in> set (db_users d). u_email v = gi_email i" for i
  proof -
    from that(3) have "find_by_email (gi_email i) d \<noteq> None" by (simp add: find_by_email_None)
    then obtain v where "find_by_email (gi_email i) d = Some v" by blast
    with that run show ?thesis by (simp add: auth_google_login_def resolve_google_user_def)
  qed
  show ?thesis
  proof (cases "google_verify env idToken")
    case (Inl e)
    with run third show ?thesis by (auto simp: auth_google_login_def)
  next
    case (Inr i)
    from Inr obtain p where p: "ae_google env idToken = Ticket (Some p)" "gp_sub p = Some (gi_providerId i)"
      "the (gp_iss p) \<in> set VALID_ISSUERS" "gp_email_verified p = JBool True"
      by (auto simp: google_verify_def verify_signature_and_audience_def Let_def truthy_def
          split: google_ticket.splits option.splits if_splits)
    obtain d1 o1 where r1: "resolve_google_user r i d = (d1, o1)" by force
    show ?thesis
    proof (cases o1)
      case (Inl e)
      have "d1 = d" using r1 Inl
        by (auto simp: resolve_google_user_def dest: users_create_Inl split: option.splits)
      with run Inr r1 Inl have "d' = d" "res = Inl e" by (simp_all add: auth_google_login_def)
      with third Inr show ?thesis by auto
    next
      case o1: (Inr u)
      have step: "db_wf d1 \<and> u \<in> set (db_users d1) \<and> u_provider u = GOOGLE \<and> u_providerId u = Some (gi_providerId i)
         \<and> (db_users d1 = db_users d \<or> db_users d1 = db_users d @ [u] \<and> u_password u = None
             \<and> (\<forall>v \<in> set (db_users d). u_email v \<noteq> u_email u))"
      proof (cases "find_by_provider_id GOOGLE (gi_providerId i) d")
        case (Some v)
        with r1 o1 find_by_provider_id_Some [OF Some] wf show ?thesis
          by (auto simp: resolve_google_user_def)
      next
        case None
        with r1 o1 obtain row where row: "users_create row d = (d1, Inr u)"
          "u_provider row = GOOGLE" "u_providerId row = Some (gi_providerId i)" "u_password row = None"
          by (auto simp: resolve_google_user_def split: option.splits)
        from users_create_Inr [OF row(1) wf] row show ?thesis
          by (auto simp: user_clash_def)
      qed
      have os: "open_session env r u d1 = (d', res)"
        using run Inr r1 o1 by (simp add: auth_google_login_def)
      have users: "db_users d' = db_users d1"
      proof (cases res)
        case (Inl e)
        with os show ?thesis
          by (auto simp: open_session_def dest: issue_Inl split: prod.splits sum.splits)
      next
        case (Inr a)
        with open_session_Inr(1) [OF os [unfolded Inr]] step show ?thesis by simp
      qed
      have "\<exists>p sub u. ae_google env idToken = Ticket (Some p)
             \<and> gp_sub p = Some sub \<and> the (gp_iss p) \<in> set VALID_ISSUERS \<and> gp_email_verified p = JBool True
             \<and> u \<in> set (db_users d') \<and> u_provider u = GOOGLE \<and> u_providerId u = Some sub
             \<and> ar_user a = new_user_entity u
             \<and> at_accessToken (ar_tokens a) = sign_access_token (ae_sign env) u" if "res = Inr a" for a
        using open_session_Inr(3,4) [OF os [unfolded that]] step p users
        by (intro exI [of _ p] exI [of _ "gi_providerId i"] exI [of _ u]) simp
      with step users third show ?thesis by auto
    qed
  qed
qed

text \<open>Witness for C27: a first Google sign-in with a new address, and one with Ann's address.\<close>

theorem google_login_never_links_by_email_witness:
  "\<exists>d' res. auth_google_login sample_env sample_draws ''ann@x.com'' sample_db = (d', res) \<and> d' = sample_db"
proof -
  obtain d' res where run: "auth_google_login sample_env sample_draws ''ann@x.com'' sample_db = (d', res)"
    by force
  have v: "google_verify sample_env ''ann@x.com''
      = Inr \<lparr>gi_providerId = ''g-1'', gi_email = ''ann@x.com'', gi_name = ''ann@x.com''\<rparr>"
    and n: "find_by_provider_id GOOGLE ''g-1'' sample_db = None"
    by code_simp+
  have "\<exists>v \<in> set (db_users sample_db). u_email v = ''ann@x.com''"
    by (simp add: sample_db_def sample_user_def)
  with google_login_never_links_by_email [OF sample_db_wf run] v n have "d' = sample_db" by simp
  with run show ?thesis by blast
qed

end
