(* ===== verification/ClientPage.thy ===== *)
theory ClientPage
  imports ClientCache Auth
begin

text \<open>
  What a group page computes and what its controls do (frontend/src/components/messages,
  components/groups, lib/api/error.ts, lib/api-limits.ts): the text of an error, the reaction chips, the
  seen-by line, the row of a message with its editing, the composer, the member panel and the two small
  forms. Each control is a function of its local state that returns the requests it makes; markup
  is left out, what is shown of a message is a value of \<open>row_view\<close>.

  The lemmas relate the controls to the server: chips count the reactions and follow a toggle, a row asks
  for changes of own messages only, and what becomes of a text that the composer sends.
\<close>

section \<open>Limits copied from the backend\<close>

definition MESSAGE_MAX_LENGTH :: nat where "MESSAGE_MAX_LENGTH = 4000"
definition SEARCH_MAX_QUERY_LENGTH :: nat where "SEARCH_MAX_QUERY_LENGTH = 100"
definition client_MAX_UPLOAD_MB :: nat where "client_MAX_UPLOAD_MB = 5"
definition client_PASSWORD_MIN_LENGTH :: nat where "client_PASSWORD_MIN_LENGTH = 8"
definition client_PASSWORD_MAX_LENGTH :: nat where "client_PASSWORD_MAX_LENGTH = 128"
definition client_EMAIL_MAX_LENGTH :: nat where "client_EMAIL_MAX_LENGTH = 254"
definition client_GROUP_NAME_MAX_LENGTH :: nat where "client_GROUP_NAME_MAX_LENGTH = 80"

lemma limits_agree:
  "MESSAGE_MAX_LENGTH = MESSAGE_CONTENT_MAX_LENGTH" "SEARCH_MAX_QUERY_LENGTH = SEARCH_QUERY_MAX_LENGTH"
  "client_MAX_UPLOAD_MB = MAX_UPLOAD_MB" "client_PASSWORD_MIN_LENGTH = PASSWORD_MIN_LENGTH"
  "client_PASSWORD_MAX_LENGTH = PASSWORD_MAX_LENGTH" "client_EMAIL_MAX_LENGTH = EMAIL_MAX_LENGTH"
  "client_GROUP_NAME_MAX_LENGTH = GROUP_NAME_MAX_LENGTH"
  by code_simp+

section \<open>Error texts\<close>

text \<open>
  An axios error has the body of the response, if there was one, and a message of its own; a body is
  the backend's envelope or something else (a proxy's page).
\<close>

datatype client_error = AxiosError "error_response option option" string | OtherError

definition get_api_error_message :: "client_error \<Rightarrow> string \<Rightarrow> string" where
  "get_api_error_message error fallback = (case error of
     AxiosError (Some (Some envelope)) _ \<Rightarrow> er_message envelope
   | AxiosError _ msg \<Rightarrow> (if msg \<noteq> [] then msg else fallback)
   | OtherError \<Rightarrow> fallback)"

definition get_api_error_code :: "client_error \<Rightarrow> error_code option" where
  "get_api_error_code error = (case error of
     AxiosError (Some (Some envelope)) _ \<Rightarrow> Some (er_code envelope) | _ \<Rightarrow> None)"

definition failed_request :: "exn \<Rightarrow> string \<Rightarrow> client_error" where
  "failed_request e msg = AxiosError (Some (Some (snd (build_error e)))) msg"

lemma shown_error:
  "get_api_error_message (failed_request (http_error s m) msg) fallback = m"
  "get_api_error_message (failed_request (OtherExn t) msg) fallback = ''An unexpected error occurred''"
  by (simp_all add: get_api_error_message_def failed_request_def) (simp add: build_error_def)

section \<open>Reaction chips\<close>

record chip =
  ch_emoji :: string
  ch_count :: nat
  ch_mine :: bool

text \<open>One step of the loop: \<open>map.get\<close> with its default, the count, and \<open>map.set\<close>.\<close>

definition add_reaction :: "uuid option \<Rightarrow> string \<times> uuid \<Rightarrow> chip list \<Rightarrow> chip list" where
  "add_reaction userId r chips = (case r of (emoji, u) \<Rightarrow>
     (if list_ex (\<lambda>c. ch_emoji c = emoji) chips
      then map (\<lambda>c. if ch_emoji c = emoji
             then c\<lparr>ch_count := ch_count c + 1, ch_mine := (Some u = userId \<or> ch_mine c)\<rparr> else c) chips
      else chips @ [\<lparr>ch_emoji = emoji, ch_count = 1, ch_mine = (Some u = userId)\<rparr>]))"

definition aggregate :: "(string \<times> uuid) list \<Rightarrow> uuid option \<Rightarrow> chip list" where
  "aggregate reactions userId = fold (add_reaction userId) reactions []"

section \<open>Seen by\<close>

definition last_own :: "uuid option \<Rightarrow> broadcast_message list \<Rightarrow> broadcast_message option" where
  "last_own me messages = List.find (\<lambda>m. bm_senderId m \<noteq> None \<and> bm_senderId m = me) (rev messages)"

definition seen_names :: "uuid option \<Rightarrow> joined_member list \<Rightarrow> broadcast_message list \<Rightarrow> string list" where
  "seen_names me members messages = (case last_own me messages of
     None \<Rightarrow> []
   | Some lastOwn \<Rightarrow> concat (map (\<lambda>m. case jm_user m of
        None \<Rightarrow> []
      | Some (i, n, _) \<Rightarrow> (if Some i \<noteq> me \<and> (case jm_lastReadAt m of None \<Rightarrow> False | Some t \<Rightarrow> bm_createdAt lastOwn \<le> t)
                           then [n] else [])) members))"

definition seen_by :: "uuid option \<Rightarrow> joined_member list \<Rightarrow> broadcast_message list \<Rightarrow> broadcast_message \<Rightarrow> string list option"
  where
  "seen_by me members messages m = (case last_own me messages of
     None \<Rightarrow> None
   | Some lastOwn \<Rightarrow> (if bm_id m = bm_id lastOwn then Some (seen_names me members messages) else None))"

definition seen_line :: "string list option \<Rightarrow> string option" where
  "seen_line names = (case names of
     None \<Rightarrow> None
   | Some [] \<Rightarrow> None
   | Some [n] \<Rightarrow> Some (''Seen by '' @ n)
   | Some ns \<Rightarrow> Some (''Seen by '' @ dec (length ns) @ '' people''))"

text \<open>The effect that marks the group read: which newest message it runs for, and whether it does.\<close>

definition newest_id :: "broadcast_message list \<Rightarrow> uuid option" where
  "newest_id messages = (if messages = [] then None else Some (bm_id (last messages)))"

definition marks_read :: "broadcast_message list \<Rightarrow> bool \<Rightarrow> bool" where
  "marks_read messages visible \<longleftrightarrow> (case newest_id messages of None \<Rightarrow> False | Some i \<Rightarrow> i \<noteq> []) \<and> visible"

section \<open>The row of a message\<close>

text \<open>What a row shows: for a bubble, the name of the sender unless it is the user's own, whether it was
  edited, its attachment and its text.\<close>

datatype row_view = SummaryCard string | SystemNotice string | DeletedNotice
  | Bubble "string option" bool "string option" string

definition row_view_of :: "bool \<Rightarrow> broadcast_message \<Rightarrow> row_view" where
  "row_view_of isOwn m =
     (if bm_type m = AI_SUMMARY then SummaryCard (bm_content m)
      else if bm_senderId m = None then SystemNotice (bm_content m)
      else if bm_deletedAt m \<noteq> None then DeletedNotice
      else Bubble (if isOwn then None else Some (case bm_sender m of None \<Rightarrow> ''Someone'' | Some (_, n) \<Rightarrow> n))
             (bm_editedAt m \<noteq> None) (bm_attachmentUrl m) (bm_content m))"

datatype overlay = Palette | Confirm

record row_state =
  rs_editing :: bool
  rs_draft :: string
  rs_overlay :: "overlay option"

definition row_mounted :: "broadcast_message \<Rightarrow> row_state" where
  "row_mounted m = \<lparr>rs_editing = False, rs_draft = bm_content m, rs_overlay = None\<rparr>"

datatype row_request = EditRequest uuid string | DeleteRequest uuid | ReactRequest uuid string

definition row_save :: "broadcast_message \<Rightarrow> row_state \<Rightarrow> row_state \<times> row_request list" where
  "row_save m st = (let trimmed = js_trim (rs_draft st)
     in (st\<lparr>rs_editing := False\<rparr>,
         if trimmed \<noteq> [] \<and> trimmed \<noteq> bm_content m then [EditRequest (bm_id m) trimmed] else []))"

definition start_edit :: "broadcast_message \<Rightarrow> row_state \<Rightarrow> row_state" where
  "start_edit m st = st\<lparr>rs_draft := bm_content m, rs_editing := True\<rparr>"

text \<open>
  The controls. A control that is not on the page for the row's present view and state does nothing:
  only a bubble has any, the toolbar gives way to the editor, and the pencil and the bin are on own
  messages only.
\<close>

datatype row_input = TypeDraft string | SaveKey | EscapeKey | CancelEdit | PressReact | PressEdit | PressDelete
  | PickEmoji string | ConfirmDelete | CancelDelete | MouseLeave | PressChip string

definition actions_step ::
  "bool \<Rightarrow> broadcast_message \<Rightarrow> row_input \<Rightarrow> row_state \<Rightarrow> row_state \<times> row_request list" where
  "actions_step isOwn m i st = (case i of
     PressReact \<Rightarrow> (st\<lparr>rs_overlay := (if rs_overlay st = Some Palette then None else Some Palette)\<rparr>, [])
   | PressEdit \<Rightarrow> (if isOwn then start_edit m (st\<lparr>rs_overlay := None\<rparr>) else st, [])
   | PressDelete \<Rightarrow> (if isOwn then st\<lparr>rs_overlay := Some Confirm\<rparr> else st, [])
   | PickEmoji e \<Rightarrow> (if rs_overlay st = Some Palette
        then (st\<lparr>rs_overlay := None\<rparr>, [ReactRequest (bm_id m) e]) else (st, []))
   | ConfirmDelete \<Rightarrow> (if rs_overlay st = Some Confirm
        then (st\<lparr>rs_overlay := None\<rparr>, [DeleteRequest (bm_id m)]) else (st, []))
   | CancelDelete \<Rightarrow> (if rs_overlay st = Some Confirm then st\<lparr>rs_overlay := None\<rparr> else st, [])
   | _ \<Rightarrow> (st, []))"

definition row_step ::
  "bool \<Rightarrow> broadcast_message \<Rightarrow> row_input \<Rightarrow> row_state \<Rightarrow> row_state \<times> row_request list" where
  "row_step isOwn m i st = (case row_view_of isOwn m of
     Bubble _ _ _ _ \<Rightarrow> (case i of
         MouseLeave \<Rightarrow> (st\<lparr>rs_overlay := None\<rparr>, [])
       | PressChip e \<Rightarrow> (st, if list_ex (\<lambda>r. fst r = e) (bm_reactions m) then [ReactRequest (bm_id m) e] else [])
       | TypeDraft t \<Rightarrow> (if rs_editing st then st\<lparr>rs_draft := t\<rparr> else st, [])
       | SaveKey \<Rightarrow> (if rs_editing st then row_save m st else (st, []))
       | EscapeKey \<Rightarrow> (if rs_editing st then st\<lparr>rs_editing := False\<rparr> else st, [])
       | CancelEdit \<Rightarrow> (if rs_editing st then st\<lparr>rs_draft := bm_content m, rs_editing := False\<rparr> else st, [])
       | _ \<Rightarrow> (if rs_editing st then (st, []) else actions_step isOwn m i st))
   | _ \<Rightarrow> (st, []))"

text \<open>A row lives through a sequence of inputs, with the message as it is at each of them.\<close>

fun row_run ::
  "bool \<Rightarrow> (broadcast_message \<times> row_input) list \<Rightarrow> row_state \<Rightarrow> (broadcast_message \<times> row_request) list" where
  "row_run isOwn [] st = []"
| "row_run isOwn ((m, i) # evs) st = (case row_step isOwn m i st of
     (st1, out) \<Rightarrow> map (Pair m) out @ row_run isOwn evs st1)"

section \<open>The composer\<close>

record composer =
  cp_content :: string
  cp_error :: "string option"
  cp_sending :: bool
  cp_uploading :: bool

definition empty_composer :: composer where
  "empty_composer = \<lparr>cp_content = [], cp_error = None, cp_sending = False, cp_uploading = False\<rparr>"

datatype composer_out = EmitSend uuid string | PostUpload uuid string | NotifyTyping | StopTyping

definition on_change :: "string \<Rightarrow> composer \<Rightarrow> composer \<times> composer_out list" where
  "on_change t c = (c\<lparr>cp_content := t\<rparr>, [NotifyTyping])"

definition submit :: "uuid \<Rightarrow> bool \<Rightarrow> composer \<Rightarrow> composer \<times> composer_out list" where
  "submit groupId online c = (let trimmed = js_trim (cp_content c)
     in if trimmed = [] \<or> \<not> online \<or> cp_sending c then (c, [])
        else (c\<lparr>cp_sending := True, cp_error := None\<rparr>, [EmitSend groupId trimmed]))"

text \<open>The acknowledgement callback: an error when none came in five seconds, else what the gateway returned.\<close>

datatype send_ack = AckOk | AckRefused "string option"

definition on_ack :: "send_ack option \<Rightarrow> composer \<Rightarrow> composer \<times> composer_out list" where
  "on_ack answer c = (let c1 = c\<lparr>cp_sending := False\<rparr> in case answer of
     None \<Rightarrow> (c1\<lparr>cp_error := Some ''Couldn't reach the server''\<rparr>, [])
   | Some (AckRefused err) \<Rightarrow>
       (c1\<lparr>cp_error := Some (case err of None \<Rightarrow> ''Couldn't send message'' | Some t \<Rightarrow> t)\<rparr>, [])
   | Some AckOk \<Rightarrow> (c1\<lparr>cp_content := []\<rparr>, [StopTyping]))"

definition on_pick_file :: "uuid \<Rightarrow> bool \<Rightarrow> composer \<Rightarrow> composer \<times> composer_out list" where
  "on_pick_file groupId file_picked c = (if \<not> file_picked \<or> cp_uploading c then (c, [])
     else (c\<lparr>cp_uploading := True, cp_error := None\<rparr>, [PostUpload groupId (js_trim (cp_content c))]))"

definition on_uploaded :: "client_error option \<Rightarrow> composer \<Rightarrow> composer \<times> composer_out list" where
  "on_uploaded failure c = (case failure of
     None \<Rightarrow> (c\<lparr>cp_content := [], cp_uploading := False\<rparr>, [StopTyping])
   | Some err \<Rightarrow> (c\<lparr>cp_error := Some (get_api_error_message err ''Couldn't upload file''), cp_uploading := False\<rparr>, []))"

section \<open>The member panel, the forms and the search box\<close>

definition i_am_owner :: "uuid \<Rightarrow> joined_member list \<Rightarrow> bool" where
  "i_am_owner me members \<longleftrightarrow>
     (case List.find (\<lambda>m. jm_userId m = Some me) members of None \<Rightarrow> False | Some m \<Rightarrow> jm_role m = OWNER)"

definition offers_transfer :: "uuid \<Rightarrow> joined_member list \<Rightarrow> joined_member \<Rightarrow> bool" where
  "offers_transfer me members m \<longleftrightarrow> i_am_owner me members \<and> jm_userId m \<noteq> Some me"

definition leave_prompt :: "joined_member list \<Rightarrow> string" where
  "leave_prompt members = (if length members = 1
     then ''You are the only member - the group and its messages will be deleted.'' else ''Leave this group?'')"

text \<open>\<open>useLeaveGroup\<close> on success: the detail is removed, the list is stale; the other mutations only do the latter.\<close>

definition on_left :: "uuid \<Rightarrow> client_cache \<Rightarrow> client_cache" where
  "on_left g c = c\<lparr>cc_detail := (cc_detail c)(g := None), cc_groupsStale := True\<rparr>"

definition on_list_changed :: "client_cache \<Rightarrow> client_cache" where
  "on_list_changed c = c\<lparr>cc_groupsStale := True\<rparr>"

text \<open>The create and the join form: the text that is submitted, if any.\<close>

definition form_submit :: "string \<Rightarrow> string option" where
  "form_submit t = (let trimmed = js_trim t in if trimmed = [] then None else Some trimmed)"

definition SEARCH_MIN_QUERY_LENGTH :: nat where "SEARCH_MIN_QUERY_LENGTH = 2"

text \<open>The query of a settled input, when the drop-down is open.\<close>

definition search_query :: "string \<Rightarrow> string option" where
  "search_query q = (let debounced = js_trim q
     in if SEARCH_MIN_QUERY_LENGTH \<le> length debounced then Some debounced else None)"

section \<open>Chips count the reactions\<close>

definition chip_of :: "uuid option \<Rightarrow> (string \<times> uuid) list \<Rightarrow> string \<Rightarrow> chip" where
  "chip_of me rs e = \<lparr>ch_emoji = e, ch_count = length (filter (\<lambda>r. fst r = e) rs),
     ch_mine = list_ex (\<lambda>r. fst r = e \<and> Some (snd r) = me) rs\<rparr>"

lemma js_unique_snoc: "js_unique (xs @ [x]) = (if x \<in> set xs then js_unique xs else js_unique xs @ [x])"
  by (simp add: js_unique_def)

lemma set_js_unique: "set (js_unique xs) = set xs" "distinct (js_unique xs)"
  by (simp_all add: js_unique_def)

text \<open>The loop with its map is the reference: one chip per emoji, in the order of first use.\<close>

lemma aggregate_chips: "aggregate rs me = map (chip_of me rs) (js_unique (map fst rs))"
proof (induction rs rule: rev_induct)
  case Nil
  show ?case by (simp add: aggregate_def js_unique_def)
next
  case (snoc r rs)
  obtain e u where r: "r = (e, u)" by fastforce
  let ?f = "\<lambda>c. if ch_emoji c = e then c\<lparr>ch_count := ch_count c + 1, ch_mine := (Some u = me \<or> ch_mine c)\<rparr> else c"
  have step: "aggregate (rs @ [r]) me = add_reaction me r (aggregate rs me)" by (simp add: aggregate_def)
  have other: "chip_of me (rs @ [r]) x = chip_of me rs x" if "x \<noteq> e" for x
    using that by (auto simp: chip_of_def r)
  have same: "chip_of me (rs @ [r]) e = ?f (chip_of me rs e)"
    by (auto simp: chip_of_def r)
  have upd: "chip_of me (rs @ [r]) x = ?f (chip_of me rs x)" for x
    using other [of x] same by (cases "x = e") (simp_all add: chip_of_def)
  have seen: "list_ex (\<lambda>c. ch_emoji c = e) (aggregate rs me) \<longleftrightarrow> e \<in> set (map fst rs)"
    unfolding snoc.IH by (auto simp: list_ex_iff chip_of_def set_js_unique)
  show ?case
  proof (cases "e \<in> set (map fst rs)")
    case True
    then have "aggregate (rs @ [r]) me = map ?f (aggregate rs me)"
      unfolding step using seen by (simp add: add_reaction_def r)
    also have "\<dots> = map (chip_of me (rs @ [r])) (js_unique (map fst rs))"
      unfolding snoc.IH map_map comp_def upd ..
    finally show ?thesis using True by (simp only: r map_append list.map fst_conv js_unique_snoc if_True)
  next
    case False
    then have "filter (\<lambda>r. fst r = e) rs = []" "\<not> list_ex (\<lambda>r. fst r = e \<and> Some (snd r) = me) rs"
      by (force simp: filter_empty_conv list_ex_iff)+
    then have new: "chip_of me rs e = \<lparr>ch_emoji = e, ch_count = 0, ch_mine = False\<rparr>"
      by (simp add: chip_of_def)
    have "aggregate (rs @ [r]) me = aggregate rs me @ [\<lparr>ch_emoji = e, ch_count = 1, ch_mine = (Some u = me)\<rparr>]"
      unfolding step using seen False by (simp add: add_reaction_def r)
    also have "\<dots> = map (chip_of me (rs @ [r])) (js_unique (map fst rs)) @ [chip_of me (rs @ [r]) e]"
      unfolding same new using False other by (simp add: snoc.IH) (metis list.set_map set_js_unique(1))
    finally show ?thesis using False by (simp only: r map_append list.map fst_conv js_unique_snoc if_False)
  qed
qed

lemma toggled_reactions:
  assumes wf: "db_wf d" and run: "toggle rid now g m u e d = (d1, evs, Inr rs)"
    and fresh: "\<forall>r \<in> set (db_reactions d). rx_id r \<noteq> rid"
  shows "rs = (if (e, u) \<in> set (reactions_of d (as_uuid m))
    then filter (\<lambda>x. x \<noteq> (e, u)) (reactions_of d (as_uuid m)) else reactions_of d (as_uuid m) @ [(e, u)])"
proof -
  let ?P = "\<lambda>r. rx_messageId r = as_uuid m \<and> rx_userId r = u \<and> rx_emoji r = e"
  let ?r = "\<lparr>rx_id = rid, rx_messageId = as_uuid m, rx_userId = u, rx_emoji = e, rx_createdAt = now\<rparr>"
  have there: "(e, u) \<in> set (reactions_of d (as_uuid m)) \<longleftrightarrow> count_where ?P (db_reactions d) \<noteq> 0"
    by (force simp: reactions_of_def)
  show ?thesis
  proof (cases "count_where ?P (db_reactions d) = 0")
    case True
    then have "delete_where ?P (db_reactions d) = db_reactions d"
      by (auto simp: delete_where_def filter_id_conv)
    then have none: "toggle_remove m u e d = (0, d)" using True by (simp add: toggle_remove_def db_delete_reactions_def)
    have "\<not> list_ex (reaction_clash ?r) (db_reactions d)"
      using True fresh by (auto simp: list_ex_iff reaction_clash_def)
    then have "rs = reactions_of (d\<lparr>db_reactions := db_reactions d @ [?r]\<rparr>) (as_uuid m)"
      using run by (auto simp: toggle_def none toggle_add_def db_create_reaction_def insert_row_def toggle_finish_def
          Let_def split: if_splits sum.splits)
    then show ?thesis using True by (simp only: there) (simp add: reactions_of_def)
  next
    case False
    then have "rs = reactions_of (d\<lparr>db_reactions := delete_where ?P (db_reactions d)\<rparr>) (as_uuid m)"
      using run by (auto simp: toggle_def toggle_remove_def db_delete_reactions_def toggle_finish_def
          Let_def split: if_splits prod.splits)
    also have "\<dots> = filter (\<lambda>x. x \<noteq> (e, u)) (reactions_of d (as_uuid m))"
      by (auto simp: reactions_of_def delete_where_def filter_map comp_def intro!: arg_cong [where f = "map _"] filter_cong)
    finally show ?thesis using False by (simp only: there) simp
  qed
qed

lemma reactions_distinct:
  assumes "db_wf d"
  shows "distinct (reactions_of d mid)"
proof -
  have "no_clash reaction_clash (db_reactions d)" using assms by (simp add: db_wf_def keys_ok_def)
  then have "distinct (map (\<lambda>r. (rx_emoji r, rx_userId r)) (filter (\<lambda>r. rx_messageId r = mid) rs))"
    if "rs = db_reactions d" for rs
    unfolding that [symmetric] no_clash_def
    by (induction rs) (auto simp: reaction_clash_def)
  then show ?thesis by (simp add: reactions_of_def)
qed

text \<open>
  C25. The chips follow a toggle. After the user's toggle of an emoji, the row shows one chip per emoji
  of the message's new reactions, in the order of first use, with the number of users behind it; the
  toggled chip has changed sides, its count by exactly one, and every other chip is as it was.
\<close>

theorem chips_follow_a_toggle:
  assumes "db_wf d" and "toggle rid now g m u e d = (d1, evs, Inr rs)"
    and "\<forall>r \<in> set (db_reactions d). rx_id r \<noteq> rid" and "old = reactions_of d (as_uuid m)"
  shows "aggregate rs (Some u) = map (chip_of (Some u) rs) (js_unique (map fst rs))
    \<and> (if ch_mine (chip_of (Some u) old e)
       then \<not> ch_mine (chip_of (Some u) rs e) \<and> ch_count (chip_of (Some u) old e) = ch_count (chip_of (Some u) rs e) + 1
       else ch_mine (chip_of (Some u) rs e) \<and> ch_count (chip_of (Some u) rs e) = ch_count (chip_of (Some u) old e) + 1)
    \<and> (\<forall>e'. e' \<noteq> e \<longrightarrow> chip_of (Some u) rs e' = chip_of (Some u) old e')"
proof -
  have rs: "rs = (if (e, u) \<in> set old then filter (\<lambda>x. x \<noteq> (e, u)) old else old @ [(e, u)])"
    using toggled_reactions [OF assms(1-3)] by (simp add: assms(4))
  have one: "distinct xs \<Longrightarrow> (e, u) \<in> set xs \<Longrightarrow>
      length (filter (\<lambda>r. fst r = e) xs) = Suc (length (filter (\<lambda>r. fst r = e) (filter (\<lambda>x. x \<noteq> (e, u)) xs)))" for xs
  proof (induction xs)
    case (Cons x xs)
    show ?case
    proof (cases "x = (e, u)")
      case True
      with Cons.prems have "filter (\<lambda>x. x \<noteq> (e, u)) xs = xs" by (auto simp: filter_id_conv)
      with True show ?thesis by simp
    qed (use Cons in auto)
  qed simp
  have mine: "ch_mine (chip_of (Some u) xs e) \<longleftrightarrow> (e, u) \<in> set xs" for xs
    by (force simp: chip_of_def list_ex_iff)
  have count: "ch_count (chip_of (Some u) xs e) = length (filter (\<lambda>r. fst r = e) xs)" for xs
    by (simp add: chip_of_def)
  have other: "chip_of (Some u) rs e' = chip_of (Some u) old e'" if "e' \<noteq> e" for e'
  proof -
    have "filter (\<lambda>r. fst r = e') rs = filter (\<lambda>r. fst r = e') old"
      unfolding rs using that by (auto intro: filter_cong)
    moreover have "(e', w) \<in> set rs \<longleftrightarrow> (e', w) \<in> set old" for w using that by (simp add: rs)
    ultimately show ?thesis by (auto simp: chip_of_def list_ex_iff)
  qed
  have "distinct old" using reactions_distinct assms(1,4) by simp
  then show ?thesis unfolding aggregate_chips mine count
    using other one [of old] by (auto simp: rs simp del: filter_filter)
qed

text \<open>Witness for C25: Ann joins Bob's reaction on the first sample message.\<close>

theorem chips_follow_a_toggle_witness:
  "\<exists>d1 evs rs. toggle (sample_id 12) 500 (sample_id 4) (sample_id 8) (sample_id 1) ''+'' sample_db = (d1, evs, Inr rs)
     \<and> ch_mine (chip_of (Some (sample_id 1)) rs ''+'')
     \<and> aggregate rs (Some (sample_id 1)) = [\<lparr>ch_emoji = ''+'', ch_count = 2, ch_mine = True\<rparr>]"
proof -
  have run: "\<not> isl (snd (snd (toggle (sample_id 12) 500 (sample_id 4) (sample_id 8) (sample_id 1) ''+'' sample_db)))"
    "aggregate (projr (snd (snd (toggle (sample_id 12) 500 (sample_id 4) (sample_id 8) (sample_id 1) ''+'' sample_db))))
       (Some (sample_id 1)) = [\<lparr>ch_emoji = ''+'', ch_count = 2, ch_mine = True\<rparr>]"
    "list_all (\<lambda>r. rx_id r \<noteq> sample_id 12) (db_reactions sample_db)"
    "\<not> ch_mine (chip_of (Some (sample_id 1)) (reactions_of sample_db (as_uuid (sample_id 8))) ''+'')"
    by code_simp+
  obtain d1 evs rs where t: "toggle (sample_id 12) 500 (sample_id 4) (sample_id 8) (sample_id 1) ''+'' sample_db = (d1, evs, Inr rs)"
    using run(1) by (metis prod.collapse sum.collapse(2))
  have fresh: "\<forall>r \<in> set (db_reactions sample_db). rx_id r \<noteq> sample_id 12" using run(3) by (simp add: list_all_iff)
  from chips_follow_a_toggle [OF sample_db_wf t fresh refl] run(2,4) t show ?thesis by auto
qed

section \<open>Rows ask for changes of own messages\<close>

definition row_ok :: "bool \<Rightarrow> row_state \<Rightarrow> bool" where
  "row_ok isOwn st \<longleftrightarrow> isOwn \<or> \<not> rs_editing st \<and> rs_overlay st \<noteq> Some Confirm"

definition request_ok :: "bool \<Rightarrow> broadcast_message \<Rightarrow> row_request \<Rightarrow> bool" where
  "request_ok isOwn m r \<longleftrightarrow> bm_type m \<noteq> AI_SUMMARY \<and> bm_senderId m \<noteq> None \<and> bm_deletedAt m = None
     \<and> (case r of
          EditRequest i t \<Rightarrow> isOwn \<and> i = bm_id m \<and> trimmed t \<and> t \<noteq> [] \<and> t \<noteq> bm_content m
        | DeleteRequest i \<Rightarrow> isOwn \<and> i = bm_id m
        | ReactRequest i e \<Rightarrow> i = bm_id m)"

lemma row_step_ok:
  assumes "row_ok isOwn st" and "row_step isOwn m i st = (st', out)"
  shows "row_ok isOwn st' \<and> list_all (request_ok isOwn m) out"
  using assms
  by (cases i) (auto simp: row_step_def actions_step_def row_view_of_def row_ok_def request_ok_def row_save_def start_edit_def Let_def
      trimmed_js_trim split: if_splits)

lemma row_run_ok: "row_ok isOwn st \<Longrightarrow> (m, r) \<in> set (row_run isOwn evs st) \<Longrightarrow> request_ok isOwn m r"
proof (induction evs arbitrary: st)
  case (Cons e evs)
  obtain m' i where e: "e = (m', i)" by fastforce
  obtain st1 out where s: "row_step isOwn m' i st = (st1, out)" by fastforce
  from row_step_ok [OF Cons.prems(1) s] Cons.IH [of st1] Cons.prems(2) show ?case
    by (auto simp: e s list_all_iff)
qed simp



section \<open>What becomes of a text that is sent\<close>

definition ack_of :: "ack \<Rightarrow> send_ack option" where
  "ack_of a = (case a of
     AckMessage _ \<Rightarrow> Some AckOk | Ack \<Rightarrow> Some AckOk | AckError t \<Rightarrow> Some (AckRefused (Some t)) | AckThrown _ \<Rightarrow> None)"

lemma assert_member_cases:
  "(\<exists>x. assert_member u g d = Inr x) \<and> is_member d u g \<and> uuid_re g
     \<or> assert_member u g d = Inl (forbidden NOT_A_MEMBER_MESSAGE) \<and> \<not> (is_member d u g \<and> uuid_re g)"
  using db_rule.check_iff [of u g d] db_rule.check_denied [of d u g] by blast

text \<open>
  C20. What becomes of a text that is sent. A text of at most 4,000 characters that is not blank, submitted
  while connected, goes to the gateway trimmed, once until its answer comes. If the sender is a member, the
  gateway stores a message with that text and the composer is cleared, of whatever was typed into it
  since then as well. If not, nothing is stored, the composer says that the group is for members and keeps
  its text. No other refusal of the gateway reaches a user of the composer.
\<close>

theorem composer_text_is_sent_once:
  assumes wf: "db_wf d" and len: "length (cp_content c) \<le> MESSAGE_MAX_LENGTH" and said: "js_trim (cp_content c) \<noteq> []"
    and idle: "\<not> cp_sending c" and sub: "submit g True c = (c1, out)"
    and sent: "send_message mid now s (Some g) (Some (js_trim (cp_content c))) d = (d', evs, a)"
    and alive: "\<forall>e. a \<noteq> AckThrown e"
    and typed: "c2 = fold (\<lambda>t c. fst (on_change t c)) ts c1" and acked: "on_ack (ack_of a) c2 = (c3, out')"
  shows "out = [EmitSend g (js_trim (cp_content c))] \<and> submit g True c2 = (c2, []) \<and> \<not> cp_sending c3
    \<and> (if is_member d (sk_user s) g \<and> uuid_re g
       then (\<exists>bm. a = AckMessage bm \<and> evs = [MESSAGE_CREATED bm] \<and> bm_content bm = js_trim (cp_content c))
            \<and> cp_content c3 = [] \<and> cp_error c3 = None
       else d' = d \<and> evs = [] \<and> cp_content c3 = (if ts = [] then cp_content c else last ts)
            \<and> cp_error c3 = Some NOT_A_MEMBER_MESSAGE)"
proof -
  let ?t = "js_trim (cp_content c)"
  have c1: "c1 = c\<lparr>cp_sending := True, cp_error := None\<rparr>" and out: "out = [EmitSend g ?t]"
    using sub said idle by (auto simp: submit_def Let_def)
  have "fold (\<lambda>t c. fst (on_change t c)) ts x = (if ts = [] then x else x\<lparr>cp_content := last ts\<rparr>)" for x
    by (induction ts arbitrary: x) (auto simp: on_change_def)
  then have c2: "c2 = (if ts = [] then c1 else c1\<lparr>cp_content := last ts\<rparr>)" using typed by simp
  then have busy: "cp_sending c2" "cp_error c2 = None" by (simp_all add: c1)
  have fits: "\<not> (js_trim ?t = [] \<or> MESSAGE_CONTENT_MAX_LENGTH < length (js_trim ?t))"
    using said len length_js_trim [of "cp_content c"] by (simp add: js_trim_idem limits_agree)
  consider (yes) x where "assert_member (sk_user s) g d = Inr x" "is_member d (sk_user s) g \<and> uuid_re g"
    | (no) "assert_member (sk_user s) g d = Inl (forbidden NOT_A_MEMBER_MESSAGE)" "\<not> (is_member d (sk_user s) g \<and> uuid_re g)"
    using assert_member_cases by blast
  then show ?thesis
  proof cases
    case yes
    with sent fits alive obtain bm where bm: "a = AckMessage bm"
      and run: "messages_create mid now g (sk_user s) (js_trim ?t) d = (d', evs, Inr bm)"
      by (auto simp: send_message_def Let_def split: prod.splits sum.splits)
    note p = persist_and_emit_Inr [OF run [unfolded messages_create_def] wf]
    have "bm_content bm = ?t" by (simp add: p(3) message_select_def new_message_row_def js_trim_idem)
    with yes(2) bm p(2) acked busy out show ?thesis
      by (auto simp: on_ack_def ack_of_def Let_def submit_def)
  next
    case no
    with sent fits have "a = AckError NOT_A_MEMBER_MESSAGE" "d' = d" "evs = []"
      by (auto simp: send_message_def Let_def ws_error_def is_forbidden_def http_error_def)
    with no(2) acked busy out c1 c2 show ?thesis
      by (auto simp: on_ack_def ack_of_def Let_def submit_def)
  qed
qed

text \<open>Witness for C20: Cy, a member, sends a text and types on; what was typed on is cleared with it.\<close>

definition cy_socket :: socket where
  "cy_socket = \<lparr>sk_id = ''s3'', sk_user = sample_id 3, sk_email = ''cy@x.com'', sk_rooms = []\<rparr>"

theorem composer_text_is_sent_once_witness:
  "\<exists>d' evs bm c3 out'. send_message (sample_id 12) 500 cy_socket (Some (sample_id 4)) (Some ''hi'') sample_db
       = (d', evs, AckMessage bm)
     \<and> on_ack (ack_of (AckMessage bm)) (fst (on_change ''and more''
          (fst (submit (sample_id 4) True (empty_composer\<lparr>cp_content := ''hi ''\<rparr>))))) = (c3, out')
     \<and> bm_content bm = ''hi'' \<and> cp_content c3 = []"
proof -
  let ?c = "empty_composer\<lparr>cp_content := ''hi ''\<rparr>"
  let ?run = "send_message (sample_id 12) 500 cy_socket (Some (sample_id 4)) (Some ''hi'') sample_db"
  have e: "case snd (snd ?run) of AckMessage _ \<Rightarrow> True | _ \<Rightarrow> False" "is_member sample_db (sk_user cy_socket) (sample_id 4)"
    "js_trim (cp_content ?c) = ''hi''" "uuid_re (sample_id 4)" "\<not> cp_sending ?c"
    by code_simp+
  obtain d' evs a where run: "?run = (d', evs, a)" by (metis prod.collapse)
  with e(1) obtain bm where bm: "a = AckMessage bm" by (cases a) auto
  obtain c1 out where sub: "submit (sample_id 4) True ?c = (c1, out)" by fastforce
  obtain c3 out' where acked: "on_ack (ack_of a) (fst (on_change ''and more'' c1)) = (c3, out')" by fastforce
  have "send_message (sample_id 12) 500 cy_socket (Some (sample_id 4)) (Some (js_trim (cp_content ?c))) sample_db = (d', evs, a)"
    unfolding e(3) by (rule run)
  from composer_text_is_sent_once [OF sample_db_wf _ _ e(5) sub this _ _ acked, of "[''and more'']"] e bm
  have "bm_content bm = ''hi'' \<and> cp_content c3 = []"
    by (auto simp: empty_composer_def MESSAGE_MAX_LENGTH_def)
  with run acked sub bm show ?thesis by auto
qed

end
