(* ===== verification/ClientDelivery.thy ===== *)
theory ClientDelivery
  imports ClientRuns ClientPage
begin

text \<open>
  From one browser to another: a text typed into the composer of a page (components/messages/message-composer.tsx),
  through the gateway and the store, to the message list of every page whose socket is in the room of the
  group (socket-provider.tsx, queries/messages.ts).
\<close>

section \<open>The server's messages by id\<close>

lemma server_messages_ids:
  assumes "db_wf d"
  shows "distinct (map bm_id (server_messages older g d))"
proof -
  let ?rows = "filter (\<lambda>m. ms_groupId m = g \<and> message_key m \<notin> older) (db_messages d)"
  have "distinct ?rows" using messages.distinct_rows [OF wf_messages [OF assms]] by simp
  moreover have "inj_on ms_id (set ?rows)" using same_message_id [OF assms] by (auto simp: inj_on_def)
  ultimately have "distinct (map ms_id (sort_key message_key ?rows))" by (simp add: distinct_map)
  moreover have "map bm_id (server_messages older g d) = map ms_id (sort_key message_key ?rows)"
    by (simp add: server_messages_def comp_def message_select_def)
  ultimately show ?thesis by simp
qed

lemma only_one: "distinct (map f xs) \<Longrightarrow> x \<in> set xs \<Longrightarrow> filter (\<lambda>y. f y = f x) xs = [x]"
proof (induction xs)
  case (Cons y ys)
  show ?case
  proof (cases "x = y")
    case True
    with Cons.prems(1) have "f x \<notin> f ` set ys" by simp
    then have "\<forall>z \<in> set ys. f z \<noteq> f x" by (metis image_eqI)
    with True show ?thesis by (simp add: filter_empty_conv)
  next
    case False
    with Cons.prems have "f y \<noteq> f x" "x \<in> set ys" by auto
    with Cons show ?thesis by simp
  qed
qed simp

lemma not_loaded_ids: "k \<in> not_loaded g c d \<Longrightarrow> \<exists>m \<in> set (db_messages d). ms_id m = snd k"
  by (auto simp: not_loaded_def message_key_def)

lemma message_in_the_view:
  assumes "row \<in> set (db_messages d)" and "ms_groupId row = g" and "older \<subseteq> not_loaded g c d0"
    and "\<forall>m \<in> set (db_messages d0). ms_id m \<noteq> ms_id row"
  shows "message_select d row \<in> set (server_messages older g d)"
proof -
  have "message_key row \<notin> older"
    using assms(3,4) not_loaded_ids [of "message_key row" g c d0] by (auto simp: message_key_def)
  with assms(1,2) show ?thesis by (auto simp: server_messages_def)
qed

lemma watched_inv:
  assumes "chat_inv st" and "signs_ids env" and "\<forall>x \<in> set (db_users (ch_db st)). u_id x \<noteq> []" and "as_uuid g = g"
    and "positions_ok pe (ch_db st)" and "load_group pe g (ch_db st) = Some c" and "follow pe env sid g st c st' c'"
  shows "chat_inv st'"
proof -
  have "db_wf (ch_db st)" using assms(1) by (simp add: chat_inv_def groups_inv_def)
  note start = load_in_sync [OF assms(6) this assms(4,3,5)]
  from follow_sync [OF assms(7,1,2,4) start [THEN conjunct1] start [THEN conjunct2]] show ?thesis by blast
qed

lemma follow_watching: "follow pe env sid g st c st' c' \<Longrightarrow> watching sid g (ch_sockets st')"
  by (induction rule: follow.induct) simp_all

section \<open>A message that is sent\<close>

text \<open>A member's text of an acceptable length, under an id that is new, is one more row of the group.\<close>

lemma member_sends:
  fixes now :: time
  assumes wf: "db_wf d" and member: "is_member d (sk_user s) g" "uuid_re g" and lower: "as_uuid (sk_user s) = sk_user s"
    and new: "\<forall>m \<in> set (db_messages d). ms_id m \<noteq> mid"
    and t: "js_trim t = t" "t \<noteq> []" "length t \<le> MESSAGE_CONTENT_MAX_LENGTH"
  defines "row \<equiv> new_message_row mid now (as_uuid g) (Some (sk_user s)) t USER None"
  defines "d' \<equiv> d\<lparr>db_messages := db_messages d @ [row]\<rparr>"
  shows "send_message mid now s (Some g) (Some t) d
      = (d', [MESSAGE_CREATED (message_select d' row)], AckMessage (message_select d' row))" and "db_wf d'"
proof -
  obtain m where m: "m \<in> set (db_members d)" "gm_groupId m = as_uuid g" "gm_userId m = as_uuid (sk_user s)"
    using member(1) by (auto simp: is_member_def list_ex_iff)
  with wf lower have refs: "has_group d (as_uuid g)" "has_user d (sk_user s)"
    by (auto simp: db_wf_def refs_ok_def list_all_iff)
  have "\<not> list_ex (message_clash row) (db_messages d)"
    using new by (auto simp: message_clash_def list_ex_iff row_def new_message_row_def)
  with refs have created: "db_create_message row d = Inr d'"
    by (simp add: db_create_message_def insert_row_def d'_def opt_user_def row_def new_message_row_def)
  then show "db_wf d'" using wf by (rule db_create_message_wf)
  obtain x where "assert_member (sk_user s) g d = Inr x" using assert_member_cases [of "sk_user s" g d] member by blast
  with t created show "send_message mid now s (Some g) (Some t) d
      = (d', [MESSAGE_CREATED (message_select d' row)], AckMessage (message_select d' row))"
    by (simp add: send_message_def messages_create_def persist_and_emit_def row_def [symmetric] Let_def)
qed

section \<open>Properties\<close>

text \<open>
  C4. What is sent is seen. A browser has loaded a group and its socket has been in the room since, through anything
  that happened. A member submits a text in the composer of any page, and the gateway handles what that emits
  under an id that is new: the composer is then cleared, and the list of the first browser, without
  any further request, holds the message exactly once, with the trimmed text and the sender's id; everything
  else on it is as it is on the server.
\<close>

theorem what_is_sent_is_seen:
  assumes inv: "chat_inv st" and env: "signs_ids env" and names: "\<forall>x \<in> set (db_users (ch_db st)). u_id x \<noteq> []"
    and g: "as_uuid g = g" "uuid_re g" and pos: "positions_ok pe (ch_db st)" and load: "load_group pe g (ch_db st) = Some c"
    and watched: "follow pe env sid g st c st1 c1"
    and sender: "find_socket sid2 (ch_sockets st1) = Some s" "is_member (ch_db st1) (sk_user s) g"
    and short: "length (cp_content p) \<le> MESSAGE_MAX_LENGTH" and submitted: "submit g True p = (p1, [EmitSend g t])"
    and fresh: "mid \<notin> ms_id ` set (db_messages (ch_db st))" "mid \<notin> ms_id ` set (db_messages (ch_db st1))"
    and handled: "send_message mid now s (Some g) (Some t) (ch_db st1) = (d2, evs, a)"
      "on_events evs (ch_sockets st1) = (ss2, out)"
  shows "t = js_trim (cp_content p) \<and> cp_content (fst (on_ack (ack_of a) p1)) = []
    \<and> (\<exists>bm older. older \<subseteq> not_loaded g c (ch_db st) \<and> group_messages (receive sid out c1) g = server_messages older g d2
        \<and> filter (\<lambda>m. bm_id m = mid) (group_messages (receive sid out c1) g) = [bm]
        \<and> bm_content bm = t \<and> bm_senderId bm = Some (sk_user s) \<and> bm_createdAt bm = now)"
proof -
  have t: "t = js_trim (cp_content p)" "t \<noteq> []" "length t \<le> MESSAGE_CONTENT_MAX_LENGTH"
    using submitted short length_js_trim [of "cp_content p"]
    by (auto simp: submit_def Let_def limits_agree split: if_splits)
  then have trim: "js_trim t = t" by simp
  have inv1: "chat_inv st1" by (rule watched_inv [OF inv env names g(1) pos load watched])
  then have wf: "db_wf (ch_db st1)" by (simp add: chat_inv_def groups_inv_def)
  have lower: "as_uuid (sk_user s) = sk_user s"
    using inv1 find_socket_Some [OF sender(1)] by (auto simp: chat_inv_def list_all_iff socket_ok_def)
  have new: "\<forall>m \<in> set (db_messages (ch_db st1)). ms_id m \<noteq> mid" using fresh(2) by auto
  note sent = member_sends [OF wf sender(2) g(2) lower new trim t(2,3), of now]
  define row where "row = new_message_row mid now (as_uuid g) (Some (sk_user s)) t USER None"
  define bm where "bm = message_select d2 row"
  have s2: "d2 = (ch_db st1)\<lparr>db_messages := db_messages (ch_db st1) @ [row]\<rparr>" "evs = [MESSAGE_CREATED bm]" "a = AckMessage bm"
    using sent(1) handled(1) by (auto simp: row_def bm_def)
  have "ss2 = ch_sockets st1" using handled(2) by (simp add: s2(2) on_event_def)
  then have watching: "watching sid g (ch_sockets \<lparr>ch_db = d2, ch_sockets = ss2\<rparr>)"
    using follow_watching [OF watched] by simp
  note step = follow.step [OF watched chat_step.send [OF sender(1) handled] _ this]
  have "follow pe env sid g st c \<lparr>ch_db = d2, ch_sockets = ss2\<rparr> (receive sid out c1)" by (rule step) simp
  from loaded_client [OF inv env names g(1) pos load this] obtain older where o: "db_wf d2" "older \<subseteq> not_loaded g c (ch_db st)"
    "in_sync older g d2 (receive sid out c1)" by auto
  have row: "row \<in> set (db_messages d2)" "ms_groupId row = g" "ms_id row = mid"
    by (simp_all add: s2(1)) (simp_all add: row_def new_message_row_def g(1))
  have "has_group d2 g" using o(1) row(1,2) by (auto simp: db_wf_def refs_ok_def list_all_iff)
  with o(1,3) have list: "group_messages (receive sid out c1) g = server_messages older g d2"
    by (simp add: in_sync_def synced_list)
  have there: "bm \<in> set (server_messages older g d2)"
    unfolding bm_def using fresh(1) row(3) by (intro message_in_the_view [OF row(1,2) o(2)]) (auto simp: image_iff)
  have id: "bm_id bm = mid" by (simp add: bm_def row(3))
  have "filter (\<lambda>m. bm_id m = mid) (server_messages older g d2) = [bm]"
    using only_one [of bm_id, OF server_messages_ids [OF o(1)] there] by (simp only: id)
  moreover have "bm_content bm = t" "bm_senderId bm = Some (sk_user s)" "bm_createdAt bm = now"
    by (simp_all add: bm_def message_select_def row_def new_message_row_def)
  moreover have "cp_content (fst (on_ack (ack_of a) p1)) = []" by (simp add: s2(3) on_ack_def ack_of_def Let_def)
  ultimately show ?thesis using t(1) o(2) list by auto
qed

text \<open>Bob on another page, whose socket is in no room; Ann's page is the sample one.\<close>

definition bob_elsewhere :: socket where
  "bob_elsewhere = \<lparr>sk_id = ''s2'', sk_user = sample_id 2, sk_email = ''bob@x.com'', sk_rooms = [''s2'']\<rparr>"

definition sample_pair :: chat_state where
  "sample_pair = sample_opened\<lparr>ch_sockets := ch_sockets sample_opened @ [bob_elsewhere]\<rparr>"

lemma sample_pair_inv: "chat_inv sample_pair"
  unfolding chat_inv_def using sample_groups_inv by (simp add: sample_pair_def sample_opened_def bob_elsewhere_def) code_simp

lemma sample_pair_db [simp]: "ch_db sample_pair = sample_db"
  by (simp add: sample_pair_def sample_opened_def)

lemma sample_pair_loaded: "load_group sample_page_env (sample_id 4) sample_db \<noteq> None"
  using sample_watched by (auto simp: watch_run_def sample_opened_def split: option.splits)

text \<open>Witness for C4: Bob's text is on Ann's page.\<close>

theorem what_is_sent_is_seen_witness:
  "\<exists>c d2 evs a ss2 out bm. load_group sample_page_env (sample_id 4) sample_db = Some c
     \<and> send_message (sample_id 23) 530 bob_elsewhere (Some (sample_id 4)) (Some ''hi there'') sample_db = (d2, evs, a)
     \<and> on_events evs (ch_sockets sample_pair) = (ss2, out)
     \<and> filter (\<lambda>m. bm_id m = sample_id 23) (group_messages (receive ''s1'' out c) (sample_id 4)) = [bm]
     \<and> bm_content bm = ''hi there'' \<and> bm_senderId bm = Some (sample_id 2)"
proof -
  let ?p = "empty_composer\<lparr>cp_content := '' hi there ''\<rparr>" and ?s = bob_elsewhere
  obtain c where c: "load_group sample_page_env (sample_id 4) (ch_db sample_pair) = Some c" using sample_pair_loaded by auto
  have names: "\<forall>x \<in> set (db_users (ch_db sample_pair)). u_id x \<noteq> []"
    using sample_users_named by (simp add: sample_opened_def)
  have pos: "positions_ok sample_page_env (ch_db sample_pair)" using sample_positions by (simp add: sample_opened_def)
  have "watching ''s1'' (sample_id 4) (ch_sockets sample_pair)"
    using sample_watching by (simp add: sample_pair_def watching_def)
  then have f: "follow sample_page_env feed_env ''s1'' (sample_id 4) sample_pair c sample_pair c" by (rule follow.begin_follow)
  have s: "find_socket ''s2'' (ch_sockets sample_pair) = Some ?s" "sk_user ?s = sample_id 2"
    by (simp_all add: sample_pair_def sample_opened_def find_socket_def bob_elsewhere_def)
  have m: "is_member (ch_db sample_pair) (sk_user ?s) (sample_id 4)"
    by (simp add: s(2) is_member_def sample_db_def sample_member_def)
  have trim: "js_trim '' hi there '' = ''hi there''" by code_simp
  have sub: "submit (sample_id 4) True ?p = (?p\<lparr>cp_sending := True\<rparr>, [EmitSend (sample_id 4) ''hi there''])"
    by (simp add: submit_def trim empty_composer_def)
  have fresh: "sample_id 23 \<notin> ms_id ` set (db_messages (ch_db sample_pair))"
    by (simp add: sample_db_def sample_message_def) code_simp
  obtain d2 evs a where h: "send_message (sample_id 23) 530 ?s (Some (sample_id 4)) (Some ''hi there'') (ch_db sample_pair) = (d2, evs, a)"
    by (metis prod_cases3)
  obtain ss2 out where o: "on_events evs (ch_sockets sample_pair) = (ss2, out)" by fastforce
  have "length (cp_content ?p) \<le> MESSAGE_MAX_LENGTH" by (simp add: MESSAGE_MAX_LENGTH_def)
  from what_is_sent_is_seen [OF sample_pair_inv feed_env_signs names as_uuid_sample(1) sample_id_uuid(1) pos c f s(1) m this sub
      fresh fresh h o] obtain bm where bm: "filter (\<lambda>m. bm_id m = sample_id 23) (group_messages (receive ''s1'' out c) (sample_id 4)) = [bm]"
      "bm_content bm = ''hi there''" "bm_senderId bm = Some (sk_user ?s)" by blast
  show ?thesis by (intro exI conjI) (rule c [simplified] h [simplified] o bm(1,2) bm(3) [unfolded s(2)])+
qed

end
