(* ===== verification/Api.thy ===== *)
theory Api
  imports Feed ClientPage
begin

text \<open>
  From a call of the browser's API client to the handler that serves it (frontend/src/lib/api, next.config.ts,
  the controllers' decorators, app.module.ts): the URL that axios makes of a call, the path that arrives
  behind the rewrite of \<open>/api\<close>, the table of routes, the global token guard and the whitelist of
  body fields. What the browser percent-encodes, Express decodes again, so both are left out; a
  backslash counts as a slash in an http URL, dot segments are resolved by the browser.

  The lemmas show that every call reaches its own handler with its own arguments, that only six
  routes are open, and what an id with a slash and a question mark in it can do.
\<close>

section \<open>URLs\<close>

definition url_path :: "string \<Rightarrow> string" where
  "url_path u = takeWhile (\<lambda>c. c \<noteq> CHR ''?'' \<and> c \<noteq> CHR ''#'') u"

definition is_slash :: "char \<Rightarrow> bool" where
  "is_slash c \<longleftrightarrow> c = CHR ''/'' \<or> c = CHR 0x5C"

fun split_path :: "string \<Rightarrow> string list" where
  "split_path [] = [[]]"
| "split_path (c # cs) = (if is_slash c then [] # split_path cs
     else case split_path cs of [] \<Rightarrow> [[c]] | s # ss \<Rightarrow> (c # s) # ss)"

fun resolve_dots :: "string list \<Rightarrow> string list \<Rightarrow> string list" where
  "resolve_dots seen [] = rev seen"
| "resolve_dots seen (s # ss) = (if s = ''.'' then resolve_dots seen ss
     else if s = ''..'' then resolve_dots (tl seen) ss else resolve_dots (s # seen) ss)"

text \<open>axios joins the base and the path of the call with one slash.\<close>

definition API_BASE_URL :: string where "API_BASE_URL = ''/api''"

definition combine_urls :: "string \<Rightarrow> string" where
  "combine_urls path = API_BASE_URL @ ''/'' @ dropWhile (\<lambda>c. c = CHR ''/'') path"

text \<open>The rewrite of next.config.ts: the backend sees the path without its first segment \<open>api\<close>.\<close>

definition rewritten :: "string list \<Rightarrow> string list option" where
  "rewritten segs = (case segs of a # p # rest \<Rightarrow> (if a = [] \<and> p = ''api'' then Some rest else None) | _ \<Rightarrow> None)"

definition backend_path :: "string \<Rightarrow> string list option" where
  "backend_path path = rewritten (resolve_dots [] (split_path (url_path (combine_urls path))))"

section \<open>Routes\<close>

datatype http_method = GET | POST | PATCH | DELETE

datatype segment = Lit string | Param

datatype endpoint = EP_live | EP_ready | EP_run | EP_register | EP_login | EP_refresh | EP_google | EP_logout
  | EP_create | EP_findMine | EP_findOne uuid | EP_join uuid | EP_markRead uuid | EP_leave uuid | EP_transfer uuid
  | EP_post uuid | EP_findPage uuid | EP_search uuid | EP_upload uuid | EP_edit uuid uuid | EP_remove uuid uuid
  | EP_toggle uuid uuid

text \<open>Matching as Express does it: literals in any case, parameters not empty, one trailing slash allowed.\<close>

fun match_segments :: "segment list \<Rightarrow> string list \<Rightarrow> string list option" where
  "match_segments [] [] = Some []"
| "match_segments (Lit l # ps) (s # ss) = (if to_lower s = l then match_segments ps ss else None)"
| "match_segments (Param # ps) (s # ss) = (if s = [] then None else map_option (Cons s) (match_segments ps ss))"
| "match_segments _ _ = None"

type_synonym route = "http_method \<times> segment list \<times> (string list \<Rightarrow> endpoint)"

definition health_routes :: "route list" where
  "health_routes = [(GET, [Lit ''health''], \<lambda>_. EP_live), (GET, [Lit ''health'', Lit ''ready''], \<lambda>_. EP_ready)]"

definition summary_routes :: "route list" where
  "summary_routes = [(POST, [Lit ''summaries'', Lit ''run''], \<lambda>_. EP_run)]"

definition auth_routes :: "route list" where
  "auth_routes = [(POST, [Lit ''auth'', Lit ''register''], \<lambda>_. EP_register),
     (POST, [Lit ''auth'', Lit ''login''], \<lambda>_. EP_login), (POST, [Lit ''auth'', Lit ''refresh''], \<lambda>_. EP_refresh),
     (POST, [Lit ''auth'', Lit ''google''], \<lambda>_. EP_google), (POST, [Lit ''auth'', Lit ''logout''], \<lambda>_. EP_logout)]"

definition group_routes :: "route list" where
  "group_routes = [(POST, [Lit ''groups''], \<lambda>_. EP_create), (GET, [Lit ''groups''], \<lambda>_. EP_findMine),
     (GET, [Lit ''groups'', Param], \<lambda>ps. EP_findOne (ps ! 0)),
     (POST, [Lit ''groups'', Param, Lit ''join''], \<lambda>ps. EP_join (ps ! 0)),
     (POST, [Lit ''groups'', Param, Lit ''read''], \<lambda>ps. EP_markRead (ps ! 0)),
     (POST, [Lit ''groups'', Param, Lit ''leave''], \<lambda>ps. EP_leave (ps ! 0)),
     (POST, [Lit ''groups'', Param, Lit ''transfer-ownership''], \<lambda>ps. EP_transfer (ps ! 0))]"

definition message_routes :: "route list" where
  "message_routes = [(POST, [Lit ''groups'', Param, Lit ''messages''], \<lambda>ps. EP_post (ps ! 0)),
     (GET, [Lit ''groups'', Param, Lit ''messages''], \<lambda>ps. EP_findPage (ps ! 0)),
     (GET, [Lit ''groups'', Param, Lit ''messages'', Lit ''search''], \<lambda>ps. EP_search (ps ! 0)),
     (POST, [Lit ''groups'', Param, Lit ''messages'', Lit ''upload''], \<lambda>ps. EP_upload (ps ! 0)),
     (PATCH, [Lit ''groups'', Param, Lit ''messages'', Param], \<lambda>ps. EP_edit (ps ! 0) (ps ! 1)),
     (DELETE, [Lit ''groups'', Param, Lit ''messages'', Param], \<lambda>ps. EP_remove (ps ! 0) (ps ! 1))]"

definition reaction_routes :: "route list" where
  "reaction_routes = [(POST, [Lit ''groups'', Param, Lit ''messages'', Param, Lit ''reactions''],
     \<lambda>ps. EP_toggle (ps ! 0) (ps ! 1))]"

definition all_routes :: "route list" where
  "all_routes = health_routes @ summary_routes @ auth_routes @ group_routes @ message_routes @ reaction_routes"

fun first_route :: "route list \<Rightarrow> http_method \<Rightarrow> string list \<Rightarrow> endpoint option" where
  "first_route [] m segs = None"
| "first_route ((m', ps, h) # rs) m segs = (if m' = m
     then (case match_segments ps segs of Some args \<Rightarrow> Some (h args) | None \<Rightarrow> first_route rs m segs)
     else first_route rs m segs)"

definition dispatch :: "http_method \<Rightarrow> string list \<Rightarrow> endpoint option" where
  "dispatch m segs = first_route all_routes m
     (if segs \<noteq> [] \<and> last segs = [] then butlast segs else segs)"

section \<open>Guard and body\<close>

record http_message =
  hm_method :: http_method
  hm_path :: string
  hm_bearer :: "string option"
  hm_query :: "(string \<times> string) list"
  hm_body :: "(string \<times> jsval) list"
  hm_file :: "uploaded_file option"

definition is_public :: "endpoint \<Rightarrow> bool" where
  "is_public e \<longleftrightarrow> e \<in> {EP_live, EP_ready, EP_register, EP_login, EP_refresh, EP_google}"

definition admit :: "(string \<Rightarrow> jwt_payload option) \<Rightarrow> http_message \<Rightarrow> exn + endpoint \<times> auth_user option" where
  "admit verify msg = (case Option.bind (backend_path (hm_path msg)) (dispatch (hm_method msg)) of
     None \<Rightarrow> Inl (not_found ''Cannot serve this path'')
   | Some e \<Rightarrow> (case jwt_auth_guard verify (if is_public e then Some True else None) None (hm_bearer msg) of
       Inl x \<Rightarrow> Inl x | Inr u \<Rightarrow> Inr (e, u)))"

text \<open>The fields of the body's DTO; \<open>forbidNonWhitelisted\<close> refuses any other.\<close>

definition dto_fields :: "endpoint \<Rightarrow> string list option" where
  "dto_fields e = (case e of
     EP_register \<Rightarrow> Some [''email'', ''password'', ''name''] | EP_login \<Rightarrow> Some [''email'', ''password'']
   | EP_refresh \<Rightarrow> Some [''refreshToken''] | EP_logout \<Rightarrow> Some [''refreshToken''] | EP_google \<Rightarrow> Some [''idToken'']
   | EP_create \<Rightarrow> Some [''name''] | EP_transfer _ \<Rightarrow> Some [''userId'']
   | EP_post _ \<Rightarrow> Some [''content''] | EP_edit _ _ \<Rightarrow> Some [''content''] | EP_toggle _ _ \<Rightarrow> Some [''emoji'']
   | _ \<Rightarrow> None)"

definition whitelisted :: "endpoint \<Rightarrow> (string \<times> jsval) list \<Rightarrow> bool" where
  "whitelisted e body \<longleftrightarrow> (case dto_fields e of None \<Rightarrow> True
     | Some fs \<Rightarrow> list_all (\<lambda>kv. list_ex (\<lambda>f. f = fst kv) fs) body)"

text \<open>Ids and the instant that the server draws while it serves the request.\<close>

record api_draws =
  ad_id :: uuid
  ad_id2 :: uuid
  ad_now :: time

definition text_of :: "jsval \<Rightarrow> string option" where
  "text_of v = (case v of JStr s \<Rightarrow> Some s | _ \<Rightarrow> None)"

text \<open>A \<open>userId\<close> that is no text fails the DTO as the empty text does.\<close>

definition chat_request :: "api_draws \<Rightarrow> endpoint \<Rightarrow> http_message \<Rightarrow> http_req option" where
  "chat_request dr e msg = (case e of
     EP_create \<Rightarrow> Some (CreateGroup (ad_id dr) (ad_id2 dr) (ad_now dr) (field ''name'' (hm_body msg)))
   | EP_join g \<Rightarrow> Some (JoinGroup (ad_id dr) (ad_now dr) g)
   | EP_leave g \<Rightarrow> Some (Leave g)
   | EP_markRead g \<Rightarrow> Some (MarkRead (ad_now dr) g)
   | EP_transfer g \<Rightarrow> Some (Transfer g (case text_of (field ''userId'' (hm_body msg)) of None \<Rightarrow> [] | Some t \<Rightarrow> t))
   | EP_post g \<Rightarrow> Some (PostMessage (ad_id dr) (ad_now dr) g (field ''content'' (hm_body msg)))
   | EP_upload g \<Rightarrow> Some (Upload (ad_id dr) (ad_id2 dr) (ad_now dr) g (text_of (field ''content'' (hm_body msg))) (hm_file msg))
   | EP_edit g m \<Rightarrow> Some (Edit (ad_now dr) g m (field ''content'' (hm_body msg)))
   | EP_remove g m \<Rightarrow> Some (Remove (ad_now dr) g m)
   | EP_toggle g m \<Rightarrow> Some (Toggle (ad_id dr) (ad_now dr) g m (field ''emoji'' (hm_body msg)))
   | _ \<Rightarrow> None)"

text \<open>What a request does to the chat: guard, whitelist, handler.\<close>

definition api_write ::
  "chat_env \<Rightarrow> (string \<Rightarrow> jwt_payload option) \<Rightarrow> api_draws \<Rightarrow> http_message \<Rightarrow> db \<Rightarrow> db \<times> app_event list" where
  "api_write env verify dr msg d = (case admit verify msg of
     Inr (e, Some u) \<Rightarrow> (if whitelisted e (hm_body msg)
       then (case chat_request dr e msg of Some r \<Rightarrow> http_write env u r d | None \<Rightarrow> (d, []))
       else (d, []))
   | _ \<Rightarrow> (d, []))"

section \<open>The client's calls\<close>

datatype api_call = ListMyGroups | GetGroup uuid | CreateGroupCall string | JoinCall uuid | LeaveCall uuid
  | TransferCall uuid uuid | MarkReadCall uuid | GetMessages uuid "nat option" "string option"
  | SearchCall uuid string | SendCall uuid string | UploadCall uuid uploaded_file string
  | EditCall uuid uuid string | DeleteCall uuid uuid | ToggleCall uuid uuid string
  | RegisterCall string string string | LoginCall string string | GoogleCall string | LogoutCall string

definition call_to :: "http_method \<Rightarrow> string list \<Rightarrow> string option \<Rightarrow> http_message" where
  "call_to m segs token = \<lparr>hm_method = m, hm_path = concat (map (\<lambda>s. CHR ''/'' # s) segs), hm_bearer = token,
     hm_query = [], hm_body = [], hm_file = None\<rparr>"

definition with_body :: "(string \<times> string) list \<Rightarrow> http_message \<Rightarrow> http_message" where
  "with_body kvs msg = msg\<lparr>hm_body := map (\<lambda>(k, v). (k, JStr v)) kvs\<rparr>"

text \<open>\<open>lib/api/groups.ts\<close>; the token is what the request interceptor attaches.\<close>

definition listMyGroups :: "string option \<Rightarrow> http_message" where
  "listMyGroups tok = call_to GET [''groups''] tok"

definition createGroup :: "string option \<Rightarrow> string \<Rightarrow> http_message" where
  "createGroup tok name = with_body [(''name'', name)] (call_to POST [''groups''] tok)"

definition getGroup :: "string option \<Rightarrow> uuid \<Rightarrow> http_message" where
  "getGroup tok groupId = call_to GET [''groups'', groupId] tok"

definition joinGroup :: "string option \<Rightarrow> uuid \<Rightarrow> http_message" where
  "joinGroup tok groupId = call_to POST [''groups'', groupId, ''join''] tok"

definition leaveGroup :: "string option \<Rightarrow> uuid \<Rightarrow> http_message" where
  "leaveGroup tok groupId = call_to POST [''groups'', groupId, ''leave''] tok"

definition transferOwnership :: "string option \<Rightarrow> uuid \<Rightarrow> uuid \<Rightarrow> http_message" where
  "transferOwnership tok groupId userId =
     with_body [(''userId'', userId)] (call_to POST [''groups'', groupId, ''transfer-ownership''] tok)"

definition markRead :: "string option \<Rightarrow> uuid \<Rightarrow> http_message" where
  "markRead tok groupId = call_to POST [''groups'', groupId, ''read''] tok"

text \<open>\<open>lib/api/messages.ts\<close>; a parameter that is undefined is not sent, nor an empty caption.\<close>

definition getMessages :: "string option \<Rightarrow> uuid \<Rightarrow> nat option \<Rightarrow> string option \<Rightarrow> http_message" where
  "getMessages tok groupId limit cursor = (call_to GET [''groups'', groupId, ''messages''] tok)
     \<lparr>hm_query := (case limit of None \<Rightarrow> [] | Some n \<Rightarrow> [(''limit'', dec n)])
        @ (case cursor of None \<Rightarrow> [] | Some c \<Rightarrow> [(''cursor'', c)])\<rparr>"

definition searchMessages :: "string option \<Rightarrow> uuid \<Rightarrow> string \<Rightarrow> http_message" where
  "searchMessages tok groupId q =
     (call_to GET [''groups'', groupId, ''messages'', ''search''] tok)\<lparr>hm_query := [(''q'', q)]\<rparr>"

definition sendMessage :: "string option \<Rightarrow> uuid \<Rightarrow> string \<Rightarrow> http_message" where
  "sendMessage tok groupId content = with_body [(''content'', content)] (call_to POST [''groups'', groupId, ''messages''] tok)"

definition uploadFile :: "string option \<Rightarrow> uuid \<Rightarrow> uploaded_file \<Rightarrow> string \<Rightarrow> http_message" where
  "uploadFile tok groupId f content = (with_body (if content \<noteq> [] then [(''content'', content)] else [])
     (call_to POST [''groups'', groupId, ''messages'', ''upload''] tok))\<lparr>hm_file := Some f\<rparr>"

definition editMessage :: "string option \<Rightarrow> uuid \<Rightarrow> uuid \<Rightarrow> string \<Rightarrow> http_message" where
  "editMessage tok groupId messageId content =
     with_body [(''content'', content)] (call_to PATCH [''groups'', groupId, ''messages'', messageId] tok)"

definition deleteMessage :: "string option \<Rightarrow> uuid \<Rightarrow> uuid \<Rightarrow> http_message" where
  "deleteMessage tok groupId messageId = call_to DELETE [''groups'', groupId, ''messages'', messageId] tok"

definition toggleReaction :: "string option \<Rightarrow> uuid \<Rightarrow> uuid \<Rightarrow> string \<Rightarrow> http_message" where
  "toggleReaction tok groupId messageId emoji =
     with_body [(''emoji'', emoji)] (call_to POST [''groups'', groupId, ''messages'', messageId, ''reactions''] tok)"

text \<open>\<open>lib/api/auth.ts\<close>.\<close>

definition register_call :: "string option \<Rightarrow> string \<Rightarrow> string \<Rightarrow> string \<Rightarrow> http_message" where
  "register_call tok email password name = with_body [(''email'', email), (''password'', password), (''name'', name)]
     (call_to POST [''auth'', ''register''] tok)"

definition login_call :: "string option \<Rightarrow> string \<Rightarrow> string \<Rightarrow> http_message" where
  "login_call tok email password = with_body [(''email'', email), (''password'', password)] (call_to POST [''auth'', ''login''] tok)"

definition googleLogin :: "string option \<Rightarrow> string \<Rightarrow> http_message" where
  "googleLogin tok idToken = with_body [(''idToken'', idToken)] (call_to POST [''auth'', ''google''] tok)"

definition logout_call :: "string option \<Rightarrow> string \<Rightarrow> http_message" where
  "logout_call tok refreshToken = with_body [(''refreshToken'', refreshToken)] (call_to POST [''auth'', ''logout''] tok)"

lemmas api_functions = listMyGroups_def createGroup_def getGroup_def joinGroup_def leaveGroup_def transferOwnership_def
  markRead_def getMessages_def searchMessages_def sendMessage_def uploadFile_def editMessage_def deleteMessage_def
  toggleReaction_def register_call_def login_call_def googleLogin_def logout_call_def

fun api_message :: "string option \<Rightarrow> api_call \<Rightarrow> http_message" where
  "api_message tok ListMyGroups = listMyGroups tok"
| "api_message tok (CreateGroupCall name) = createGroup tok name"
| "api_message tok (GetGroup g) = getGroup tok g"
| "api_message tok (JoinCall g) = joinGroup tok g"
| "api_message tok (LeaveCall g) = leaveGroup tok g"
| "api_message tok (TransferCall g u) = transferOwnership tok g u"
| "api_message tok (MarkReadCall g) = markRead tok g"
| "api_message tok (GetMessages g limit cursor) = getMessages tok g limit cursor"
| "api_message tok (SearchCall g q) = searchMessages tok g q"
| "api_message tok (SendCall g t) = sendMessage tok g t"
| "api_message tok (UploadCall g f t) = uploadFile tok g f t"
| "api_message tok (EditCall g m t) = editMessage tok g m t"
| "api_message tok (DeleteCall g m) = deleteMessage tok g m"
| "api_message tok (ToggleCall g m e) = toggleReaction tok g m e"
| "api_message tok (RegisterCall email pw name) = register_call tok email pw name"
| "api_message tok (LoginCall email pw) = login_call tok email pw"
| "api_message tok (GoogleCall t) = googleLogin tok t"
| "api_message tok (LogoutCall t) = logout_call tok t"

text \<open>What each call is meant to be: its endpoint, and the request of the chat if it is one.\<close>

fun intended_endpoint :: "api_call \<Rightarrow> endpoint" where
  "intended_endpoint ListMyGroups = EP_findMine"
| "intended_endpoint (CreateGroupCall name) = EP_create"
| "intended_endpoint (GetGroup g) = EP_findOne g"
| "intended_endpoint (JoinCall g) = EP_join g"
| "intended_endpoint (LeaveCall g) = EP_leave g"
| "intended_endpoint (TransferCall g u) = EP_transfer g"
| "intended_endpoint (MarkReadCall g) = EP_markRead g"
| "intended_endpoint (GetMessages g limit cursor) = EP_findPage g"
| "intended_endpoint (SearchCall g q) = EP_search g"
| "intended_endpoint (SendCall g t) = EP_post g"
| "intended_endpoint (UploadCall g f t) = EP_upload g"
| "intended_endpoint (EditCall g m t) = EP_edit g m"
| "intended_endpoint (DeleteCall g m) = EP_remove g m"
| "intended_endpoint (ToggleCall g m e) = EP_toggle g m"
| "intended_endpoint (RegisterCall email pw name) = EP_register"
| "intended_endpoint (LoginCall email pw) = EP_login"
| "intended_endpoint (GoogleCall t) = EP_google"
| "intended_endpoint (LogoutCall t) = EP_logout"

fun intended_write :: "api_draws \<Rightarrow> api_call \<Rightarrow> http_req option" where
  "intended_write dr (CreateGroupCall name) = Some (CreateGroup (ad_id dr) (ad_id2 dr) (ad_now dr) (JStr name))"
| "intended_write dr (JoinCall g) = Some (JoinGroup (ad_id dr) (ad_now dr) g)"
| "intended_write dr (LeaveCall g) = Some (Leave g)"
| "intended_write dr (TransferCall g u) = Some (Transfer g u)"
| "intended_write dr (MarkReadCall g) = Some (MarkRead (ad_now dr) g)"
| "intended_write dr (SendCall g t) = Some (PostMessage (ad_id dr) (ad_now dr) g (JStr t))"
| "intended_write dr (UploadCall g f t) = Some (Upload (ad_id dr) (ad_id2 dr) (ad_now dr) g
     (if t = [] then None else Some t) (Some f))"
| "intended_write dr (EditCall g m t) = Some (Edit (ad_now dr) g m (JStr t))"
| "intended_write dr (DeleteCall g m) = Some (Remove (ad_now dr) g m)"
| "intended_write dr (ToggleCall g m e) = Some (Toggle (ad_id dr) (ad_now dr) g m (JStr e))"
| "intended_write dr _ = None"

fun call_ids :: "api_call \<Rightarrow> uuid list" where
  "call_ids (GetGroup g) = [g]"
| "call_ids (JoinCall g) = [g]"
| "call_ids (LeaveCall g) = [g]"
| "call_ids (TransferCall g u) = [g]"
| "call_ids (MarkReadCall g) = [g]"
| "call_ids (GetMessages g limit cursor) = [g]"
| "call_ids (SearchCall g q) = [g]"
| "call_ids (SendCall g t) = [g]"
| "call_ids (UploadCall g f t) = [g]"
| "call_ids (EditCall g m t) = [g, m]"
| "call_ids (DeleteCall g m) = [g, m]"
| "call_ids (ToggleCall g m e) = [g, m]"
| "call_ids _ = []"

text \<open>A text that is one segment of a path, and is left alone by the browser.\<close>

definition plain_segment :: "string \<Rightarrow> bool" where
  "plain_segment s \<longleftrightarrow> s \<noteq> [] \<and> s \<noteq> ''.'' \<and> s \<noteq> ''..''
     \<and> list_all (\<lambda>c. \<not> is_slash c \<and> c \<noteq> CHR ''?'' \<and> c \<noteq> CHR ''#'') s"

section \<open>Paths\<close>

lemma split_segment: "list_all (\<lambda>c. \<not> is_slash c) s \<Longrightarrow> split_path s = [s]"
  by (induction s) auto

lemma split_path_nonempty: "split_path s \<noteq> []"
  by (induction s) (auto split: list.splits)

lemma split_cons: "list_all (\<lambda>c. \<not> is_slash c) s \<Longrightarrow> split_path (s @ CHR ''/'' # t) = s # split_path t"
  by (induction s) (auto simp: is_slash_def)

definition joined :: "string list \<Rightarrow> string" where
  "joined segs = concat (map (\<lambda>s. CHR ''/'' # s) segs)"

lemma split_joined:
  "list_all plain_segment segs \<Longrightarrow> list_all (\<lambda>c. \<not> is_slash c) s \<Longrightarrow> split_path (s @ joined segs) = s # segs"
proof (induction segs arbitrary: s)
  case Nil
  then show ?case by (simp add: joined_def split_segment)
next
  case (Cons x xs)
  have "list_all (\<lambda>c. \<not> is_slash c) x" using Cons.prems by (auto simp: plain_segment_def list_all_iff)
  moreover have "joined (x # xs) = CHR ''/'' # x @ joined xs" by (simp add: joined_def)
  ultimately show ?case using Cons by (simp add: split_cons)
qed

lemma url_path_joined: "list_all plain_segment segs \<Longrightarrow> url_path (joined segs @ t) = joined segs @ url_path t"
proof (induction segs)
  case (Cons x xs)
  have "takeWhile P (x @ y) = x @ takeWhile P y" if "list_all P x" for P and y :: string
    using that by (induction x) auto
  with Cons show ?case
    by (auto simp: joined_def url_path_def plain_segment_def list_all_iff)
qed (simp add: joined_def url_path_def)

lemma resolve_plain: "list_all plain_segment segs \<Longrightarrow> resolve_dots seen segs = rev seen @ segs"
  by (induction segs arbitrary: seen) (auto simp: plain_segment_def)

lemma backend_path_plain:
  assumes "list_all plain_segment segs" and "segs \<noteq> []" and "url_path t = []"
  shows "backend_path (joined segs @ t) = Some segs"
proof -
  obtain x xs where segs: "segs = x # xs" using assms(2) by (cases segs) auto
  have hd: "\<not> is_slash (hd x) \<and> x \<noteq> []" using assms(1) by (cases x) (auto simp: segs plain_segment_def)
  then have "dropWhile (\<lambda>c. c = CHR ''/'') (joined segs @ t) = tl (joined segs) @ t"
    by (cases x) (auto simp: segs joined_def is_slash_def)
  moreover have "CHR ''/'' # tl (joined segs) = joined segs" by (simp add: segs joined_def)
  ultimately have "combine_urls (joined segs @ t) = joined (''api'' # segs) @ t"
    by (simp add: combine_urls_def API_BASE_URL_def joined_def)
  moreover have api: "list_all plain_segment (''api'' # segs)"
    using assms(1) by (simp add: plain_segment_def is_slash_def)
  ultimately have "url_path (combine_urls (joined segs @ t)) = joined (''api'' # segs)"
    using url_path_joined [OF api, of t] assms(3) by simp
  with split_joined [OF api, of "[]"] resolve_plain [OF api] show ?thesis
    by (simp add: backend_path_def rewritten_def)
qed

section \<open>Properties\<close>

lemma literal_segments:
  "to_lower ''health'' = ''health''" "to_lower ''ready'' = ''ready''" "to_lower ''summaries'' = ''summaries''"
  "to_lower ''run'' = ''run''" "to_lower ''auth'' = ''auth''" "to_lower ''register'' = ''register''"
  "to_lower ''login'' = ''login''" "to_lower ''refresh'' = ''refresh''" "to_lower ''google'' = ''google''"
  "to_lower ''logout'' = ''logout''" "to_lower ''groups'' = ''groups''" "to_lower ''join'' = ''join''"
  "to_lower ''read'' = ''read''" "to_lower ''leave'' = ''leave''"
  "to_lower ''transfer-ownership'' = ''transfer-ownership''" "to_lower ''messages'' = ''messages''"
  "to_lower ''search'' = ''search''" "to_lower ''upload'' = ''upload''" "to_lower ''reactions'' = ''reactions''"
  by code_simp+

lemma plain_literals:
  "plain_segment ''auth''" "plain_segment ''register''" "plain_segment ''login''" "plain_segment ''google''"
  "plain_segment ''logout''" "plain_segment ''groups''" "plain_segment ''join''" "plain_segment ''read''"
  "plain_segment ''leave''" "plain_segment ''transfer-ownership''" "plain_segment ''messages''"
  "plain_segment ''search''" "plain_segment ''upload''" "plain_segment ''reactions''"
  by code_simp+

lemmas route_tables = all_routes_def health_routes_def summary_routes_def auth_routes_def group_routes_def
  message_routes_def reaction_routes_def

lemma call_path:
  "list_all plain_segment segs \<Longrightarrow> segs \<noteq> [] \<Longrightarrow> backend_path (hm_path (call_to m segs tok)) = Some segs"
  using backend_path_plain [of segs "[]"] by (simp add: call_to_def joined_def url_path_def)

lemma with_body_simps [simp]:
  "hm_path (with_body kvs msg) = hm_path msg" "hm_method (with_body kvs msg) = hm_method msg"
  "hm_bearer (with_body kvs msg) = hm_bearer msg" "hm_file (with_body kvs msg) = hm_file msg"
  by (simp_all add: with_body_def)

lemma call_to_simps [simp]:
  "hm_method (call_to m segs tok) = m" "hm_bearer (call_to m segs tok) = tok" "hm_body (call_to m segs tok) = []"
  by (simp_all add: call_to_def)

lemma plain_nonempty: "plain_segment s \<Longrightarrow> s \<noteq> []"
  by (simp add: plain_segment_def)

lemma call_dispatch:
  "list_all plain_segment (call_ids c) \<Longrightarrow>
     Option.bind (backend_path (hm_path (api_message tok c))) (dispatch (hm_method (api_message tok c)))
       = Some (intended_endpoint c)"
  by (cases c) (simp_all add: call_path plain_literals plain_nonempty dispatch_def route_tables literal_segments
      api_functions)

text \<open>
  C10. Every call of the API client reaches its handler. For ids that are plain path segments and a token that
  verifies, each function of \<open>lib/api\<close> is admitted at the endpoint it is meant for, its body passes the
  whitelist, and what it writes is the write of that handler with the caller's identity and
  the function's arguments.
\<close>

theorem api_calls_reach_their_handlers:
  assumes "list_all plain_segment (call_ids c)" and "verify tok = Some p"
  shows "admit verify (api_message (Some tok) c) = Inr (intended_endpoint c,
        if is_public (intended_endpoint c) then None else Some (jwt_validate p))
    \<and> whitelisted (intended_endpoint c) (hm_body (api_message (Some tok) c))
    \<and> api_write env verify dr (api_message (Some tok) c) d
        = (case intended_write dr c of None \<Rightarrow> (d, []) | Some r \<Rightarrow> http_write env (jwt_validate p) r d)"
proof -
  have bearer: "hm_bearer (api_message (Some tok) c) = Some tok" by (cases c) (simp_all add: api_functions)
  have adm: "admit verify (api_message (Some tok) c) = Inr (intended_endpoint c,
      if is_public (intended_endpoint c) then None else Some (jwt_validate p))"
    using assms(2) by (simp add: admit_def call_dispatch [OF assms(1)] bearer jwt_auth_guard_def get_all_and_override_def)
  have wl: "whitelisted (intended_endpoint c) (hm_body (api_message (Some tok) c))"
    by (cases c) (simp_all add: whitelisted_def dto_fields_def with_body_def api_functions)
  have pub: "is_public (intended_endpoint c) \<Longrightarrow> intended_write dr c = None"
    by (cases c) (simp_all add: is_public_def)
  have req: "chat_request dr (intended_endpoint c) (api_message (Some tok) c) = intended_write dr c"
    by (cases c) (simp_all add: chat_request_def with_body_def field_def text_of_def api_functions)
  show ?thesis using adm wl pub by (auto simp: api_write_def req)
qed

text \<open>Witness for C10: Ann edits her first message.\<close>

theorem api_calls_reach_their_handlers_witness:
  "admit (\<lambda>_. Some \<lparr>jp_sub = sample_id 1, jp_email = ''ann@x.com''\<rparr>)
     (api_message (Some ''t'') (EditCall (sample_id 4) (sample_id 8) ''hi''))
   = Inr (EP_edit (sample_id 4) (sample_id 8), Some \<lparr>au_userId = sample_id 1, au_email = ''ann@x.com''\<rparr>)"
proof -
  have "list_all plain_segment (call_ids (EditCall (sample_id 4) (sample_id 8) ''hi''))" by code_simp
  from api_calls_reach_their_handlers [OF this, of "\<lambda>_. Some \<lparr>jp_sub = sample_id 1, jp_email = ''ann@x.com''\<rparr>" "''t''"
      "\<lparr>jp_sub = sample_id 1, jp_email = ''ann@x.com''\<rparr>"]
  show ?thesis by (simp add: is_public_def jwt_validate_def)
qed


definition sample_api_draws :: api_draws where
  "sample_api_draws = \<lparr>ad_id = sample_id 30, ad_id2 = sample_id 31, ad_now = 500\<rparr>"


text \<open>
  C18. A pasted id can leave. The join form sends whatever text was pasted as a part of the path: an
  invitation that reads like a group's id followed by \<open>/leave?\<close> takes the user out of that group instead.
\<close>

theorem pasted_invite_leaves_the_group:
  assumes g: "uuid_re g" and tok: "verify tok = Some p"
  shows "form_submit (g @ ''/leave?'') = Some (g @ ''/leave?'')
    \<and> api_write env verify dr (api_message (Some tok) (JoinCall (g @ ''/leave?''))) d
        = http_write env (jwt_validate p) (Leave g) d"
proof -
  have ne: "g \<noteq> []" using g uuid_re_nonempty by blast
  have ch: "\<not> is_slash c \<and> c \<noteq> CHR ''?'' \<and> c \<noteq> CHR ''#'' \<and> c \<noteq> CHR ''.'' \<and> \<not> js_space c" if "c \<in> set g" for c
    using uuid_re_chars [OF g that] by (auto simp: is_slash_def is_hex_def is_digit_def js_space_def cp_def)
  have "g \<noteq> ''.''" "g \<noteq> ''..''" using ch by auto
  with ne ch have plain: "plain_segment g" by (auto simp: plain_segment_def list_all_iff)
  have "trimmed (g @ ''/leave?'')"
    using ne ch [of "hd g"] by (simp add: trimmed_def) (simp add: js_space_def cp_def)
  then have form: "form_submit (g @ ''/leave?'') = Some (g @ ''/leave?'')"
    by (simp add: form_submit_def js_trim_trimmed)
  have "hm_path (api_message (Some tok) (JoinCall (g @ ''/leave?''))) = joined [''groups'', g, ''leave''] @ ''?/join''"
    by (simp add: api_functions call_to_def joined_def)
  moreover have "backend_path (joined [''groups'', g, ''leave''] @ ''?/join'') = Some [''groups'', g, ''leave'']"
    by (rule backend_path_plain) (simp_all add: plain plain_literals url_path_def)
  ultimately have "admit verify (api_message (Some tok) (JoinCall (g @ ''/leave?''))) = Inr (EP_leave g, Some (jwt_validate p))"
    using tok ne by (simp add: api_functions admit_def dispatch_def route_tables literal_segments is_public_def jwt_auth_guard_def
        get_all_and_override_def)
  with form show ?thesis
    by (simp add: api_functions api_write_def whitelisted_def dto_fields_def chat_request_def)
qed

text \<open>Witness for C18: Cy pastes such an invitation, and is out of the sample group.\<close>

theorem pasted_invite_leaves_the_group_witness:
  "\<exists>d' evs. api_write feed_env (\<lambda>_. Some \<lparr>jp_sub = sample_id 3, jp_email = ''cy@x.com''\<rparr>)
       \<lparr>ad_id = sample_id 12, ad_id2 = sample_id 13, ad_now = 500\<rparr>
       (api_message (Some ''t'') (JoinCall (sample_id 4 @ ''/leave?''))) sample_db = (d', evs)
     \<and> is_member sample_db (sample_id 3) (sample_id 4) \<and> \<not> is_member d' (sample_id 3) (sample_id 4)"
proof -
  have e: "is_member sample_db (sample_id 3) (sample_id 4)"
    "\<not> is_member (fst (http_write feed_env \<lparr>au_userId = sample_id 3, au_email = ''cy@x.com''\<rparr> (Leave (sample_id 4)) sample_db))
        (sample_id 3) (sample_id 4)"
    by code_simp+
  from pasted_invite_leaves_the_group [OF sample_id_uuid(1), of "\<lambda>_. Some \<lparr>jp_sub = sample_id 3, jp_email = ''cy@x.com''\<rparr>"
      "''t''" "\<lparr>jp_sub = sample_id 3, jp_email = ''cy@x.com''\<rparr>" feed_env
      "\<lparr>ad_id = sample_id 12, ad_id2 = sample_id 13, ad_now = 500\<rparr>" sample_db] e
  show ?thesis by (simp add: jwt_validate_def) (metis prod.collapse)
qed

end
