(* ===== verification/Schema.thy ===== *)
theory Schema
  imports Api Auth
begin

text \<open>
  The store under every request of the HTTP API: the sign-in routes next to the chat's, and the invariant
  of the whole database (unique keys, foreign keys, at most one live refresh token per session) under
  whatever message a client may send.
\<close>

section \<open>Every request\<close>

text \<open>The sign-in routes; the others leave the store alone.\<close>

definition auth_write :: "auth_env \<Rightarrow> draws \<Rightarrow> auth_user option \<Rightarrow> endpoint \<Rightarrow> http_message \<Rightarrow> db \<Rightarrow> db" where
  "auth_write aenv r u e msg d = (case e of
     EP_register \<Rightarrow> fst (ctl_register aenv r (field ''email'' (hm_body msg)) (field ''password'' (hm_body msg))
       (field ''name'' (hm_body msg)) d)
   | EP_login \<Rightarrow> fst (ctl_login aenv r (field ''email'' (hm_body msg)) (field ''password'' (hm_body msg)) d)
   | EP_refresh \<Rightarrow> fst (ctl_refresh aenv r (field ''refreshToken'' (hm_body msg)) d)
   | EP_google \<Rightarrow> fst (ctl_google aenv r (field ''idToken'' (hm_body msg)) d)
   | EP_logout \<Rightarrow> fst (ctl_logout aenv (dr_now r) u (field ''refreshToken'' (hm_body msg)) d)
   | _ \<Rightarrow> d)"

definition api_store ::
  "chat_env \<Rightarrow> auth_env \<Rightarrow> (string \<Rightarrow> jwt_payload option) \<Rightarrow> api_draws \<Rightarrow> draws \<Rightarrow> http_message \<Rightarrow> db \<Rightarrow> db" where
  "api_store env aenv verify dr r msg d = (case admit verify msg of
     Inl _ \<Rightarrow> d
   | Inr (e, u) \<Rightarrow> (if \<not> whitelisted e (hm_body msg) then d
       else (case (u, chat_request dr e msg) of
           (Some caller, Some q) \<Rightarrow> fst (http_write env caller q d)
         | _ \<Rightarrow> auth_write aenv r u e msg d)))"

lemma api_store_chat:
  "admit verify msg = Inr (e, Some u) \<Longrightarrow> chat_request dr e msg \<noteq> None \<Longrightarrow>
     api_store env aenv verify dr r msg d = fst (api_write env verify dr msg d)"
  by (auto simp: api_store_def api_write_def)

section \<open>The chat's writes\<close>

definition keeps_store :: "db \<Rightarrow> db \<Rightarrow> bool" where
  "keeps_store d d' \<longleftrightarrow> (db_wf d \<longrightarrow> db_wf d') \<and> db_tokens d' = db_tokens d"

named_theorems keeps_intros \<open>writes that keep the schema and the tokens\<close>

lemma keeps_refl [simp, intro]: "keeps_store d d"
  by (simp add: keeps_store_def)

lemma keeps_trans: "keeps_store d d1 \<Longrightarrow> keeps_store d1 d2 \<Longrightarrow> keeps_store d d2"
  by (simp add: keeps_store_def)

lemma keeps_primitive [keeps_intros]:
  "db_create_group g d = Inr d' \<Longrightarrow> keeps_store d d'"
  "db_create_member m d = Inr d' \<Longrightarrow> keeps_store d d'"
  "db_create_message x d = Inr d' \<Longrightarrow> keeps_store d d'"
  "db_delete_group h d = Inr d' \<Longrightarrow> keeps_store d d'"
  "db_delete_member P d = Inr d' \<Longrightarrow> keeps_store d d'"
  by (auto simp: keeps_store_def intro: inv_intros)
    (auto simp: db_create_group_def db_create_member_def db_create_message_def db_delete_group_def db_delete_member_def
      split: option.splits if_splits)

lemma keeps_set_role [keeps_intros]: "set_role i r d = Inr d' \<Longrightarrow> keeps_store d d'"
  by (auto simp: keeps_store_def intro: set_role_wf) (auto dest: set_role_Inr)

lemma keeps_create: "keeps_store d (fst (groups_create gid mid now u name d))"
  by (auto simp: groups_create_def Let_def split: sum.splits intro: keeps_trans keeps_intros)

lemma keeps_join: "keeps_store d (fst (groups_join mid now u g d))"
  by (auto simp: groups_join_def Let_def split: option.splits sum.splits intro: keeps_intros)

lemma keeps_leave: "keeps_store d (fst (groups_leave u g d))"
  by (auto simp: groups_leave_def leave_write_def split: sum.splits leave_plan.splits
      intro: keeps_intros keeps_trans [OF keeps_set_role])

lemma keeps_transfer: "keeps_store d (fst (transfer_ownership u g t d))"
  by (auto simp: transfer_ownership_def transfer_write_def split: sum.splits intro: keeps_trans [OF keeps_set_role] keeps_intros)

lemma keeps_read_stamp: "db_update_member P (\<lambda>m. m\<lparr>gm_lastReadAt := l\<rparr>) d = Inr d' \<Longrightarrow> keeps_store d d'"
  using db_update_member_wf [of P "\<lambda>m. m\<lparr>gm_lastReadAt := l\<rparr>" d d']
  by (auto simp: keeps_store_def) (auto simp: db_update_member_def split: if_splits)

lemma keeps_mark_read: "keeps_store d (fst (mark_read now u g d))"
  by (auto simp: mark_read_def split: sum.splits intro: keeps_read_stamp)

lemma update_and_emit_tokens: "db_tokens (fst (update_and_emit mid f d)) = db_tokens d"
  by (auto simp: update_and_emit_def Let_def db_update_message_def split: sum.splits option.splits if_splits)

lemma persist_and_emit_tokens: "db_tokens (fst (persist_and_emit row d)) = db_tokens d"
  by (auto simp: persist_and_emit_def Let_def db_create_message_def split: sum.splits option.splits if_splits)

lemma keeps_messages:
  "keeps_store d (fst (messages_create mid now g u c d))"
  "keeps_store d (fst (create_with_attachment mid now g u c att d))"
  "keeps_store d (fst (messages_edit now g m u c d))" "keeps_store d (fst (soft_delete now g m u d))"
  by (simp_all add: keeps_store_def messages_wf)
    (auto simp: messages_create_def create_with_attachment_def messages_edit_def edit_write_def soft_delete_def
      delete_write_def persist_and_emit_tokens update_and_emit_tokens split: sum.splits)

lemma toggle_tokens: "db_tokens (fst (toggle rid now g m u e d)) = db_tokens d"
  by (auto simp: toggle_def toggle_remove_def toggle_add_def toggle_finish_def Let_def db_create_reaction_def
      db_delete_reactions_def split: sum.splits option.splits if_splits prod.splits)

lemma keeps_toggle: "keeps_store d (fst (toggle rid now g m u e d))"
  by (simp add: keeps_store_def toggle_wf toggle_tokens)

lemma keeps_guarded: "(\<And>u i. keeps_store d (fst (h u i))) \<Longrightarrow> keeps_store d (fst (guarded_write user g d h))"
  by (auto simp: guarded_write_def split: sum.splits)

lemmas keeps_service = keeps_create keeps_join keeps_leave keeps_transfer keeps_mark_read keeps_messages keeps_toggle

lemma keeps_http: "keeps_store d (fst (http_write env caller q d))"
proof (cases q)
  case (Upload draw mid now g caption f)
  then show ?thesis
    by (auto simp: written_def msg_upload_def split: sum.splits prod.splits intro: keeps_service)
qed (auto simp: written_def ctl_create_def ctl_join_def ctl_leave_def ctl_mark_read_def ctl_transfer_def msg_create_def
    msg_edit_def msg_remove_def ctl_toggle_def split: option.splits sum.splits intro!: keeps_guarded intro: keeps_service)

section \<open>Properties\<close>

text \<open>
  C9. Every request keeps the store well formed. Whatever HTTP message is sent, with whatever path, body and
  token: if each table had unique keys, every reference a row, and each session at most one live refresh
  token, held by one user, then so it is after the request, on every branch of every handler, given
  only that a drawn family id is new.
\<close>

theorem every_request_keeps_the_store:
  assumes "tokens_inv d" and "fresh_family r d"
  shows "tokens_inv (api_store env aenv verify dr r msg d)"
proof -
  have chat: "tokens_inv d'" if "keeps_store d d'" for d'
    using that assms(1) by (simp add: tokens_inv_def keeps_store_def live_count_def)
  have "tokens_inv (auth_write aenv r u e msg d)" for u e
    using assms(1) auth_inv [OF assms]
    by (auto simp: auth_write_def ctl_register_def ctl_login_def ctl_refresh_def ctl_google_def ctl_logout_def
        respond_def split: endpoint.splits option.splits prod.splits)
  with assms(1) chat [OF keeps_http] show ?thesis
    by (auto simp: api_store_def split: sum.splits prod.splits option.splits)
qed

text \<open>Witness for C9: a login, and the edit of a message, in the sample store.\<close>

theorem every_request_keeps_the_store_witness:
  "tokens_inv (api_store feed_env sample_env (\<lambda>_. None) sample_api_draws sample_draws
     (api_message None (LoginCall ''ann@x.com'' ''password1'')) sample_db)
   \<and> tokens_inv (api_store feed_env sample_env (\<lambda>_. Some \<lparr>jp_sub = sample_id 1, jp_email = ''ann@x.com''\<rparr>) sample_api_draws sample_draws
     (api_message (Some ''t'') (EditCall (sample_id 4) (sample_id 8) ''hi'')) sample_db)"
proof -
  have "tokens_inv sample_db" "fresh_family sample_draws sample_db" by code_simp+
  from every_request_keeps_the_store [OF this] show ?thesis by blast
qed

end
