(* ===== verification/ClientForms.thy ===== *)
theory ClientForms
  imports Schema
begin

text \<open>
  The two forms of the home page (components/groups/group-forms.tsx with useCreateGroup and useJoinGroup of
  lib/queries/groups.ts): the text of the field and the mutation of each as a machine driven by the user and by
  the answers of the server, and what is shown of it.

  The lemmas show that a form has at most one request under way and sends trimmed texts only; the property
  follows what the create form sends into the store.
\<close>

section \<open>The forms\<close>

text \<open>The field, the variables of the pending mutation, and the error of the settled one.\<close>

record name_form =
  nf_text :: string
  nf_request :: "string option"
  nf_error :: "client_error option"

definition blank_form :: name_form where
  "blank_form = \<lparr>nf_text = [], nf_request = None, nf_error = None\<rparr>"

datatype form_event = FormTyped string | FormSubmitted | FormAnswered "client_error option"

text \<open>
  The field and the button are disabled while the mutation is pending, and a form whose button is disabled
  is not submitted by the Enter key either. A field with a \<open>maxLength\<close> does not take a longer text.
  \<open>mutate\<close> forgets the error of the last attempt; a success empties the field.
\<close>

definition type_into :: "nat option \<Rightarrow> string \<Rightarrow> name_form \<Rightarrow> name_form" where
  "type_into limit t f = (if nf_request f \<noteq> None \<or> (case limit of None \<Rightarrow> False | Some n \<Rightarrow> n < length t) then f
     else f\<lparr>nf_text := t\<rparr>)"

definition submit_name :: "name_form \<Rightarrow> name_form \<times> string option" where
  "submit_name f = (if nf_request f \<noteq> None then (f, None)
     else case form_submit (nf_text f) of
         None \<Rightarrow> (f, None)
       | Some t \<Rightarrow> (f\<lparr>nf_request := Some t, nf_error := None\<rparr>, Some t))"

definition name_answered :: "client_error option \<Rightarrow> name_form \<Rightarrow> name_form" where
  "name_answered result f = (if nf_request f = None then f
     else case result of
         None \<Rightarrow> f\<lparr>nf_text := [], nf_request := None\<rparr>
       | Some e \<Rightarrow> f\<lparr>nf_request := None, nf_error := Some e\<rparr>)"

definition name_step :: "nat option \<Rightarrow> form_event \<Rightarrow> name_form \<Rightarrow> name_form \<times> string option" where
  "name_step limit ev f = (case ev of
     FormTyped t \<Rightarrow> (type_into limit t f, None)
   | FormSubmitted \<Rightarrow> submit_name f
   | FormAnswered result \<Rightarrow> (name_answered result f, None))"

definition create_form_step :: "form_event \<Rightarrow> name_form \<Rightarrow> name_form \<times> string option" where
  "create_form_step = name_step (Some client_GROUP_NAME_MAX_LENGTH)"

definition join_form_step :: "form_event \<Rightarrow> name_form \<Rightarrow> name_form \<times> string option" where
  "join_form_step = name_step None"

fun form_run ::
  "(form_event \<Rightarrow> name_form \<Rightarrow> name_form \<times> string option) \<Rightarrow> form_event list \<Rightarrow> name_form \<Rightarrow> name_form \<times> string list" where
  "form_run step [] f = (f, [])"
| "form_run step (ev # evs) f = (case step ev f of (f1, out) \<Rightarrow> (case form_run step evs f1 of
     (f2, outs) \<Rightarrow> (f2, (case out of None \<Rightarrow> outs | Some t \<Rightarrow> t # outs))))"

text \<open>What is shown: the text, whether field and button are disabled, the button's label, the alert.\<close>

record form_view =
  fv_value :: string
  fv_inputDisabled :: bool
  fv_buttonDisabled :: bool
  fv_label :: string
  fv_alert :: "string option"

definition name_form_view :: "string \<Rightarrow> string \<Rightarrow> name_form \<Rightarrow> form_view" where
  "name_form_view idle busy f = \<lparr>fv_value = nf_text f, fv_inputDisabled = (nf_request f \<noteq> None),
     fv_buttonDisabled = (nf_request f \<noteq> None \<or> js_trim (nf_text f) = []),
     fv_label = (if nf_request f \<noteq> None then busy else idle),
     fv_alert = map_option (\<lambda>e. get_api_error_message e ''Something went wrong'') (nf_error f)\<rparr>"

definition create_form_view :: "name_form \<Rightarrow> form_view" where
  "create_form_view = name_form_view ''Create'' ''Creating...''"

definition join_form_view :: "name_form \<Rightarrow> form_view" where
  "join_form_view = name_form_view ''Join'' ''Joining...''"

section \<open>One request at a time\<close>

lemmas name_step_defs = name_step_def type_into_def submit_name_def name_answered_def form_submit_def Let_def

definition within :: "nat option \<Rightarrow> string \<Rightarrow> bool" where
  "within limit t \<longleftrightarrow> (case limit of None \<Rightarrow> True | Some n \<Rightarrow> length t \<le> n)"

lemma within_trim: "within limit t \<Longrightarrow> within limit (js_trim t)"
  using length_js_trim [of t] by (auto simp: within_def split: option.splits)

definition sendable :: "nat option \<Rightarrow> string \<Rightarrow> bool" where
  "sendable limit t \<longleftrightarrow> js_trim t = t \<and> t \<noteq> [] \<and> within limit t"

definition answers :: "form_event list \<Rightarrow> nat" where
  "answers evs = length (filter (\<lambda>ev. case ev of FormAnswered _ \<Rightarrow> True | _ \<Rightarrow> False) evs)"

definition open_requests :: "name_form \<Rightarrow> nat" where
  "open_requests f = (if nf_request f = None then 0 else 1)"

text \<open>A text that is sent is sendable; each sent one but the first was preceded by an answer.\<close>

lemma name_step_ok:
  assumes "name_step limit ev f = (f1, out)" and "within limit (nf_text f)"
  shows "within limit (nf_text f1)" and "\<forall>t. out = Some t \<longrightarrow> sendable limit t"
    and "open_requests f + (if out = None then 0 else 1) \<le> answers [ev] + open_requests f1"
  using assms within_trim [OF assms(2)]
  by (auto simp: name_step_defs sendable_def answers_def open_requests_def within_def
      split: form_event.splits option.splits if_splits)

lemma form_run_ok:
  assumes "form_run (name_step limit) evs f = (f', sent)" and "within limit (nf_text f)"
  shows "within limit (nf_text f') \<and> list_all (sendable limit) sent
    \<and> open_requests f + length sent \<le> answers evs + open_requests f'"
  using assms
proof (induction evs arbitrary: f sent)
  case (Cons ev evs)
  obtain f1 out where s: "name_step limit ev f = (f1, out)" by fastforce
  obtain outs where r: "form_run (name_step limit) evs f1 = (f', outs)" and sent: "sent = (case out of None \<Rightarrow> outs | Some t \<Rightarrow> t # outs)"
    using Cons.prems(1) s by (auto split: prod.splits)
  note ok = name_step_ok [OF s Cons.prems(2)]
  have "answers (ev # evs) = answers [ev] + answers evs" by (simp add: answers_def)
  with Cons.IH [OF r ok(1)] ok(2,3) show ?case by (auto simp: sent split: option.splits)
qed (simp add: answers_def)

text \<open>A refusal leaves the text in the field and shows the backend's words; a success empties the field.\<close>

lemma refused_name_is_kept:
  "nf_request f \<noteq> None \<Longrightarrow> name_answered (Some (failed_request (http_error s m) msg)) f = f' \<Longrightarrow>
     nf_text f' = nf_text f \<and> nf_request f' = None \<and> fv_alert (create_form_view f') = Some m"
  by (auto simp: name_answered_def create_form_view_def name_form_view_def shown_error)

section \<open>What a created group is\<close>

lemma created_group:
  assumes wf: "db_wf d" and user: "has_user d (as_uuid u)"
    and fresh: "\<not> has_group d gid" "\<forall>m \<in> set (db_members d). gm_id m \<noteq> mid"
    and canon: "as_uuid gid = gid"
    and new: "\<forall>g \<in> set (db_groups d). \<not> (g_createdBy g = as_uuid u \<and> g_name g = name)"
  shows "\<exists>d'. groups_create gid mid now u name d
      = (d', Inr \<lparr>g_id = gid, g_name = name, g_createdBy = as_uuid u, g_createdAt = now\<rparr>)
    \<and> db_groups d' = db_groups d @ [\<lparr>g_id = gid, g_name = name, g_createdBy = as_uuid u, g_createdAt = now\<rparr>]
    \<and> db_members d' = db_members d @ [\<lparr>gm_id = mid, gm_groupId = gid, gm_userId = as_uuid u, gm_role = OWNER,
         gm_joinedAt = now, gm_lastReadAt = None\<rparr>]
    \<and> (\<lparr>g_id = gid, g_name = name, g_createdBy = as_uuid u, g_createdAt = now\<rparr>, 1, 0) \<in> set (find_my_groups u d')"
proof -
  let ?u = "as_uuid u"
  let ?g = "\<lparr>g_id = gid, g_name = name, g_createdBy = ?u, g_createdAt = now\<rparr>"
  let ?m = "\<lparr>gm_id = mid, gm_groupId = gid, gm_userId = ?u, gm_role = OWNER, gm_joinedAt = now, gm_lastReadAt = None\<rparr>"
  let ?d = "d\<lparr>db_groups := db_groups d @ [?g], db_members := db_members d @ [?m]\<rparr>"
  have refs: "\<forall>m \<in> set (db_members d). gm_groupId m \<noteq> gid" "\<forall>m \<in> set (db_messages d). ms_groupId m \<noteq> gid"
    using wf fresh(1) by (auto simp: db_wf_def refs_ok_def list_all_iff)
  have "\<not> list_ex (group_clash ?g) (db_groups d)"
    using fresh(1) new by (auto simp: group_clash_def has_group_def list_ex_iff)
  moreover have "\<not> list_ex (member_clash ?m) (db_members d)"
    using fresh(2) refs(1) by (auto simp: member_clash_def list_ex_iff)
  ultimately have "groups_create gid mid now u name d = (?d, Inr ?g)"
    using user by (simp add: groups_create_def db_create_group_def db_create_member_def insert_row_def has_group_def has_user_def Let_def)
  moreover have "(?g, 1, 0) \<in> set (find_my_groups u ?d)"
  proof -
    have "filter (\<lambda>m. gm_groupId m = gid) (db_members d) = []" "filter (\<lambda>m. ms_groupId m = gid) (db_messages d) = []"
      using refs by (simp_all add: filter_empty_conv)
    then have count: "count_where (\<lambda>m. gm_groupId m = gid) (db_members ?d) = 1"
        "count_where (\<lambda>m. ms_groupId m = gid) (db_messages ?d) = 0" by (simp_all add: count_where_def)
    have "is_member ?d u gid" using canon by (simp add: is_member_def)
    then have "(?g, count_where (\<lambda>m. gm_groupId m = gid) (db_members ?d), count_where (\<lambda>m. ms_groupId m = gid) (db_messages ?d))
        \<in> set (find_my_groups u ?d)"
      by (simp add: find_my_groups_def)
    then show ?thesis unfolding count .
  qed
  ultimately show ?thesis by (intro exI [of _ ?d]) simp
qed

section \<open>Properties\<close>

text \<open>
  C22. The create form. However a user types, submits and is answered, no second request is sent before the first
  is answered, and each carries a trimmed text that the DTO accepts. Whenever it reaches the server, it
  makes one group of that name, of which the user is the owner and the only member and which heads into the
  list of the user's groups with one member and no message; if the user has made a group of that
  name before, nothing is written and the answer is the conflict that the form shows.
\<close>

theorem create_form_makes_one_group:
  assumes run: "form_run create_form_step evs blank_form = (f, sent)" and name: "name \<in> set sent"
    and tok: "verify tok = Some p" and wf: "db_wf d" and user: "has_user d (as_uuid (jp_sub p))"
    and fresh: "\<not> has_group d (ad_id dr)" "\<forall>m \<in> set (db_members d). gm_id m \<noteq> ad_id2 dr" "as_uuid (ad_id dr) = ad_id dr"
  shows "length sent \<le> Suc (answers evs) \<and> name \<noteq> [] \<and> js_trim name = name
    \<and> (if list_ex (\<lambda>g. g_createdBy g = as_uuid (jp_sub p) \<and> g_name g = name) (db_groups d)
       then ctl_create (ad_id dr) (ad_id2 dr) (ad_now dr) (jwt_validate p) (JStr name) d
              = (d, Inl (conflict ''You already have a group with this name''))
            \<and> api_store env aenv verify dr r (api_message (Some tok) (CreateGroupCall name)) d = d
       else \<exists>d' g. api_store env aenv verify dr r (api_message (Some tok) (CreateGroupCall name)) d = d'
            \<and> g_name g = name \<and> db_groups d' = db_groups d @ [g] \<and> (g, 1, 0) \<in> set (find_my_groups (jp_sub p) d')
            \<and> db_members d' = db_members d @ [\<lparr>gm_id = ad_id2 dr, gm_groupId = g_id g, gm_userId = as_uuid (jp_sub p),
                 gm_role = OWNER, gm_joinedAt = ad_now dr, gm_lastReadAt = None\<rparr>])"
proof -
  let ?msg = "api_message (Some tok) (CreateGroupCall name)" and ?u = "jp_sub p"
  have "within (Some client_GROUP_NAME_MAX_LENGTH) (nf_text blank_form)" by (simp add: within_def blank_form_def)
  from form_run_ok [OF run [unfolded create_form_step_def] this] name
  have ok: "length sent \<le> Suc (answers evs)" "js_trim name = name" "name \<noteq> []" "length name \<le> 80"
    by (auto simp: open_requests_def blank_form_def list_all_iff list_ex_iff sendable_def within_def
        client_GROUP_NAME_MAX_LENGTH_def split: if_splits)
  then have dto: "create_group_dto (JStr name) = Some name"
    by (simp add: create_group_dto_def trim_value_def bounded_text_def GROUP_NAME_MAX_LENGTH_def Suc_le_eq)
  have adm: "admit verify ?msg = Inr (EP_create, Some (jwt_validate p))"
    using call_dispatch [of "CreateGroupCall name" "Some tok"] tok
    by (simp add: admit_def is_public_def jwt_auth_guard_def get_all_and_override_def api_functions)
  then have store: "api_store env aenv verify dr r ?msg d = fst (groups_create (ad_id dr) (ad_id2 dr) (ad_now dr) ?u name d)"
    by (simp add: api_store_def whitelisted_def dto_fields_def chat_request_def with_body_def field_def api_functions
        ctl_create_def dto jwt_validate_def)
  show ?thesis
  proof (cases "list_ex (\<lambda>g. g_createdBy g = as_uuid ?u \<and> g_name g = name) (db_groups d)")
    case True
    then obtain x where x: "x \<in> set (db_groups d)" "g_createdBy x = as_uuid ?u" "g_name x = name" by (auto simp: list_ex_iff)
    then have "group_clash \<lparr>g_id = ad_id dr, g_name = name, g_createdBy = as_uuid ?u, g_createdAt = ad_now dr\<rparr> x"
      by (simp add: group_clash_def)
    with x(1) have "list_ex (group_clash \<lparr>g_id = ad_id dr, g_name = name, g_createdBy = as_uuid ?u, g_createdAt = ad_now dr\<rparr>) (db_groups d)"
      by (auto simp: list_ex_iff)
    then have "groups_create (ad_id dr) (ad_id2 dr) (ad_now dr) ?u name d = (d, Inl (conflict ''You already have a group with this name''))"
      by (simp add: groups_create_def db_create_group_def insert_row_def translate_p2002_def Let_def)
    with True ok store show ?thesis by (simp add: ctl_create_def dto jwt_validate_def)
  next
    case False
    then have "\<forall>g \<in> set (db_groups d). \<not> (g_createdBy g = as_uuid ?u \<and> g_name g = name)" by (auto simp: list_ex_iff)
    from created_group [OF wf user fresh this, of "ad_now dr"] False ok store show ?thesis by auto
  qed
qed

text \<open>Witness for C22: Ann submits \<open>Books\<close> with blanks around it, presses twice, and has one more group.\<close>

theorem create_form_makes_one_group_witness:
  "snd (form_run create_form_step [FormTyped '' Books '', FormSubmitted, FormSubmitted] blank_form) = [''Books'']
   \<and> (\<exists>g. g_name g = ''Books'' \<and> (g, 1, 0) \<in> set (find_my_groups (sample_id 1)
        (api_store feed_env sample_env (\<lambda>_. Some \<lparr>jp_sub = sample_id 1, jp_email = ''ann@x.com''\<rparr>) sample_api_draws sample_draws
           (api_message (Some ''t'') (CreateGroupCall ''Books'')) sample_db)))"
proof -
  let ?p = "\<lparr>jp_sub = sample_id 1, jp_email = ''ann@x.com''\<rparr>"
  have "snd (form_run create_form_step [FormTyped '' Books '', FormSubmitted, FormSubmitted] blank_form) = [''Books'']"
    by code_simp
  then obtain f where run: "form_run create_form_step [FormTyped '' Books '', FormSubmitted, FormSubmitted] blank_form = (f, [''Books''])"
    by (metis prod.collapse)
  have e: "has_user sample_db (as_uuid (jp_sub ?p))" "\<not> has_group sample_db (ad_id sample_api_draws)"
    "list_all (\<lambda>m. gm_id m \<noteq> ad_id2 sample_api_draws) (db_members sample_db)" "as_uuid (ad_id sample_api_draws) = ad_id sample_api_draws"
    "\<not> list_ex (\<lambda>g. g_createdBy g = as_uuid (jp_sub ?p) \<and> g_name g = ''Books'') (db_groups sample_db)"
    by code_simp+
  from create_form_makes_one_group [OF run _ _ sample_db_wf e(1,2) _ e(4), of "''Books''" "\<lambda>_. Some ?p" "''t''" feed_env sample_env sample_draws]
    e(3,5) run show ?thesis by (auto simp: list_all_iff)
qed

end
