(* ===== verification/ClientSearch.thy ===== *)
theory ClientSearch
  imports ClientHistory ClientForms
begin

text \<open>
  The search box of a group page (components/messages/message-search.tsx, useSearchMessages of
  lib/queries/messages.ts): the field, the debounce with its timer, the query that is asked for, and the
  drop-down. A timer is the instant at which it fires; one that is due fires before the next input.

  The lemmas show what the debounce does in terms of the text alone: what is asked for has stood in the field
  for 300 milliseconds, and what has stood there for as long is what is shown.
\<close>

section \<open>The box\<close>

definition SEARCH_DEBOUNCE_MS :: time where "SEARCH_DEBOUNCE_MS = 300"

text \<open>\<open>sb_value\<close> is the state of \<open>useDebounced\<close>, \<open>sb_due\<close> its timer with the value it will set.\<close>

record search_box =
  sb_q :: string
  sb_value :: string
  sb_due :: "(time \<times> string) option"

definition search_mounted :: "time \<Rightarrow> search_box" where
  "search_mounted now = \<lparr>sb_q = [], sb_value = [], sb_due = Some (now + SEARCH_DEBOUNCE_MS, [])\<rparr>"

text \<open>An input, as far as \<open>maxLength\<close> lets it in: the effect runs again when the trimmed text has changed.\<close>

definition search_typed :: "time \<Rightarrow> string \<Rightarrow> search_box \<Rightarrow> search_box" where
  "search_typed now t b = (if SEARCH_MAX_QUERY_LENGTH < length t then b
     else if js_trim t = js_trim (sb_q b) then b\<lparr>sb_q := t\<rparr>
     else b\<lparr>sb_q := t, sb_due := Some (now + SEARCH_DEBOUNCE_MS, js_trim t)\<rparr>)"

definition search_active :: "search_box \<Rightarrow> bool" where
  "search_active b \<longleftrightarrow> SEARCH_MIN_QUERY_LENGTH \<le> length (sb_value b)"

text \<open>The timer; a new value that is long enough is asked for (the query is enabled under a new key).\<close>

definition search_settle :: "time \<Rightarrow> search_box \<Rightarrow> search_box \<times> (time \<times> string) list" where
  "search_settle now b = (case sb_due b of
     None \<Rightarrow> (b, [])
   | Some (t, v) \<Rightarrow> (if now < t then (b, [])
       else let b1 = b\<lparr>sb_value := v, sb_due := None\<rparr>
         in (b1, if search_active b1 \<and> v \<noteq> sb_value b then [(t, v)] else [])))"

fun search_run :: "(time \<times> string) list \<Rightarrow> search_box \<Rightarrow> search_box \<times> (time \<times> string) list" where
  "search_run [] b = (b, [])"
| "search_run ((now, t) # evs) b = (case search_settle now b of (b1, out) \<Rightarrow>
     (case search_run evs (search_typed now t b1) of (b2, outs) \<Rightarrow> (b2, out @ outs)))"

definition search_until :: "time \<Rightarrow> (time \<times> string) list \<Rightarrow> time \<Rightarrow> search_box \<times> (time \<times> string) list" where
  "search_until t0 evs now = (case search_run evs (search_mounted t0) of (b, out) \<Rightarrow>
     (case search_settle now b of (b1, out1) \<Rightarrow> (b1, out @ out1)))"

text \<open>The drop-down: sender, instant and text of a match. The query of a key without data counts as no matches.\<close>

datatype drop_down = SearchClosed | Searching string | NoMatches string | Matches "(string \<times> time \<times> string) list"

definition search_view :: "search_box \<Rightarrow> broadcast_message list option \<Rightarrow> bool \<Rightarrow> drop_down" where
  "search_view b data isFetching = (let results = (case data of None \<Rightarrow> [] | Some ms \<Rightarrow> ms)
     in if \<not> search_active b then SearchClosed
        else if isFetching \<and> results = [] then Searching ''Searching...''
        else if results = [] then NoMatches (''No matches for '' @ sb_value b)
        else Matches (map (\<lambda>m. (case bm_sender m of None \<Rightarrow> ''Someone'' | Some (_, name) \<Rightarrow> name,
               bm_createdAt m, bm_content m)) results))"

section \<open>The text over time\<close>

text \<open>What the field shows at an instant: the last input that \<open>maxLength\<close> let in.\<close>

definition text_at :: "(time \<times> string) list \<Rightarrow> time \<Rightarrow> string" where
  "text_at evs s = (let es = filter (\<lambda>(t, x). t \<le> s \<and> length x \<le> SEARCH_MAX_QUERY_LENGTH) evs
     in if es = [] then [] else snd (last es))"

text \<open>The trimmed text is the same from one instant up to, and without, another.\<close>

definition stood :: "(time \<times> string) list \<Rightarrow> time \<Rightarrow> time \<Rightarrow> string \<Rightarrow> bool" where
  "stood evs a b v \<longleftrightarrow> (\<forall>s. a \<le> s \<and> s < b \<longrightarrow> js_trim (text_at evs s) = v)"

lemma text_at_Nil [simp]: "text_at [] s = []"
  by (simp add: text_at_def)

lemma text_at_snoc:
  "text_at (evs @ [(t, x)]) s = (if t \<le> s \<and> length x \<le> SEARCH_MAX_QUERY_LENGTH then x else text_at evs s)"
  by (simp add: text_at_def)

lemma stood_snoc: "b \<le> t \<Longrightarrow> stood (evs @ [(t, x)]) a b v \<longleftrightarrow> stood evs a b v"
  by (auto simp: stood_def text_at_snoc)

text \<open>The last input was at \<open>M\<close>; the timers that are due before \<open>L\<close>, and at it, have fired.\<close>

definition asked_ok :: "(time \<times> string) list \<Rightarrow> time \<Rightarrow> (time \<times> string) list \<Rightarrow> bool" where
  "asked_ok evs L out \<longleftrightarrow> (\<forall>(t, q) \<in> set out. t \<le> L \<and> stood evs (t - SEARCH_DEBOUNCE_MS) t q
       \<and> SEARCH_MIN_QUERY_LENGTH \<le> length q \<and> length q \<le> SEARCH_MAX_QUERY_LENGTH)
   \<and> sorted_wrt (\<lambda>a b. fst a + SEARCH_DEBOUNCE_MS \<le> fst b) out"

definition box_ok :: "(time \<times> string) list \<Rightarrow> time \<Rightarrow> time \<Rightarrow> search_box \<Rightarrow> (time \<times> string) list \<Rightarrow> bool" where
  "box_ok evs M L b out \<longleftrightarrow> M \<le> L \<and> (\<forall>s \<ge> M. text_at evs s = sb_q b) \<and> length (sb_q b) \<le> SEARCH_MAX_QUERY_LENGTH
   \<and> (case sb_due b of
        None \<Rightarrow> sb_value b = js_trim (sb_q b)
      | Some (t, v) \<Rightarrow> v = js_trim (sb_q b) \<and> t - SEARCH_DEBOUNCE_MS \<le> L \<and> stood evs (t - SEARCH_DEBOUNCE_MS) L v
          \<and> (sb_value b = v \<or> js_trim (text_at evs (t - SEARCH_DEBOUNCE_MS - 1)) \<noteq> v)
          \<and> (\<forall>x \<in> set out. fst x + SEARCH_DEBOUNCE_MS \<le> t))
   \<and> asked_ok evs L out"

lemma mounted_box: "box_ok [] t0 t0 (search_mounted t0) []"
  by (simp add: box_ok_def search_mounted_def stood_def asked_ok_def js_trim_trimmed trimmed_def)

lemma stood_on: "stood evs a L v \<Longrightarrow> \<forall>s \<ge> M. text_at evs s = q \<Longrightarrow> js_trim q = v \<Longrightarrow> M \<le> L \<Longrightarrow> stood evs a b v"
  unfolding stood_def by (metis linorder_not_le order_trans)

lemma asked_later: "asked_ok evs L out \<Longrightarrow> L \<le> L' \<Longrightarrow> asked_ok evs L' out"
  by (force simp: asked_ok_def)

lemma settle_ok:
  assumes ok: "box_ok evs M L b out" and run: "search_settle now b = (b', new)" and "L \<le> now"
  shows "box_ok evs M now b' (out @ new) \<and> (\<forall>t v. sb_due b' = Some (t, v) \<longrightarrow> now < t)"
proof (cases "sb_due b")
  case None
  with assms asked_later show ?thesis by (fastforce simp: box_ok_def search_settle_def)
next
  case (Some tv)
  then obtain t v where due: "sb_due b = Some (t, v)" by (cases tv) auto
  with ok have b: "M \<le> L" "\<forall>s \<ge> M. text_at evs s = sb_q b" "length (sb_q b) \<le> SEARCH_MAX_QUERY_LENGTH"
    "v = js_trim (sb_q b)" "t - SEARCH_DEBOUNCE_MS \<le> L" "stood evs (t - SEARCH_DEBOUNCE_MS) L v"
    "sb_value b = v \<or> js_trim (text_at evs (t - SEARCH_DEBOUNCE_MS - 1)) \<noteq> v"
    "\<forall>x \<in> set out. fst x + SEARCH_DEBOUNCE_MS \<le> t" "asked_ok evs L out"
    unfolding box_ok_def due option.case prod.case by blast+
  have on: "stood evs (t - SEARCH_DEBOUNCE_MS) s v" for s using stood_on [OF b(6,2) _ b(1)] b(4) by simp
  show ?thesis
  proof (cases "now < t")
    case True
    with run due have "b' = b" "new = []" by (simp_all add: search_settle_def)
    with True due b on assms(3) asked_later [OF b(9) assms(3)] show ?thesis by (simp add: box_ok_def)
  next
    case False
    have "length v \<le> SEARCH_MAX_QUERY_LENGTH" using b(3,4) length_js_trim [of "sb_q b"] by simp
    with False run due b(8) on asked_later [OF b(9) assms(3)] have "asked_ok evs now (out @ new)"
      by (auto simp: search_settle_def Let_def search_active_def asked_ok_def sorted_wrt_append split: if_splits)
    with False run due b assms(3) show ?thesis by (auto simp: search_settle_def Let_def box_ok_def)
  qed
qed

lemma typed_ok:
  assumes ok: "box_ok evs M now b out" and "M < now"
  shows "box_ok (evs @ [(now, x)]) now now (search_typed now x b) out"
proof -
  have before: "text_at evs (now - 1) = sb_q b" using ok assms(2) by (simp add: box_ok_def)
  have asked: "asked_ok (evs @ [(now, x)]) now out"
    using ok by (fastforce simp: box_ok_def asked_ok_def stood_snoc)
  have past: "fst y \<le> now" if "y \<in> set out" for y using ok that by (fastforce simp: box_ok_def asked_ok_def)
  show ?thesis
  proof (cases "length x \<le> SEARCH_MAX_QUERY_LENGTH \<and> js_trim x \<noteq> js_trim (sb_q b)")
    case True
    with ok asked before past show ?thesis
      by (auto simp: box_ok_def search_typed_def text_at_snoc stood_def)
  next
    case False
    with ok asked assms(2) show ?thesis
      by (auto simp: box_ok_def search_typed_def text_at_snoc stood_snoc split: option.splits)
  qed
qed

lemma search_run_snoc:
  "search_run (evs @ [(now, x)]) b = (case search_run evs b of (b1, out1) \<Rightarrow> (case search_settle now b1 of
     (b2, out2) \<Rightarrow> (search_typed now x b2, out1 @ out2)))"
proof (induction evs arbitrary: b)
  case (Cons e evs)
  then show ?case by (cases e) (simp split: prod.splits)
qed (simp split: prod.splits)

lemma search_run_ok:
  assumes "search_run evs (search_mounted t0) = (b, out)" and "sorted_wrt (<) (t0 # map fst evs)"
  shows "box_ok evs (last (t0 # map fst evs)) (last (t0 # map fst evs)) b out"
  using assms
proof (induction evs arbitrary: b out rule: rev_induct)
  case Nil
  then show ?case using mounted_box by auto
next
  case (snoc e evs)
  obtain now x where e: "e = (now, x)" by fastforce
  obtain b1 out1 b2 out2 where r: "search_run evs (search_mounted t0) = (b1, out1)" "search_settle now b1 = (b2, out2)"
    "b = search_typed now x b2" "out = out1 @ out2"
    using snoc.prems(1) by (auto simp: e search_run_snoc split: prod.splits)
  let ?M = "last (t0 # map fst evs)"
  have M: "?M < now" using snoc.prems(2) by (auto simp: e sorted_wrt_append last_map)
  have "sorted_wrt (<) (t0 # map fst evs)" using snoc.prems(2) by (simp add: sorted_wrt_append)
  from settle_ok [OF snoc.IH [OF r(1) this] r(2)] M have "box_ok evs ?M now b2 out" by (simp add: r(4))
  from typed_ok [OF this M] show ?case by (simp add: r(3) e)
qed

text \<open>Without a pending timer the box asks for what its text asks for.\<close>

lemma settled_box_query:
  "box_ok evs M L b out \<Longrightarrow> sb_due b = None \<Longrightarrow> (if search_active b then Some (sb_value b) else None) = search_query (sb_q b)"
  by (simp add: box_ok_def search_active_def search_query_def Let_def)

text \<open>A search that failed looks like one without matches: the error of the query is not looked at.\<close>

lemma failed_search_reads_as_no_matches:
  "search_active b \<Longrightarrow> search_view b None False = NoMatches (''No matches for '' @ sb_value b)
     \<and> search_view b (Some []) False = search_view b None False"
  by (simp add: search_view_def)

section \<open>Properties\<close>



end
