(* ===== verification/ClientControls.thy ===== *)
theory ClientControls
  imports Schema ClientHistory ClientSession "HOL-Library.Word"
begin

text \<open>
  The remaining controls of the browser (components/auth/google-button.tsx, app/(auth), lib/auth/use-require-auth.ts,
  components/groups/members-panel.tsx, components/ui/avatar.tsx): the Google button with the module state
  that its mounts share, the two credential forms down to the handler of their request, the member
  panel with its two mutations, and the colour of an avatar, which is a 32-bit hash.
\<close>

section \<open>The Google button\<close>

text \<open>
  The module variables \<open>gisPromise\<close>, \<open>gisInitialized\<close>, \<open>credentialHandler\<close>, what the page has
  (the script tag, \<open>window.google\<close>), and the mounts: the effects that are not cancelled, and those whose
  continuation of the promise has not run. A mount is named by a number.
\<close>

datatype promise = Pending | Resolved | Rejected

record gis_page =
  gp_clientId :: "string option"
  gp_promise :: "promise option"
  gp_api :: bool
  gp_script :: bool
  gp_initialized :: bool
  gp_handler :: "nat option"
  gp_next :: nat
  gp_mounted :: "nat list"
  gp_waiting :: "nat list"

datatype gis_out = AppendScript | Initialize | RenderButton nat | CallGoogleLogin nat string | ShowError nat

definition fresh_page :: "string option \<Rightarrow> gis_page" where
  "fresh_page clientId = \<lparr>gp_clientId = clientId, gp_promise = None, gp_api = False, gp_script = False,
     gp_initialized = False, gp_handler = None, gp_next = 0, gp_mounted = [], gp_waiting = []\<rparr>"

definition load_gis :: "gis_page \<Rightarrow> gis_page \<times> gis_out list" where
  "load_gis p = (case gp_promise p of
     Some _ \<Rightarrow> (p, [])
   | None \<Rightarrow> (if gp_api p then (p\<lparr>gp_promise := Some Resolved\<rparr>, [])
       else (p\<lparr>gp_promise := Some Pending, gp_script := True\<rparr>, if gp_script p then [] else [AppendScript])))"

definition mount_button :: "gis_page \<Rightarrow> gis_page \<times> gis_out list" where
  "mount_button p = (case gp_clientId p of
     None \<Rightarrow> (p, [])
   | Some _ \<Rightarrow> load_gis (p\<lparr>gp_next := Suc (gp_next p), gp_mounted := gp_next p # gp_mounted p,
       gp_handler := Some (gp_next p), gp_waiting := gp_waiting p @ [gp_next p]\<rparr>))"

definition unmount_button :: "nat \<Rightarrow> gis_page \<Rightarrow> gis_page \<times> gis_out list" where
  "unmount_button i p = (p\<lparr>gp_mounted := removeAll i (gp_mounted p),
     gp_handler := (if gp_handler p = Some i then None else gp_handler p)\<rparr>, [])"

text \<open>The tag fires \<open>load\<close> (after which \<open>window.google\<close> may be there or not) or \<open>error\<close>.\<close>

definition script_settled :: "bool \<Rightarrow> bool \<Rightarrow> gis_page \<Rightarrow> gis_page \<times> gis_out list" where
  "script_settled loaded present p = (if gp_promise p \<noteq> Some Pending then (p, [])
     else (p\<lparr>gp_promise := Some (if loaded then Resolved else Rejected), gp_api := (loaded \<and> present)\<rparr>, []))"

text \<open>The continuation of a mount: \<open>then\<close> or \<open>catch\<close>.\<close>

definition continue_mount :: "nat \<Rightarrow> gis_page \<Rightarrow> gis_page \<times> gis_out list" where
  "continue_mount i p = (if \<not> ListMem i (gp_waiting p) then (p, [])
     else (let p1 = p\<lparr>gp_waiting := removeAll i (gp_waiting p)\<rparr>; here = ListMem i (gp_mounted p) in
       (case gp_promise p of
          Some Resolved \<Rightarrow> (if \<not> here \<or> \<not> gp_api p then (p1, [])
            else (p1\<lparr>gp_initialized := True\<rparr>, (if gp_initialized p then [] else [Initialize]) @ [RenderButton i]))
        | Some Rejected \<Rightarrow> (p1, if here then [ShowError i] else [])
        | _ \<Rightarrow> (p, []))))"

text \<open>The callback given to \<open>initialize\<close>.\<close>

definition on_credential :: "string \<Rightarrow> gis_page \<Rightarrow> gis_page \<times> gis_out list" where
  "on_credential credential p = (p, if \<not> gp_initialized p \<or> credential = [] then []
     else (case gp_handler p of None \<Rightarrow> [] | Some i \<Rightarrow> [CallGoogleLogin i credential]))"

datatype gis_event = MountButton | UnmountButton nat | ScriptSettled bool bool | Continue nat | Credential string

fun gis_step :: "gis_event \<Rightarrow> gis_page \<Rightarrow> gis_page \<times> gis_out list" where
  "gis_step MountButton p = mount_button p"
| "gis_step (UnmountButton i) p = unmount_button i p"
| "gis_step (ScriptSettled loaded present) p = script_settled loaded present p"
| "gis_step (Continue i) p = continue_mount i p"
| "gis_step (Credential c) p = on_credential c p"

fun gis_run :: "gis_event list \<Rightarrow> gis_page \<Rightarrow> gis_page \<times> gis_out list" where
  "gis_run [] p = (p, [])"
| "gis_run (e # es) p = (case gis_step e p of (p1, out) \<Rightarrow> (case gis_run es p1 of (p2, outs) \<Rightarrow> (p2, out @ outs)))"

lemma ListMem_set [simp]: "ListMem x xs \<longleftrightarrow> x \<in> set xs"
  by (simp add: ListMem_iff)

text \<open>The newest mount, if its effect is not cancelled: it owns the credentials.\<close>

definition newest :: "nat \<Rightarrow> nat list \<Rightarrow> nat option" where
  "newest n ms = (case n of 0 \<Rightarrow> None | Suc i \<Rightarrow> (if i \<in> set ms then Some i else None))"

lemma newest_simps [simp]:
  "newest 0 ms = None" "newest (Suc i) (i # ms) = Some i"
  "newest n (removeAll i ms) = (if newest n ms = Some i then None else newest n ms)"
  by (auto simp: newest_def split: nat.splits)

text \<open>What holds of the module state, and what is still allowed to come out.\<close>

definition gis_ok :: "gis_page \<Rightarrow> bool" where
  "gis_ok p \<longleftrightarrow> gp_handler p = newest (gp_next p) (gp_mounted p)
     \<and> (gp_script p \<longleftrightarrow> gp_promise p \<noteq> None) \<and> (gp_api p \<longrightarrow> gp_promise p = Some Resolved)
     \<and> (gp_initialized p \<longrightarrow> gp_promise p = Some Resolved)"

definition shows_google :: "gis_out \<Rightarrow> bool" where
  "shows_google x \<longleftrightarrow> (case x of RenderButton _ \<Rightarrow> True | CallGoogleLogin _ _ \<Rightarrow> True | _ \<Rightarrow> False)"

definition outs_ok :: "gis_page \<Rightarrow> gis_out list \<Rightarrow> bool" where
  "outs_ok p outs \<longleftrightarrow> count_list outs Initialize \<le> (if gp_initialized p then 0 else 1)
     \<and> count_list outs AppendScript \<le> (if gp_script p then 0 else 1)
     \<and> (gp_initialized p \<or> \<not> list_ex shows_google (takeWhile (\<lambda>y. y \<noteq> Initialize) outs))"

lemma mount_button_ok:
  assumes "gis_ok p" and "mount_button p = (p1, out)"
  shows "gis_ok p1 \<and> (outs_ok p1 outs \<longrightarrow> outs_ok p (out @ outs))"
proof (cases "gp_clientId p")
  case (Some cid)
  show ?thesis
  proof (cases "gp_promise p")
    case None
    with assms Some show ?thesis
      by (auto simp: mount_button_def load_gis_def gis_ok_def outs_ok_def shows_google_def)
  next
    case (Some x)
    with assms \<open>gp_clientId p = Some cid\<close> show ?thesis
      by (auto simp: mount_button_def load_gis_def gis_ok_def outs_ok_def)
  qed
qed (use assms in \<open>auto simp: mount_button_def\<close>)

lemma unmount_button_ok:
  "gis_ok p \<Longrightarrow> unmount_button i p = (p1, out) \<Longrightarrow> gis_ok p1 \<and> (outs_ok p1 outs \<longrightarrow> outs_ok p (out @ outs))"
  by (auto simp: unmount_button_def gis_ok_def outs_ok_def)

lemma script_settled_ok:
  "gis_ok p \<Longrightarrow> script_settled l a p = (p1, out) \<Longrightarrow> gis_ok p1 \<and> (outs_ok p1 outs \<longrightarrow> outs_ok p (out @ outs))"
  by (auto simp: script_settled_def gis_ok_def outs_ok_def split: if_splits)

lemma continue_mount_ok:
  assumes "gis_ok p" and "continue_mount i p = (p1, out)"
  shows "gis_ok p1 \<and> (outs_ok p1 outs \<longrightarrow> outs_ok p (out @ outs))"
proof (cases "i \<in> set (gp_waiting p)")
  case True
  show ?thesis
  proof (cases "gp_promise p = Some Resolved \<and> i \<in> set (gp_mounted p) \<and> gp_api p")
    case True
    with assms \<open>i \<in> set (gp_waiting p)\<close> show ?thesis
      by (cases "gp_initialized p") (auto simp: continue_mount_def Let_def gis_ok_def outs_ok_def)
  next
    case False
    with assms \<open>i \<in> set (gp_waiting p)\<close> show ?thesis
      by (auto simp: continue_mount_def Let_def gis_ok_def outs_ok_def shows_google_def
          split: option.splits promise.splits if_splits)
  qed
qed (use assms in \<open>auto simp: continue_mount_def\<close>)

lemma on_credential_ok:
  "gis_ok p \<Longrightarrow> on_credential c p = (p1, out) \<Longrightarrow> gis_ok p1 \<and> (outs_ok p1 outs \<longrightarrow> outs_ok p (out @ outs))"
  by (cases "gp_initialized p"; cases "gp_handler p") (auto simp: on_credential_def outs_ok_def split: if_splits)

lemma gis_step_ok:
  assumes "gis_ok p" and "gis_step e p = (p1, out)"
  shows "gis_ok p1 \<and> (outs_ok p1 outs \<longrightarrow> outs_ok p (out @ outs))"
proof (cases e)
  case MountButton
  with assms show ?thesis by (intro mount_button_ok) simp_all
next
  case (UnmountButton i)
  with assms show ?thesis by (intro unmount_button_ok) simp_all
next
  case (ScriptSettled l a)
  with assms show ?thesis by (intro script_settled_ok) simp_all
next
  case (Continue i)
  with assms show ?thesis by (intro continue_mount_ok) simp_all
next
  case (Credential c)
  with assms show ?thesis by (intro on_credential_ok) simp_all
qed

lemma gis_run_ok: "gis_run es p = (p', outs) \<Longrightarrow> gis_ok p \<Longrightarrow> gis_ok p' \<and> outs_ok p outs"
proof (induction es arbitrary: p outs)
  case Nil
  then show ?case by (simp add: outs_ok_def)
next
  case (Cons e es)
  then obtain p1 out outs' where step: "gis_step e p = (p1, out)" and run: "gis_run es p1 = (p', outs')"
    and outs: "outs = out @ outs'" by (auto split: prod.splits)
  note ok = gis_step_ok [OF Cons.prems(2) step]
  from Cons.IH [OF run ok [THEN conjunct1]] ok outs show ?case by simp
qed

text \<open>Once the script has failed, nothing but error texts comes out.\<close>

lemma failed_step:
  assumes ok: "gis_ok p" and rej: "gp_promise p = Some Rejected" and step: "gis_step e p = (p1, out)"
  shows "gp_promise p1 = Some Rejected \<and> list_all (\<lambda>x. case x of ShowError _ \<Rightarrow> True | _ \<Rightarrow> False) out"
proof -
  have "\<not> gp_initialized p" using ok rej by (auto simp: gis_ok_def)
  with rej step show ?thesis
    by (cases e) (auto simp: mount_button_def load_gis_def unmount_button_def script_settled_def continue_mount_def
        on_credential_def Let_def split: option.splits if_splits)
qed

lemma failed_run:
  "gis_run es p = (p', outs) \<Longrightarrow> gis_ok p \<Longrightarrow> gp_promise p = Some Rejected \<Longrightarrow>
     gp_promise p' = Some Rejected \<and> list_all (\<lambda>x. case x of ShowError _ \<Rightarrow> True | _ \<Rightarrow> False) outs"
proof (induction es arbitrary: p outs)
  case (Cons e es)
  then obtain p1 out outs' where step: "gis_step e p = (p1, out)" and run: "gis_run es p1 = (p', outs')"
    and outs: "outs = out @ outs'" by (auto split: prod.splits)
  note f = failed_step [OF Cons.prems(2,3) step]
  from Cons.IH [OF run gis_step_ok [OF Cons.prems(2) step, THEN conjunct1] f [THEN conjunct1]] f outs show ?case by simp
qed simp

section \<open>The credential forms\<close>

text \<open>
  What the fields hold, and the state of the mutation. The browser validates the fields before the submit
  event: \<open>required\<close>, the lengths, and its own test of an e-mail address (an argument).
\<close>

record credential_form =
  cf_name :: string
  cf_email :: string
  cf_password :: string
  cf_pending :: bool
  cf_error :: "string option"

definition register_valid :: "(string \<Rightarrow> bool) \<Rightarrow> credential_form \<Rightarrow> bool" where
  "register_valid html_email f \<longleftrightarrow> cf_name f \<noteq> [] \<and> length (cf_name f) \<le> 80
     \<and> cf_email f \<noteq> [] \<and> html_email (cf_email f)
     \<and> cf_password f \<noteq> [] \<and> client_PASSWORD_MIN_LENGTH \<le> length (cf_password f)
     \<and> length (cf_password f) \<le> client_PASSWORD_MAX_LENGTH"

definition login_valid :: "(string \<Rightarrow> bool) \<Rightarrow> credential_form \<Rightarrow> bool" where
  "login_valid html_email f \<longleftrightarrow> cf_email f \<noteq> [] \<and> html_email (cf_email f) \<and> cf_password f \<noteq> []"

text \<open>The submit button is disabled while a request is pending.\<close>

definition submit_form :: "bool \<Rightarrow> api_call \<Rightarrow> credential_form \<Rightarrow> credential_form \<times> api_call option" where
  "submit_form valid call f = (if cf_pending f \<or> \<not> valid then (f, None)
     else (f\<lparr>cf_pending := True, cf_error := None\<rparr>, Some call))"

definition submit_register :: "(string \<Rightarrow> bool) \<Rightarrow> credential_form \<Rightarrow> credential_form \<times> api_call option" where
  "submit_register html_email f =
     submit_form (register_valid html_email f) (RegisterCall (cf_email f) (cf_password f) (cf_name f)) f"

definition submit_login :: "(string \<Rightarrow> bool) \<Rightarrow> credential_form \<Rightarrow> credential_form \<times> api_call option" where
  "submit_login html_email f = submit_form (login_valid html_email f) (LoginCall (cf_email f) (cf_password f)) f"

text \<open>The mutation settles: to the list of groups, or an error text.\<close>

definition form_settled :: "client_error option \<Rightarrow> credential_form \<Rightarrow> credential_form \<times> string option" where
  "form_settled result f = (case result of
     None \<Rightarrow> (f\<lparr>cf_pending := False\<rparr>, Some ''/'')
   | Some e \<Rightarrow> (f\<lparr>cf_pending := False, cf_error := Some (get_api_error_message e ''Something went wrong'')\<rparr>, None))"

text \<open>Where the effects of the pages send the visitor: a sign-in page, and a page that requires a session.\<close>

definition sign_in_redirect :: "auth_status \<Rightarrow> string option" where
  "sign_in_redirect status = (if status = Authenticated then Some ''/'' else None)"

definition use_require_auth :: "auth_status \<Rightarrow> string option" where
  "use_require_auth status = (if status = Unauthenticated then Some ''/login'' else None)"

section \<open>The member panel\<close>

record member_panel =
  mp_confirming :: bool
  mp_error :: "string option"
  mp_leaving :: bool
  mp_transferring :: bool

datatype panel_event = AskLeave | CancelLeave | ConfirmLeave | LeaveSettled "client_error option"
  | MakeOwner joined_member | TransferSettled "client_error option"

datatype panel_out = LeaveRequest | TransferRequest uuid | GoHome

definition panel_opened :: member_panel where
  "panel_opened = \<lparr>mp_confirming = False, mp_error = None, mp_leaving = False, mp_transferring = False\<rparr>"

definition settled_error :: "client_error option \<Rightarrow> string option \<Rightarrow> string option" where
  "settled_error result old = (case result of None \<Rightarrow> old | Some e \<Rightarrow> Some (get_api_error_message e ''Something went wrong''))"

fun panel_step :: "uuid \<Rightarrow> joined_member list \<Rightarrow> panel_event \<Rightarrow> member_panel \<Rightarrow> member_panel \<times> panel_out list" where
  "panel_step me members AskLeave p = (p\<lparr>mp_confirming := True\<rparr>, [])"
| "panel_step me members CancelLeave p = (p\<lparr>mp_confirming := False\<rparr>, [])"
| "panel_step me members ConfirmLeave p = (if \<not> mp_confirming p \<or> mp_leaving p then (p, [])
     else (p\<lparr>mp_error := None, mp_leaving := True\<rparr>, [LeaveRequest]))"
| "panel_step me members (LeaveSettled result) p =
     (p\<lparr>mp_leaving := False, mp_error := settled_error result (mp_error p)\<rparr>, if result = None then [GoHome] else [])"
| "panel_step me members (MakeOwner m) p = (case jm_userId m of
     None \<Rightarrow> (p, [])
   | Some u \<Rightarrow> (if \<not> list_ex (\<lambda>x. x = m) members \<or> \<not> offers_transfer me members m \<or> mp_transferring p then (p, [])
       else (p\<lparr>mp_error := None, mp_transferring := True\<rparr>, [TransferRequest u])))"
| "panel_step me members (TransferSettled result) p =
     (p\<lparr>mp_transferring := False, mp_error := settled_error result (mp_error p)\<rparr>, [])"

lemma transfer_requested:
  "panel_step me members e p = (p', [TransferRequest u]) \<Longrightarrow>
     \<exists>m \<in> set members. jm_userId m = Some u \<and> i_am_owner me members \<and> u \<noteq> me"
  by (cases e) (auto simp: offers_transfer_def list_ex_iff split: option.splits if_splits)

lemma shown_member:
  assumes "find_one g d = Inr (grp, ms)" and "db_wf d" and "m \<in> set ms" and "jm_userId m = Some u"
  shows "\<exists>row \<in> set (db_members d). gm_groupId row = as_uuid g \<and> gm_userId row = u \<and> jm_role m = gm_role row"
proof -
  from assms(1,3) obtain row where row: "row \<in> set (db_members d)" "gm_groupId row = as_uuid g" "m = member_select d row"
    by (auto simp: find_one_def split: option.splits)
  with view_userId [OF assms(2) row(1)] assms(4) show ?thesis by (auto simp: member_select_def)
qed

lemma find_membership_row:
  assumes "db_wf d" and "row \<in> set (db_members d)" and "gm_groupId row = as_uuid g" and "gm_userId row = as_uuid u"
  shows "find_membership u g d = Some row"
proof -
  have "is_member d u g" using assms by (auto simp: is_member_def list_ex_iff)
  then obtain r where r: "find_membership u g d = Some r" by (auto simp: is_member_iff)
  from find_membership_SomeD [OF r] same_member_key [OF assms(1) _ assms(2)] assms(3,4) have "r = row" by simp
  with r show ?thesis by simp
qed

section \<open>The colour of an avatar\<close>

text \<open>\<open>>>> 0\<close> reduces the sum to 32 bits after every character.\<close>

definition PALETTE :: "(string \<times> string) list" where
  "PALETTE = [(''#F4C7B8'', ''#8A3B29''), (''#F5D9A8'', ''#87560F''), (''#CBE3C4'', ''#356B3E''),
     (''#BFDCE8'', ''#2F5E70''), (''#DACBEC'', ''#5B4088''), (''#F3C6D2'', ''#8A3350''), (''#CFDCC0'', ''#4F6134'')]"

definition avatar_hash :: "string \<Rightarrow> 32 word" where
  "avatar_hash key = fold (\<lambda>c h. h * 31 + of_nat (cp c)) key 0"

definition pick :: "string \<Rightarrow> string \<times> string" where
  "pick key = PALETTE ! (unat (avatar_hash key) mod length PALETTE)"

text \<open>
  The hash is the polynomial in 31 modulo \<open>2 ^ 32\<close>; the sums that JavaScript computes as doubles stay far
  below \<open>2 ^ 53\<close>, so they are exact; the index is within the palette.
\<close>

lemma avatar_hash_is_exact:
  "uint (avatar_hash key) = fold (\<lambda>c h. h * 31 + int (cp c)) key 0 mod 2 ^ 32"
  "uint (avatar_hash key) * 31 + int (cp c) < 2 ^ 53" "pick key \<in> set PALETTE"
proof -
  have "uint (fold (\<lambda>c h. h * 31 + of_nat (cp c)) key (h :: 32 word)) = fold (\<lambda>c h. h * 31 + int (cp c)) key k mod 2 ^ 32"
    if "uint h = k mod 2 ^ 32" for h k
    using that
  proof (induction key arbitrary: h k)
    case (Cons c cs)
    have "uint (h * 31 + of_nat (cp c)) = (k * 31 + int (cp c)) mod 2 ^ 32"
      using Cons.prems by (simp add: uint_word_ariths take_bit_eq_mod mod_simps unsigned_of_nat zmod_int)
    from Cons.IH [OF this] show ?case by simp
  qed simp
  from this [of 0 0] show "uint (avatar_hash key) = fold (\<lambda>c h. h * 31 + int (cp c)) key 0 mod 2 ^ 32"
    by (simp add: avatar_hash_def)
  have "uint (avatar_hash key) < 2 ^ 32" using uint_bounded [of "avatar_hash key"] by simp
  then have "uint (avatar_hash key) * 31 \<le> (2 ^ 32 - 1) * 31" by simp
  moreover have "int (cp c) < 256" using cp_less [of c] by simp
  ultimately have "uint (avatar_hash key) * 31 + int (cp c) < (2 ^ 32 - 1) * 31 + 256" by linarith
  then show "uint (avatar_hash key) * 31 + int (cp c) < 2 ^ 53" by simp
  show "pick key \<in> set PALETTE" unfolding pick_def by (rule nth_mem) (simp add: PALETTE_def)
qed

section \<open>Properties\<close>

text \<open>
  C15. A transfer that the member panel offers is accepted. The panel lists a group as the server has it; if
  it then asks to make someone the owner, the caller is the owner, the target is another member, and
  the route swaps the roles: it answers neither 403 nor 404 nor 400.
\<close>

theorem offered_transfer_is_accepted:
  assumes "db_wf d" and "find_one g d = Inr (grp, ms)" and "panel_step (au_userId me) ms e p = (p', [TransferRequest u])"
    and "uuid_re g" and "as_uuid (au_userId me) = au_userId me" and "as_uuid u = u" and "valid_uuid u"
  shows "\<exists>d'. ctl_transfer valid_uuid (Some me) g u d
     = (d', [OWNER_CHANGED g (au_userId me) u], Inr (au_userId me, u))"
proof -
  let ?me = "au_userId me"
  obtain m where m: "m \<in> set ms" "jm_userId m = Some u" "i_am_owner ?me ms" "u \<noteq> ?me"
    using transfer_requested [OF assms(3)] by blast
  from m(3) obtain m0 where m0: "m0 \<in> set ms" "jm_userId m0 = Some ?me" "jm_role m0 = OWNER"
    by (auto simp: i_am_owner_def dest: find_SomeD split: option.splits)
  from shown_member [OF assms(2,1) m(1,2)] obtain target where t: "target \<in> set (db_members d)"
    "gm_groupId target = as_uuid g" "gm_userId target = u" by blast
  from shown_member [OF assms(2,1) m0(1,2)] m0(3) obtain caller where c: "caller \<in> set (db_members d)"
    "gm_groupId caller = as_uuid g" "gm_userId caller = ?me" "gm_role caller = OWNER" by auto
  have find: "find_membership ?me g d = Some caller" "find_membership u g d = Some target"
    using find_membership_row [OF assms(1)] c t assms(5,6) by simp_all
  then have "transfer_read ?me g u d = Inr (gm_id target, gm_id caller)" using c(4) by (simp add: transfer_read_def)
  moreover obtain d1 where d1: "set_role (gm_id target) OWNER d = Inr d1" using set_role_member [OF t(1)] by blast
  have "list_ex (\<lambda>x. gm_id x = gm_id caller) (db_members d1)"
    using c(1) set_role_Inr [OF d1] by (simp add: update_keeps_id) (auto simp: list_ex_iff)
  then obtain d2 where d2: "set_role (gm_id caller) MEMBER d1 = Inr d2" by (simp add: set_role_def db_update_member_def)
  ultimately have "transfer_ownership ?me g u d = (d2, [OWNER_CHANGED g ?me u], Inr (?me, u))"
    using d1 m(4) by (simp add: transfer_ownership_def transfer_write_def)
  moreover have "is_member d ?me g" using find(1) by (simp add: is_member_iff)
  ultimately show ?thesis using assms(4,7) by (simp add: ctl_transfer_def guarded_write_member)
qed

text \<open>Witness for C15: Ann's panel makes Bob the owner of the sample group.\<close>

theorem offered_transfer_is_accepted_witness:
  "\<exists>d'. ctl_transfer (\<lambda>_. True) (Some \<lparr>au_userId = sample_id 1, au_email = ''ann@x.com''\<rparr>) (sample_id 4) (sample_id 2) sample_db
     = (d', [OWNER_CHANGED (sample_id 4) (sample_id 1) (sample_id 2)], Inr (sample_id 1, sample_id 2))"
proof -
  let ?me = "\<lparr>au_userId = sample_id 1, au_email = ''ann@x.com''\<rparr>"
  define ms where "ms = (case find_one (sample_id 4) sample_db of Inr (grp, ms) \<Rightarrow> ms | Inl _ \<Rightarrow> [])"
  have "\<not> isl (find_one (sample_id 4) sample_db)" by code_simp
  then obtain grp where one: "find_one (sample_id 4) sample_db = Inr (grp, ms)"
    unfolding ms_def by (cases "find_one (sample_id 4) sample_db") auto
  have "case find_one (sample_id 4) sample_db of Inl _ \<Rightarrow> False | Inr (grp, ms) \<Rightarrow>
      (case List.find (\<lambda>m. jm_userId m = Some (sample_id 2)) ms of None \<Rightarrow> False
       | Some m \<Rightarrow> snd (panel_step (sample_id 1) ms (MakeOwner m) panel_opened) = [TransferRequest (sample_id 2)])"
    by code_simp
  then obtain m where "snd (panel_step (sample_id 1) ms (MakeOwner m) panel_opened) = [TransferRequest (sample_id 2)]"
    using one by (auto split: option.splits)
  then obtain p' where step: "panel_step (au_userId ?me) ms (MakeOwner m) panel_opened = (p', [TransferRequest (sample_id 2)])"
    by (metis prod.collapse auth_user.select_convs(1))
  have "uuid_re (sample_id 4)" "as_uuid (au_userId ?me) = au_userId ?me" "as_uuid (sample_id 2) = sample_id 2"
    by (simp_all add: sample_id_uuid as_uuid_sample)
  from offered_transfer_is_accepted [OF sample_db_wf one step this, of "\<lambda>_. True"] show ?thesis by simp
qed



text \<open>
  C14. The register form down to the handler. A form that the browser lets through sends one request, which the
  API admits without a token; its DTO accepts it exactly if the name is more than blanks and
  the backend agrees that the address is one, of at most 254 characters; then it is the registration of the
  trimmed name under the normalised address, and otherwise the store is as it was.
\<close>

theorem registration_from_the_form:
  assumes "register_valid html_email f" and "\<not> cf_pending f"
  shows "\<exists>call. submit_register html_email f = (f\<lparr>cf_pending := True, cf_error := None\<rparr>, Some call)
    \<and> api_store env aenv verify dr r (api_message tok call) d
      = (case email_field aenv (JStr (cf_email f)) of
           None \<Rightarrow> d
         | Some e \<Rightarrow> (if js_trim (cf_name f) = [] then d
             else fst (auth_register aenv r \<lparr>rd_email = e, rd_password = cf_password f, rd_name = js_trim (cf_name f)\<rparr> d)))"
proof -
  let ?call = "RegisterCall (cf_email f) (cf_password f) (cf_name f)"
  have "admit verify (api_message tok ?call) = Inr (EP_register, None)"
    using call_dispatch [of ?call tok] by (simp add: admit_def is_public_def jwt_auth_guard_def get_all_and_override_def)
  then have "api_store env aenv verify dr r (api_message tok ?call) d
      = fst (ctl_register aenv r (JStr (cf_email f)) (JStr (cf_password f)) (JStr (cf_name f)) d)"
    by (simp add: api_store_def whitelisted_def dto_fields_def auth_write_def register_call_def with_body_def field_def)
  moreover have "length (js_trim (cf_name f)) \<le> 80"
    using assms(1) length_js_trim [of "cf_name f"] by (simp add: register_valid_def)
  moreover have "Suc 0 \<le> length (js_trim (cf_name f)) \<longleftrightarrow> js_trim (cf_name f) \<noteq> []"
    by (simp add: Suc_le_eq)
  ultimately have "api_store env aenv verify dr r (api_message tok ?call) d
      = (case email_field aenv (JStr (cf_email f)) of
           None \<Rightarrow> d
         | Some e \<Rightarrow> (if js_trim (cf_name f) = [] then d
             else fst (auth_register aenv r \<lparr>rd_email = e, rd_password = cf_password f, rd_name = js_trim (cf_name f)\<rparr> d)))"
    using assms(1) by (auto simp: ctl_register_def parse_register_def bounded_text_def trim_value_def register_valid_def
        PASSWORD_MIN_LENGTH_def PASSWORD_MAX_LENGTH_def client_PASSWORD_MIN_LENGTH_def client_PASSWORD_MAX_LENGTH_def
        NAME_MIN_LENGTH_def NAME_MAX_LENGTH_def respond_def split: option.splits)
  with assms show ?thesis by (simp add: submit_register_def submit_form_def)
qed

text \<open>Witness for C14: a form whose name is one blank passes the browser and writes nothing.\<close>

theorem registration_from_the_form_witness:
  "\<exists>call. snd (submit_register (\<lambda>s. CHR ''@'' \<in> set s)
         \<lparr>cf_name = '' '', cf_email = ''dan@x.com'', cf_password = ''password1'', cf_pending = False, cf_error = None\<rparr>) = Some call
     \<and> api_store feed_env sample_env (\<lambda>_. None) sample_api_draws sample_draws (api_message None call) sample_db = sample_db"
proof -
  let ?f = "\<lparr>cf_name = '' '', cf_email = ''dan@x.com'', cf_password = ''password1'', cf_pending = False, cf_error = None\<rparr>"
  have v: "register_valid (\<lambda>s. CHR ''@'' \<in> set s) ?f" "\<not> cf_pending ?f" "js_trim (cf_name ?f) = []" by code_simp+
  from registration_from_the_form [OF v(1,2), of feed_env sample_env "\<lambda>_. None" sample_api_draws sample_draws None sample_db]
  show ?thesis using v(3) by (auto split: option.splits)
qed

end
