(* ===== verification/ClientTyping.thy ===== *)
theory ClientTyping
  imports Gateway
begin

text \<open>
  The typing indicator of a group page (frontend/src/lib/socket/use-typing.ts, the label of
  app/groups/[id]/page.tsx) and the presence list (use-group-room.ts). The hook is a machine driven by
  keystrokes, the page's group, the socket and the events it receives; a timer is the instant at which
  it fires. Timers that are due fire before the next event is handled.

  The lemmas show that the indicator lists exactly the users whose last word is a start of less than
  five seconds ago, that starts and stops alternate, and what the two rules together do to a user
  who types for longer than that.
\<close>

section \<open>The hook\<close>

definition STOP_AFTER :: time where "STOP_AFTER = 2500"
definition EXPIRE_AFTER :: time where "EXPIRE_AFTER = 5000"

datatype typing_emit = TYPING_START uuid | TYPING_STOP uuid

text \<open>
  \<open>ty_expiry\<close> is the map of expiry timers. The stop timer keeps the group of the render that started
  it, for its callback is that render's \<open>stopTyping\<close>.
\<close>

record typing_hook =
  ty_group :: uuid
  ty_socket :: bool
  ty_connected :: bool
  ty_ids :: "uuid list"
  ty_expiry :: "uuid \<rightharpoonup> time"
  ty_started :: bool
  ty_stop :: "(time \<times> uuid) option"

definition mounted :: "uuid \<Rightarrow> bool \<Rightarrow> typing_hook" where
  "mounted g online = \<lparr>ty_group = g, ty_socket = online, ty_connected = online, ty_ids = [],
     ty_expiry = (\<lambda>_. None), ty_started = False, ty_stop = None\<rparr>"

definition forget :: "uuid \<Rightarrow> typing_hook \<Rightarrow> typing_hook" where
  "forget u h = h\<lparr>ty_ids := filter (\<lambda>i. i \<noteq> u) (ty_ids h), ty_expiry := (ty_expiry h)(u := None)\<rparr>"

definition on_typing :: "time \<Rightarrow> uuid \<Rightarrow> uuid \<Rightarrow> bool \<Rightarrow> typing_hook \<Rightarrow> typing_hook" where
  "on_typing now g u typing h = (if g \<noteq> ty_group h then h
     else if typing then h\<lparr>ty_ids := (if u \<in> set (ty_ids h) then ty_ids h else ty_ids h @ [u]),
                           ty_expiry := (ty_expiry h)(u \<mapsto> now + EXPIRE_AFTER)\<rparr>
     else forget u h)"

text \<open>The cleanup of the receiving effect.\<close>

definition detach :: "typing_hook \<Rightarrow> typing_hook" where
  "detach h = h\<lparr>ty_ids := [], ty_expiry := (\<lambda>_. None)\<rparr>"

definition stop_typing :: "uuid \<Rightarrow> bool \<Rightarrow> typing_hook \<Rightarrow> typing_hook \<times> typing_emit list" where
  "stop_typing groupId socket h = (let h1 = h\<lparr>ty_stop := None\<rparr>
     in if \<not> ty_started h1 then (h1, [])
        else (h1\<lparr>ty_started := False\<rparr>, if socket then [TYPING_STOP groupId] else []))"

definition notify_typing :: "time \<Rightarrow> typing_hook \<Rightarrow> typing_hook \<times> typing_emit list" where
  "notify_typing now h = (if \<not> (ty_socket h \<and> ty_connected h) then (h, [])
     else (h\<lparr>ty_started := True, ty_stop := Some (now + STOP_AFTER, ty_group h)\<rparr>,
           if ty_started h then [] else [TYPING_START (ty_group h)]))"

section \<open>Time and events\<close>

definition expired :: "time \<Rightarrow> typing_hook \<Rightarrow> uuid \<Rightarrow> bool" where
  "expired now h u \<longleftrightarrow> (case ty_expiry h u of None \<Rightarrow> False | Some t \<Rightarrow> t \<le> now)"

definition fire_due :: "time \<Rightarrow> typing_hook \<Rightarrow> typing_hook \<times> typing_emit list" where
  "fire_due now h = (let h1 = fold forget (filter (expired now h) (ty_ids h)) h
     in case ty_stop h1 of
          None \<Rightarrow> (h1, [])
        | Some (t, g) \<Rightarrow> (if t \<le> now then stop_typing g True h1 else (h1, [])))"

datatype typing_event = Incoming uuid uuid bool | Keystroke | StopCall | Switch uuid
  | Connected | Disconnected | Closed

definition handle :: "time \<Rightarrow> typing_event \<Rightarrow> typing_hook \<Rightarrow> typing_hook \<times> typing_emit list" where
  "handle now ev h = (case ev of
     Incoming g u typing \<Rightarrow> (if ty_socket h then on_typing now g u typing h else h, [])
   | Keystroke \<Rightarrow> notify_typing now h
   | StopCall \<Rightarrow> stop_typing (ty_group h) (ty_socket h) h
   | Switch g \<Rightarrow> ((detach h)\<lparr>ty_group := g\<rparr>, [])
   | Connected \<Rightarrow> (h\<lparr>ty_socket := True, ty_connected := True\<rparr>, [])
   | Disconnected \<Rightarrow> (h\<lparr>ty_connected := False\<rparr>, [])
   | Closed \<Rightarrow> ((detach h)\<lparr>ty_socket := False, ty_connected := False\<rparr>, []))"

fun hook_run ::
  "(time \<times> typing_event) list \<Rightarrow> typing_hook \<Rightarrow> typing_hook \<times> (time \<times> typing_emit) list" where
  "hook_run [] h = (h, [])"
| "hook_run ((now, ev) # evs) h = (case fire_due now h of (h1, out1) \<Rightarrow> (case handle now ev h1 of
     (h2, out2) \<Rightarrow> (case hook_run evs h2 of
       (h3, out3) \<Rightarrow> (h3, map (Pair now) (out1 @ out2) @ out3))))"

text \<open>What the page shows at an instant, and the label made of the members' names.\<close>

definition typers_at :: "time \<Rightarrow> typing_hook \<Rightarrow> uuid list" where
  "typers_at now h = ty_ids (fst (fire_due now h))"

definition typing_names :: "joined_member list \<Rightarrow> uuid list \<Rightarrow> string list" where
  "typing_names members ids = concat (map (\<lambda>i.
     case List.find (\<lambda>m. map_option fst (jm_user m) = Some i) members of
       None \<Rightarrow> []
     | Some m \<Rightarrow> (case jm_user m of None \<Rightarrow> [] | Some (_, n, _) \<Rightarrow> (if n = [] then [] else [n]))) ids)"

text \<open>The ellipsis of the label is written as three dots.\<close>

definition typing_label :: "string list \<Rightarrow> string" where
  "typing_label names = (case names of
     [a] \<Rightarrow> a @ '' is typing...''
   | [a, b] \<Rightarrow> a @ '' and '' @ b @ '' are typing...''
   | _ \<Rightarrow> ''Several people are typing...'')"

text \<open>The server's relay of an emission of the socket \<open>s\<close>, as the socket \<open>sid\<close> hears it.\<close>

definition relay :: "socket \<Rightarrow> socket list \<Rightarrow> typing_emit \<Rightarrow> deliveries" where
  "relay s ss e = (case e of
     TYPING_START g \<Rightarrow> relay_typing s (Some g) True ss
   | TYPING_STOP g \<Rightarrow> relay_typing s (Some g) False ss)"

definition heard :: "string \<Rightarrow> deliveries \<Rightarrow> typing_event list" where
  "heard sid out = concat (map (\<lambda>(i, ev). case ev of
     EV_USER_TYPING g u b \<Rightarrow> (if i = sid then [Incoming g u b] else []) | _ \<Rightarrow> []) out)"

definition hears ::
  "string \<Rightarrow> socket \<Rightarrow> socket list \<Rightarrow> (time \<times> typing_emit) list \<Rightarrow> (time \<times> typing_event) list" where
  "hears sid s ss out = concat (map (\<lambda>(t, e). map (Pair t) (heard sid (relay s ss e))) out)"

section \<open>Presence\<close>

datatype presence_event = Presence uuid "uuid list" | PresenceReset

definition on_presence :: "uuid \<Rightarrow> presence_event \<Rightarrow> uuid list \<Rightarrow> uuid list" where
  "on_presence groupId ev online = (case ev of
     Presence g userIds \<Rightarrow> (if g = groupId then userIds else online)
   | PresenceReset \<Rightarrow> [])"

section \<open>The timers\<close>

lemma fold_forget:
  "fold forget us h = h\<lparr>ty_ids := filter (\<lambda>i. i \<notin> set us) (ty_ids h),
     ty_expiry := (\<lambda>u. if u \<in> set us then None else ty_expiry h u)\<rparr>"
  by (induction us arbitrary: h) (auto simp: forget_def fun_eq_iff intro!: filter_cong)

definition hook_ok :: "typing_hook \<Rightarrow> bool" where
  "hook_ok h \<longleftrightarrow> distinct (ty_ids h) \<and> (\<forall>u. u \<in> set (ty_ids h) \<longleftrightarrow> ty_expiry h u \<noteq> None)
     \<and> (ty_started h \<longleftrightarrow> ty_stop h \<noteq> None)"

lemma mounted_ok: "hook_ok (mounted g online)"
  by (simp add: hook_ok_def mounted_def)

definition lapse :: "time \<Rightarrow> typing_hook \<Rightarrow> typing_hook" where
  "lapse now h = h\<lparr>ty_ids := filter (\<lambda>u. \<not> expired now h u) (ty_ids h),
     ty_expiry := (\<lambda>u. if expired now h u then None else ty_expiry h u)\<rparr>"

lemma fire_due_lapse:
  assumes "hook_ok h"
  shows "fire_due now h = (case ty_stop h of None \<Rightarrow> (lapse now h, [])
     | Some (t, g) \<Rightarrow> (if t \<le> now
         then ((lapse now h)\<lparr>ty_stop := None, ty_started := False\<rparr>, [TYPING_STOP g]) else (lapse now h, [])))"
proof -
  have "expired now h u \<Longrightarrow> u \<in> set (ty_ids h)" for u
    using assms by (auto simp: hook_ok_def expired_def split: option.splits)
  then have due: "u \<in> set (filter (expired now h) (ty_ids h)) \<longleftrightarrow> expired now h u" for u by auto
  have "filter (\<lambda>u. u \<notin> set (filter (expired now h) (ty_ids h))) (ty_ids h)
      = filter (\<lambda>u. \<not> expired now h u) (ty_ids h)"
    by (rule filter_cong) simp_all
  then have "fold forget (filter (expired now h) (ty_ids h)) h = lapse now h"
    by (simp only: fold_forget lapse_def due)
  then show ?thesis using assms
    by (auto simp: fire_due_def Let_def lapse_def stop_typing_def hook_ok_def split: option.splits)
qed

lemma fire_due_ok: "hook_ok h \<Longrightarrow> hook_ok (fst (fire_due now h))"
  unfolding fire_due_lapse
  by (auto simp: hook_ok_def lapse_def expired_def split: option.splits)

lemma handle_ok: "hook_ok h \<Longrightarrow> hook_ok (fst (handle now ev h))"
  by (cases ev) (auto simp: handle_def hook_ok_def on_typing_def forget_def detach_def notify_typing_def
      stop_typing_def Let_def)

lemma hook_run_snoc:
  "hook_run (evs @ [(t, ev)]) h = (case hook_run evs h of (h1, out1) \<Rightarrow> (case fire_due t h1 of
     (h2, out2) \<Rightarrow> (case handle t ev h2 of (h3, out3) \<Rightarrow> (h3, out1 @ map (Pair t) (out2 @ out3)))))"
proof (induction evs arbitrary: h)
  case (Cons e evs)
  then show ?case by (cases e) (simp split: prod.splits)
qed (simp split: prod.splits)

lemma hook_run_ok: "hook_run evs h = (h', out) \<Longrightarrow> hook_ok h \<Longrightarrow> hook_ok h'"
proof (induction evs arbitrary: h' out rule: rev_induct)
  case (snoc e evs)
  obtain t ev where e: "e = (t, ev)" by fastforce
  from snoc.prems obtain h1 out1 h2 out2 where r: "hook_run evs h = (h1, out1)" "fire_due t h1 = (h2, out2)"
    and h': "h' = fst (handle t ev h2)" by (auto simp: e hook_run_snoc split: prod.splits)
  from r fire_due_ok [OF snoc.IH [OF r(1) snoc.prems(2)], of t] h' show ?case by (simp add: handle_ok)
qed simp

section \<open>Who is typing\<close>

text \<open>
  The reference: what a user said last, in a history with the newest event first; only what was heard
  while a socket was attached counts, and nothing from before the page turned to its group.
\<close>

fun attached :: "bool \<Rightarrow> (time \<times> typing_event) list \<Rightarrow> bool" where
  "attached online [] = online"
| "attached online ((t, ev) # evs) = (case ev of Connected \<Rightarrow> True | Closed \<Rightarrow> False | _ \<Rightarrow> attached online evs)"

fun last_said :: "bool \<Rightarrow> uuid \<Rightarrow> uuid \<Rightarrow> (time \<times> typing_event) list \<Rightarrow> time option" where
  "last_said online g u [] = None"
| "last_said online g u ((t, ev) # evs) = (case ev of
     Incoming g' u' typing \<Rightarrow> (if g' = g \<and> u' = u \<and> attached online evs
        then (if typing then Some t else None) else last_said online g u evs)
   | Switch _ \<Rightarrow> None
   | Closed \<Rightarrow> None
   | _ \<Rightarrow> last_said online g u evs)"

definition standing :: "time \<Rightarrow> time option \<Rightarrow> time option" where
  "standing now said = (case said of None \<Rightarrow> None
     | Some t \<Rightarrow> (if now < t + EXPIRE_AFTER then Some (t + EXPIRE_AFTER) else None))"

definition tracks :: "bool \<Rightarrow> time \<Rightarrow> (time \<times> typing_event) list \<Rightarrow> typing_hook \<Rightarrow> bool" where
  "tracks online now hist h \<longleftrightarrow> hook_ok h \<and> ty_socket h = attached online hist
     \<and> (\<forall>u. ty_expiry h u = standing now (last_said online (ty_group h) u hist))"

lemma tracks_fire_due:
  "tracks online t hist h \<Longrightarrow> t \<le> now \<Longrightarrow> tracks online now hist (fst (fire_due now h))"
  using fire_due_ok [of h now]
  by (auto simp: tracks_def fire_due_lapse lapse_def expired_def standing_def split: option.splits)

lemma tracks_handle:
  "tracks online now hist h \<Longrightarrow> tracks online now ((now, ev) # hist) (fst (handle now ev h))"
  using handle_ok [of h now ev]
  by (cases ev) (auto simp: tracks_def handle_def on_typing_def forget_def detach_def notify_typing_def
      stop_typing_def Let_def standing_def EXPIRE_AFTER_def)

lemma tracks_run:
  assumes "hook_run evs (mounted g online) = (h, out)" and "sorted (map fst evs)" and "\<forall>t \<in> fst ` set evs. t \<le> now"
  shows "\<exists>t \<le> now. tracks online t (rev evs) h"
  using assms
proof (induction evs arbitrary: h out now rule: rev_induct)
  case Nil
  have "tracks online now [] (mounted g online)"
    by (simp add: tracks_def mounted_ok) (simp add: mounted_def standing_def)
  with Nil show ?case by auto
next
  case (snoc e evs)
  obtain t ev where e: "e = (t, ev)" by fastforce
  from snoc.prems(1) obtain h1 out1 h2 out2 where r: "hook_run evs (mounted g online) = (h1, out1)"
    "fire_due t h1 = (h2, out2)" and h: "h = fst (handle t ev h2)" by (auto simp: e hook_run_snoc split: prod.splits)
  have "sorted (map fst evs)" "\<forall>s \<in> fst ` set evs. s \<le> t"
    using snoc.prems(2) by (auto simp: e sorted_append)
  from snoc.IH [OF r(1) this] obtain s where "s \<le> t" "tracks online s (rev evs) h1" by blast
  with tracks_fire_due [of online s "rev evs" h1 t] r(2) have "tracks online t (rev evs) h2" by simp
  from tracks_handle [OF this, of ev] snoc.prems(3) show ?case by (auto simp: h e)
qed

text \<open>
  C21. The typing indicator is exact and heals itself. Whatever a page has been through (events of other groups,
  changes of group, closed and reopened sockets), the users it lists at an instant are, each once,
  those whose last word in this group since the page was attached to it is a start of less than five
  seconds ago.
\<close>

theorem typers_are_the_recent_starts:
  assumes "hook_run evs (mounted g online) = (h, out)" and "sorted (map fst evs @ [now])"
  shows "distinct (typers_at now h) \<and> (u \<in> set (typers_at now h) \<longleftrightarrow>
    (\<exists>t. last_said online (ty_group h) u (rev evs) = Some t \<and> now < t + EXPIRE_AFTER))"
proof -
  have "sorted (map fst evs)" "\<forall>t \<in> fst ` set evs. t \<le> now"
    using assms(2) by (auto simp: sorted_append)
  from tracks_run [OF assms(1) this] obtain t where "t \<le> now" "tracks online t (rev evs) h" by blast
  with tracks_fire_due have "tracks online now (rev evs) (fst (fire_due now h))" by blast
  moreover have "ty_group (fst (fire_due now h)) = ty_group h"
    using \<open>tracks online t (rev evs) h\<close> by (auto simp: tracks_def fire_due_lapse lapse_def split: option.splits)
  ultimately show ?thesis
    by (auto simp: tracks_def hook_ok_def typers_at_def standing_def split: option.splits)
qed

text \<open>Witness for C21: Bob starts, Eve starts and stops; a second later only Bob is listed.\<close>

theorem typers_are_the_recent_starts_witness:
  "''bob'' \<in> set (typers_at 3000 (fst (hook_run [(1000, Incoming ''g'' ''bob'' True),
     (1500, Incoming ''g'' ''eve'' True), (2000, Incoming ''g'' ''eve'' False)] (mounted ''g'' True))))"
proof -
  obtain h out where r: "hook_run [(1000, Incoming ''g'' ''bob'' True), (1500, Incoming ''g'' ''eve'' True),
      (2000, Incoming ''g'' ''eve'' False)] (mounted ''g'' True) = (h, out)" by fastforce
  then have "ty_group h = ''g''"
    by (auto simp: mounted_def fire_due_def handle_def on_typing_def forget_def expired_def EXPIRE_AFTER_def Let_def)
  with typers_are_the_recent_starts [OF r, of 3000 "''bob''"] r show ?thesis
    by (simp add: EXPIRE_AFTER_def)
qed

section \<open>Bursts\<close>

fun alternates :: "bool \<Rightarrow> typing_emit list \<Rightarrow> bool" where
  "alternates started [] \<longleftrightarrow> True"
| "alternates started (TYPING_START g # es) \<longleftrightarrow> \<not> started \<and> alternates True es"
| "alternates started (TYPING_STOP g # es) \<longleftrightarrow> started \<and> alternates False es"

fun after_emits :: "bool \<Rightarrow> typing_emit list \<Rightarrow> bool" where
  "after_emits started [] = started"
| "after_emits started (TYPING_START g # es) = after_emits True es"
| "after_emits started (TYPING_STOP g # es) = after_emits False es"

lemma alternates_append: "alternates b (xs @ ys) \<longleftrightarrow> alternates b xs \<and> alternates (after_emits b xs) ys"
  by (induction b xs rule: alternates.induct) auto

lemma after_emits_append: "after_emits b (xs @ ys) = after_emits (after_emits b xs) ys"
  by (induction b xs rule: alternates.induct) auto

definition bursting :: "typing_hook \<Rightarrow> bool" where
  "bursting h \<longleftrightarrow> hook_ok h \<and> (ty_started h \<longrightarrow> ty_socket h)"

definition emits_ok :: "typing_hook \<Rightarrow> typing_hook \<Rightarrow> typing_emit list \<Rightarrow> bool" where
  "emits_ok h h' es \<longleftrightarrow> bursting h' \<and> alternates (ty_started h) es \<and> ty_started h' = after_emits (ty_started h) es"

lemma emits_ok_append: "emits_ok h h1 xs \<Longrightarrow> emits_ok h1 h2 ys \<Longrightarrow> emits_ok h h2 (xs @ ys)"
  by (auto simp: emits_ok_def alternates_append after_emits_append)

lemma emits_fire_due: "bursting h \<Longrightarrow> fire_due now h = (h', es) \<Longrightarrow> emits_ok h h' es"
  using fire_due_ok [of h now]
  by (auto simp: bursting_def emits_ok_def fire_due_lapse lapse_def hook_ok_def split: option.splits if_splits)

lemma emits_handle:
  "bursting h \<Longrightarrow> ev \<noteq> Closed \<Longrightarrow> handle now ev h = (h', es) \<Longrightarrow> emits_ok h h' es"
  using handle_ok [of h now ev]
  by (cases ev) (auto simp: bursting_def emits_ok_def handle_def on_typing_def forget_def detach_def
      notify_typing_def stop_typing_def Let_def split: if_splits)

lemma emits_run:
  "hook_run evs h = (h', out) \<Longrightarrow> bursting h \<Longrightarrow> Closed \<notin> snd ` set evs \<Longrightarrow> emits_ok h h' (map snd out)"
proof (induction evs arbitrary: h h' out)
  case Nil
  then show ?case by (auto simp: emits_ok_def)
next
  case (Cons e evs)
  obtain t ev where e: "e = (t, ev)" by fastforce
  from Cons.prems(1) obtain h1 es1 h2 es2 out3 where r: "fire_due t h = (h1, es1)" "handle t ev h1 = (h2, es2)"
    "hook_run evs h2 = (h', out3)" and out: "out = map (Pair t) (es1 @ es2) @ out3"
    by (auto simp: e split: prod.splits)
  have 1: "emits_ok h h1 es1" by (rule emits_fire_due [OF Cons.prems(2) r(1)])
  moreover have 2: "emits_ok h1 h2 es2"
    by (rule emits_handle [OF _ _ r(2)]) (use 1 Cons.prems(3) in \<open>auto simp: emits_ok_def e\<close>)
  moreover have "emits_ok h2 h' (map snd out3)"
    by (rule Cons.IH [OF r(3)]) (use 2 Cons.prems(3) in \<open>auto simp: emits_ok_def\<close>)
  ultimately show ?case by (auto simp: out comp_def intro: emits_ok_append)
qed

lemma pending_stop:
  "hook_run evs (mounted g online) = (h, out) \<Longrightarrow> ty_stop h = Some (d, gr) \<Longrightarrow>
     \<exists>t. (t, Keystroke) \<in> set evs \<and> d = t + STOP_AFTER"
proof (induction evs arbitrary: h out d gr rule: rev_induct)
  case Nil
  then show ?case by (auto simp: mounted_def)
next
  case (snoc e evs)
  obtain t ev where e: "e = (t, ev)" by fastforce
  from snoc.prems(1) obtain h1 out1 h2 out2 where r: "hook_run evs (mounted g online) = (h1, out1)"
    "fire_due t h1 = (h2, out2)" and h: "h = fst (handle t ev h2)" by (auto simp: e hook_run_snoc split: prod.splits)
  have "ty_stop h2 = ty_stop h1 \<or> ty_stop h2 = None"
    using r(2) hook_run_ok [OF r(1) mounted_ok] by (auto simp: fire_due_lapse lapse_def split: option.splits if_splits)
  moreover have "ty_stop h = ty_stop h2 \<or> ty_stop h = None \<or> ev = Keystroke \<and> ty_stop h = Some (t + STOP_AFTER, ty_group h2)"
    by (cases ev) (simp_all add: h handle_def on_typing_def forget_def detach_def notify_typing_def stop_typing_def Let_def)
  ultimately have "ty_stop h1 = Some (d, gr) \<or> ev = Keystroke \<and> d = t + STOP_AFTER"
    using snoc.prems(2) by auto
  then show ?case using snoc.IH [OF r(1)] by (auto simp: e)
qed

text \<open>
  Bursts. As long as the provider does not close the socket, what a page emits is start, stop, start, stop,
  and so on, whatever events arrive and however the socket flaps; and 2.5 seconds after the last
  keystroke the last start has had its stop.
\<close>

lemma starts_and_stops_alternate:
  assumes "hook_run evs (mounted g online) = (h, out)" and "Closed \<notin> snd ` set evs"
    and "\<forall>t. (t, Keystroke) \<in> set evs \<longrightarrow> t + STOP_AFTER \<le> now" and "fire_due now h = (h', es)"
  shows "alternates False (map snd out @ es) \<and> \<not> after_emits False (map snd out @ es)"
proof -
  have start: "bursting (mounted g online)" "\<not> ty_started (mounted g online)"
    unfolding bursting_def using mounted_ok by (simp_all add: mounted_def)
  from emits_run [OF assms(1) start(1) assms(2)] have 1: "emits_ok (mounted g online) h (map snd out)" .
  with emits_fire_due [OF _ assms(4)] have 2: "emits_ok h h' es" by (simp add: emits_ok_def)
  have "ty_stop h' = None"
    using assms(3,4) pending_stop [OF assms(1)] hook_run_ok [OF assms(1) mounted_ok]
    by (auto simp: fire_due_lapse lapse_def split: option.splits if_splits)
  with 2 have "\<not> ty_started h'" by (simp add: emits_ok_def bursting_def hook_ok_def)
  with emits_ok_append [OF 1 2] start(2) show ?thesis by (simp add: emits_ok_def)
qed

text \<open>Example: two keystrokes, a pause, one more, and the message is sent.\<close>

lemma starts_and_stops_alternate_example:
  "map snd (snd (hook_run [(0, Keystroke), (900, Keystroke), (9000, Keystroke), (9100, StopCall)] (mounted ''g'' True)))
     = [TYPING_START ''g'', TYPING_STOP ''g'', TYPING_START ''g'', TYPING_STOP ''g'']
   \<and> alternates False (map snd (snd (hook_run [(0, Keystroke), (900, Keystroke), (9000, Keystroke), (9100, StopCall)]
         (mounted ''g'' True))))"
proof -
  obtain h out where r: "hook_run [(0, Keystroke), (900, Keystroke), (9000, Keystroke), (9100, StopCall)]
      (mounted ''g'' True) = (h, out)" by fastforce
  obtain h' es where f: "fire_due 12000 h = (h', es)" by fastforce
  have "map snd out = [TYPING_START ''g'', TYPING_STOP ''g'', TYPING_START ''g'', TYPING_STOP ''g'']"
    using r by (auto simp: mounted_def fire_due_def handle_def notify_typing_def stop_typing_def STOP_AFTER_def Let_def)
  moreover have "alternates False (map snd out @ es)"
    using starts_and_stops_alternate [OF r _ _ f] by (simp add: STOP_AFTER_def)
  ultimately show ?thesis unfolding r by (simp add: alternates_append)
qed

section \<open>A long burst\<close>

fun steady :: "time \<Rightarrow> time list \<Rightarrow> bool" where
  "steady t [] \<longleftrightarrow> True"
| "steady t (k # ks) \<longleftrightarrow> t \<le> k \<and> k < t + STOP_AFTER \<and> steady k ks"

lemma steady_silent:
  assumes "hook_ok h" and "ty_socket h" and "ty_connected h" and "ty_started h"
    and "ty_stop h = Some (t + STOP_AFTER, gr)" and "steady t ks"
  shows "snd (hook_run (map (\<lambda>k. (k, Keystroke)) ks) h) = []"
  using assms
proof (induction ks arbitrary: h t gr)
  case (Cons k ks)
  let ?h = "(lapse k h)\<lparr>ty_started := True, ty_stop := Some (k + STOP_AFTER, ty_group h)\<rparr>"
  from Cons.prems have f: "fire_due k h = (lapse k h, [])" by (simp add: fire_due_lapse)
  from Cons.prems have n: "handle k Keystroke (lapse k h) = (?h, [])"
    by (simp add: handle_def notify_typing_def lapse_def)
  have ok: "hook_ok ?h" using handle_ok [of "lapse k h" k Keystroke] fire_due_ok [OF Cons.prems(1), of k] by (simp add: f n)
  have "snd (hook_run (map (\<lambda>k. (k, Keystroke)) ks) ?h) = []"
    by (rule Cons.IH [OF ok _ _ _ _ conjunct2 [OF conjunct2 [OF Cons.prems(6) [unfolded steady.simps]]]])
      (use Cons.prems in \<open>simp_all add: lapse_def\<close>)
  then show ?case by (simp add: f n split: prod.splits)
qed simp

lemma heard_relay:
  assumes "distinct (map sk_id ss)" and "r \<in> set ss" and "in_room (room_for g) r" and "sk_id r \<noteq> sk_id s"
    and "in_room (room_for g) s" and "g \<noteq> []"
  shows "heard (sk_id r) (relay s ss (TYPING_START g)) = [Incoming g (sk_user s) True]"
proof -
  have one: "filter (\<lambda>x. sk_id x = sk_id r) ss = [r]"
    using assms(1,2)
  proof (induction ss)
    case (Cons x ss)
    have "sk_id x \<notin> sk_id ` set ss" using Cons.prems(1) by simp
    then have "sk_id x = sk_id r \<Longrightarrow> filter (\<lambda>x. sk_id x = sk_id r) ss = []"
      by (auto simp: filter_empty_conv image_iff)
    with Cons show ?case by auto
  qed simp
  have "heard (sk_id r) (map (\<lambda>x. (sk_id x, EV_USER_TYPING g u b)) xs)
      = map (\<lambda>_. Incoming g u b) (filter (\<lambda>x. sk_id x = sk_id r) xs)" for u b and xs :: "socket list"
    by (induction xs) (auto simp: heard_def)
  moreover have "filter (\<lambda>x. sk_id x = sk_id r) (filter (\<lambda>x. in_room (room_for g) x \<and> sk_id x \<noteq> sk_id s) ss)
      = filter (\<lambda>x. in_room (room_for g) x \<and> sk_id x \<noteq> sk_id s) (filter (\<lambda>x. sk_id x = sk_id r) ss)"
    by (simp add: conj_commute)
  ultimately show ?thesis
    using assms(3-6) by (simp add: relay_def relay_typing_def emit_to_others_def one)
qed

text \<open>
  A long burst is lost. Someone types in the room of a group without a pause of 2.5 seconds, for however
  long: the one start of the burst is all that is ever sent, so another member of the room sees them
  typing for five seconds and no longer, though the typing goes on.
\<close>

lemma long_burst_disappears:
  assumes "steady t ks" and "hook_run (map (\<lambda>k. (k, Keystroke)) (t # ks)) (mounted g True) = (h, out)"
    and "distinct (map sk_id ss)" and "r \<in> set ss" and "in_room (room_for g) r" and "sk_id r \<noteq> sk_id s"
    and "in_room (room_for g) s" and "g \<noteq> []" and "t \<le> now"
  shows "out = [(t, TYPING_START g)]
    \<and> (sk_user s \<in> set (typers_at now (fst (hook_run (hears (sk_id r) s ss out) (mounted g True))))
         \<longleftrightarrow> now < t + EXPIRE_AFTER)"
proof -
  let ?h = "(mounted g True)\<lparr>ty_started := True, ty_stop := Some (t + STOP_AFTER, g)\<rparr>"
  have first: "fire_due t (mounted g True) = (mounted g True, [])" "handle t Keystroke (mounted g True) = (?h, [TYPING_START g])"
    by (simp_all add: fire_due_def handle_def notify_typing_def mounted_def)
  have "hook_ok ?h" using handle_ok [OF mounted_ok, of t Keystroke g True] by (simp add: first)
  from steady_silent [OF this _ _ _ _ assms(1)] have "snd (hook_run (map (\<lambda>k. (k, Keystroke)) ks) ?h) = []"
    by (simp add: mounted_def)
  with assms(2) first have out: "out = [(t, TYPING_START g)]" by (auto split: prod.splits)
  have "hears (sk_id r) s ss out = [(t, Incoming g (sk_user s) True)]"
    by (simp add: out hears_def heard_relay [OF assms(3-8)])
  then show ?thesis using out
    by (auto simp: typers_at_def fire_due_def handle_def on_typing_def forget_def expired_def mounted_def Let_def)
qed

text \<open>Example: Ann types a character every two seconds; at six seconds Bob no longer sees it.\<close>

definition ann_socket :: socket where
  "ann_socket = \<lparr>sk_id = ''s1'', sk_user = ''ann'', sk_email = ''a@x'', sk_rooms = [room_for ''g'']\<rparr>"

definition bob_socket :: socket where
  "bob_socket = \<lparr>sk_id = ''s2'', sk_user = ''bob'', sk_email = ''b@x'', sk_rooms = [room_for ''g'']\<rparr>"

lemma long_burst_disappears_example:
  "\<exists>out. snd (hook_run (map (\<lambda>k. (k, Keystroke)) [0, 2000, 4000, 6000]) (mounted ''g'' True)) = out
     \<and> ''ann'' \<notin> set (typers_at 6000 (fst (hook_run (hears ''s2'' ann_socket [ann_socket, bob_socket] out) (mounted ''g'' True))))"
proof -
  obtain h out where r: "hook_run (map (\<lambda>k. (k, Keystroke)) [0, 2000, 4000, 6000]) (mounted ''g'' True) = (h, out)" by fastforce
  have st: "steady 0 [2000, 4000, 6000]" by (simp add: STOP_AFTER_def)
  from long_burst_disappears [OF st r, of "[ann_socket, bob_socket]" bob_socket ann_socket 6000]
  have "''ann'' \<notin> set (typers_at 6000 (fst (hook_run (hears ''s2'' ann_socket [ann_socket, bob_socket] out) (mounted ''g'' True))))"
    by (auto simp: ann_socket_def bob_socket_def in_room_def EXPIRE_AFTER_def)
  then show ?thesis by (intro exI [of _ out] conjI) (simp_all only: r snd_conv not_False_eq_True)
qed

end
