(* ===== verification/ClientViews.thy ===== *)
theory ClientViews
  imports ClientControls ClientTyping
begin

text \<open>
  What the pages show (frontend/src/app/page.tsx, app/groups/[id]/page.tsx, components/groups/group-list.tsx,
  components/messages/message-list.tsx, message-composer.tsx, reaction-chips.tsx, attachment.tsx, members-panel.tsx,
  components/ui/avatar.tsx): each page is a function from the state of its
  queries and hooks to the parts it renders, with their texts and without their markup. Characters
  outside Latin-1 are written in ASCII.

  The property joins them to the server: the chat of a group page is shown to members only, and to
  everyone else the refusal of the membership guard, word for word.
\<close>

section \<open>Queries\<close>

record 'a query =
  q_data :: "'a option"
  q_loading :: bool
  q_error :: "client_error option"

text \<open>A first fetch: under way, or answered by the server (\<open>msg\<close> is axios's own text).\<close>

definition loading_query :: "'a query" where
  "loading_query = \<lparr>q_data = None, q_loading = True, q_error = None\<rparr>"

definition answered_query :: "string \<Rightarrow> exn + 'a \<Rightarrow> 'a query" where
  "answered_query msg answer = (case answer of
     Inl e \<Rightarrow> \<lparr>q_data = None, q_loading = False, q_error = Some (failed_request e msg)\<rparr>
   | Inr x \<Rightarrow> \<lparr>q_data = Some x, q_loading = False, q_error = None\<rparr>)"

definition counted :: "nat \<Rightarrow> string \<Rightarrow> string" where
  "counted n thing = dec n @ '' '' @ thing @ (if n = 1 then [] else ''s'')"

section \<open>The group page\<close>

datatype page_part = Waiting string | BackLink | Alert string
  | Header string string "string option" string string
  | MembersPart | SearchPart | MessagesPart | TypingLine string | ComposerPart

definition group_page ::
  "auth_status \<Rightarrow> group_detail query \<Rightarrow> bool \<Rightarrow> uuid list \<Rightarrow> bool \<Rightarrow> bool \<Rightarrow> bool \<Rightarrow> string list \<Rightarrow> page_part list" where
  "group_page status q connected online copied showMembers hasUser typing = (if status \<noteq> Authenticated then [Waiting ''Loading...'']
     else [BackLink]
       @ (case q_error q of None \<Rightarrow> [] | Some e \<Rightarrow> [Alert (get_api_error_message e ''Couldn't load this group'')])
       @ (case q_data q of None \<Rightarrow> [] | Some g \<Rightarrow>
           [Header (g_name (gd_group g)) (counted (length (gd_members g)) ''member'')
             (if online = [] then None else Some (dec (length online) @ '' online''))
             (if connected then ''Live'' else ''Connecting...'') (if copied then ''Copied'' else ''Copy invite id'')]
           @ (if showMembers \<and> hasUser then [MembersPart] else [])
           @ [SearchPart, MessagesPart]
           @ (if typing = [] then [] else [TypingLine (typing_label typing)])
           @ [ComposerPart])
       @ (if q_loading q then [Waiting ''Loading group...''] else []))"

section \<open>The message list\<close>

datatype list_view = ListWaiting string | ListAlert string
  | ListRows "(string \<times> bool) option" "(string \<times> string) option" "(row_view \<times> string option) list"

text \<open>
  The error and the loading state of the history query; the button above the list with its label and whether it is
  disabled; the hint of an empty list; a row with its seen-by line, which only a bubble has.
\<close>

definition row_with_seen :: "uuid option \<Rightarrow> joined_member list \<Rightarrow> broadcast_message list \<Rightarrow> broadcast_message \<Rightarrow> row_view \<times> string option" where
  "row_with_seen me members messages m = (let view = row_view_of (bm_senderId m = me) m in
     (view, case view of Bubble _ _ _ _ \<Rightarrow> seen_line (seen_by me members messages m) | _ \<Rightarrow> None))"

definition message_list_view ::
  "uuid option \<Rightarrow> joined_member list \<Rightarrow> bool \<Rightarrow> client_error option \<Rightarrow> bool \<Rightarrow> bool \<Rightarrow> broadcast_message list \<Rightarrow> list_view" where
  "message_list_view me members isLoading err hasOlder isLoadingOlder messages =
     (if isLoading then ListWaiting ''Loading messages...''
      else case err of
        Some e \<Rightarrow> ListAlert (get_api_error_message e ''Couldn't load messages'')
      | None \<Rightarrow> ListRows
          (if hasOlder then Some (if isLoadingOlder then ''Loading...'' else ''Load older'', isLoadingOlder) else None)
          (if messages = [] then Some (''No messages yet'', ''Say hello.'') else None)
          (map (row_with_seen me members messages) messages))"

section \<open>The member panel's rows\<close>

text \<open>Name, online mark, role, and whether the button \<open>Make owner\<close> is there.\<close>

definition panel_rows :: "uuid \<Rightarrow> joined_member list \<Rightarrow> uuid list \<Rightarrow> (string \<times> bool \<times> member_role \<times> bool) list" where
  "panel_rows me members online = map (\<lambda>m. case jm_user m of
       None \<Rightarrow> ([], False, jm_role m, False)
     | Some (i, n, _) \<Rightarrow> (n @ (if i = me then '' (you)'' else []), i \<in> set online, jm_role m, offers_transfer me members m))
     members"

section \<open>The home page\<close>

datatype groups_view = GroupsWaiting string | GroupsAlert string | NoGroups string string
  | GroupRows "(string \<times> string \<times> string) list"

definition group_list_view :: "(group_row \<times> nat \<times> nat) list query \<Rightarrow> groups_view" where
  "group_list_view q = (if q_loading q then GroupsWaiting ''Loading your groups...''
     else case q_error q of
       Some e \<Rightarrow> GroupsAlert (get_api_error_message e ''Couldn't load your groups'')
     | None \<Rightarrow> (case q_data q of
         None \<Rightarrow> NoGroups ''No groups yet'' ''Create one above, or paste an invite id to join.''
       | Some gs \<Rightarrow> (if gs = [] then NoGroups ''No groups yet'' ''Create one above, or paste an invite id to join.''
           else GroupRows (map (\<lambda>(g, members, messages). (''/groups/'' @ g_id g, g_name g,
             counted members ''member'' @ '' - '' @ counted messages ''message'')) gs))))"

definition home_title :: "string option \<Rightarrow> string" where
  "home_title name = (case map_option (takeWhile (\<lambda>c. \<not> js_space c)) name of
     None \<Rightarrow> ''Your groups'' | Some first \<Rightarrow> (if first = [] then ''Your groups'' else ''Hey, '' @ first))"

section \<open>The composer's parts\<close>

text \<open>The alert, the button of the file field with its label, the text area, and whether sending is disabled.\<close>

record composer_parts =
  cv_alert :: "string option"
  cv_attachDisabled :: bool
  cv_attachLabel :: string
  cv_text :: string
  cv_sendDisabled :: bool

definition composer_view :: "bool \<Rightarrow> composer \<Rightarrow> composer_parts" where
  "composer_view connected c = \<lparr>cv_alert = (case cp_error c of None \<Rightarrow> None | Some t \<Rightarrow> if t = [] then None else Some t),
     cv_attachDisabled = cp_uploading c, cv_attachLabel = (if cp_uploading c then ''...'' else ''(clip)''),
     cv_text = cp_content c, cv_sendDisabled = (cp_sending c \<or> \<not> connected \<or> js_trim (cp_content c) = [])\<rparr>"

text \<open>Enter sends, Shift and Enter is a new line of the text area; the button sends by the submit event.\<close>

definition composer_key :: "uuid \<Rightarrow> bool \<Rightarrow> bool \<Rightarrow> bool \<Rightarrow> composer \<Rightarrow> composer \<times> composer_out list" where
  "composer_key groupId online enter shift c = (if enter \<and> \<not> shift then submit groupId online c else (c, []))"

text \<open>The button is enabled exactly when a submit sends, and Enter does what the button would do.\<close>

lemma send_button_is_exact:
  "cv_sendDisabled (composer_view connected c) \<longleftrightarrow> snd (submit groupId connected c) = []"
  "composer_key groupId connected True False c = submit groupId connected c"
  by (auto simp: composer_view_def submit_def composer_key_def Let_def)

section \<open>Chips, attachments, initials\<close>

text \<open>The row of chips: none without reactions; on the right under an own message.\<close>

definition chips_view :: "(string \<times> uuid) list \<Rightarrow> uuid option \<Rightarrow> bool \<Rightarrow> (bool \<times> (string \<times> nat \<times> bool) list) option" where
  "chips_view reactions me isOwn = (let agg = aggregate reactions me
     in if agg = [] then None else Some (isOwn, map (\<lambda>c. (ch_emoji c, ch_count c, ch_mine c)) agg))"

lemma chips_shown: "chips_view reactions me isOwn = None \<longleftrightarrow> reactions = []"
  by (auto simp: chips_view_def Let_def aggregate_chips js_unique_def)

text \<open>An image with its alternative text, or a link with its label; both open the URL.\<close>

datatype attachment_view = ImagePart string string | FilePart string string

definition attachment_part :: "string \<Rightarrow> string option \<Rightarrow> string option \<Rightarrow> attachment_view" where
  "attachment_part url name mime =
     (if (case mime of None \<Rightarrow> False | Some t \<Rightarrow> take 6 t = ''image/'')
      then ImagePart url (case name of None \<Rightarrow> ''attachment'' | Some n \<Rightarrow> n)
      else FilePart url (case name of None \<Rightarrow> ''Download file'' | Some n \<Rightarrow> n))"

text \<open>
  What is stored, sent to the bucket and shown is the type that the uploader declared. The pipe looks at the type
  that the bytes have, so the two need not agree: a page that begins like a PNG is accepted, and the bucket
  is told to serve it as what it was declared to be.
\<close>

lemma declared_type_reaches_the_bucket:
  assumes "detect (uf_buffer f) = Some ''image/png''" and "uf_size f < MAX_UPLOAD_BYTES" and "configured st"
    and "uf_mimetype f \<noteq> []" and run: "storage_upload st draw g f = (reqs, Inr sf)"
  shows "parse_file_pipe detect (Some f) = Inr f \<and> sf_mime sf = uf_mimetype f
    \<and> (\<exists>url. reqs = [SupabasePost url (uf_mimetype f) (uf_buffer f)])"
  using assms by (auto simp: parse_file_pipe_def allowed_upload_mime_def storage_upload_def upload_to_supabase_def Let_def
      split: storage_answer.splits)

text \<open>The words of a name, and the upper case of a character as code points (three leave Latin-1).\<close>

fun js_words :: "string \<Rightarrow> string list" where
  "js_words [] = []"
| "js_words (c # cs) = (if js_space c then js_words cs
     else case cs of
         [] \<Rightarrow> [[c]]
       | d # _ \<Rightarrow> (if js_space d then [c] # js_words cs
           else case js_words cs of [] \<Rightarrow> [[c]] | w # ws \<Rightarrow> (c # w) # ws))"

definition upper_cp :: "char \<Rightarrow> nat list" where
  "upper_cp c = (let n = cp c in
     if n = 181 then [924] else if n = 223 then [83, 83] else if n = 255 then [376]
     else if (97 \<le> n \<and> n \<le> 122) \<or> (224 \<le> n \<and> n \<noteq> 247) then [n - 32] else [n])"

definition initials :: "string \<Rightarrow> nat list" where
  "initials name = (case js_words (js_trim name) of
     [] \<Rightarrow> [63]
   | w # ws \<Rightarrow> concat (map upper_cp (hd w # (if ws = [] then [] else [hd (last ws)]))))"

lemma js_words_nonempty: "w \<in> set (js_words s) \<Longrightarrow> w \<noteq> [] \<and> list_all (\<lambda>c. \<not> js_space c) w"
proof (induction s arbitrary: w)
  case (Cons c cs)
  define ws where "ws = js_words cs"
  have "js_words (c # cs) = (if js_space c then ws
      else if cs = [] then [[c]] else if js_space (hd cs) then [c] # ws
      else case ws of [] \<Rightarrow> [[c]] | v # vs \<Rightarrow> (c # v) # vs)"
    by (cases cs) (simp_all add: ws_def)
  with Cons.prems Cons.IH [folded ws_def] show ?case by (auto simp del: js_words.simps split: if_splits list.splits)
qed simp

text \<open>One or two letters, but for the sharp s; a name of blanks gets a question mark.\<close>

lemma initials_length: "1 \<le> length (initials name) \<and> length (initials name) \<le> 4"
proof -
  have u: "1 \<le> length (upper_cp c)" "length (upper_cp c) \<le> 2" for c by (simp_all add: upper_cp_def Let_def)
  show ?thesis
  proof (cases "js_words (js_trim name)")
    case (Cons w ws)
    show ?thesis using u [of "hd w"] u [of "hd (last ws)"] by (simp add: initials_def Cons)
  qed (simp add: initials_def)
qed

lemma initials_examples: "initials ''  ann  b. lee '' = [65, 76]" "initials ''bob'' = [66]" "initials ''  '' = [63]"
  by code_simp+

section \<open>The copy button and the toggle of the panel\<close>

text \<open>Every successful copy starts a timer of its own, and each of them takes the mark away.\<close>

definition COPIED_MS :: time where "COPIED_MS = 1500"

record copy_button =
  cb_copied :: bool
  cb_timers :: "time list"

definition not_copied :: copy_button where
  "not_copied = \<lparr>cb_copied = False, cb_timers = []\<rparr>"

definition copy_done :: "time \<Rightarrow> copy_button \<Rightarrow> copy_button" where
  "copy_done now b = \<lparr>cb_copied = True, cb_timers = cb_timers b @ [now + COPIED_MS]\<rparr>"

definition copy_tick :: "time \<Rightarrow> copy_button \<Rightarrow> copy_button" where
  "copy_tick now b = (if list_ex (\<lambda>t. t \<le> now) (cb_timers b)
     then \<lparr>cb_copied = False, cb_timers = filter (\<lambda>t. now < t) (cb_timers b)\<rparr> else b)"

fun copy_run :: "time list \<Rightarrow> copy_button \<Rightarrow> copy_button" where
  "copy_run [] b = b"
| "copy_run (now # ts) b = copy_run ts (copy_done now (copy_tick now b))"

text \<open>The mark of one copy stays for a second and a half; a second copy in that time does not prolong it.\<close>

lemma copy_mark:
  assumes "t1 \<le> now"
  shows "cb_copied (copy_tick now (copy_run [t1] not_copied)) \<longleftrightarrow> now < t1 + 1500"
  using assms by (simp add: copy_tick_def copy_done_def not_copied_def COPIED_MS_def)

lemma copy_mark_is_not_prolonged:
  assumes "t1 < t2" and "t2 < t1 + 1500" and "t1 + 1500 \<le> now" and "now < t2 + 1500"
  shows "\<not> cb_copied (copy_tick now (copy_run [t1, t2] not_copied))"
  using assms by (simp add: copy_tick_def copy_done_def not_copied_def COPIED_MS_def)

datatype panel_toggle = PressMembers | ClosePanel

definition show_members :: "panel_toggle \<Rightarrow> bool \<Rightarrow> bool" where
  "show_members ev shown = (case ev of PressMembers \<Rightarrow> \<not> shown | ClosePanel \<Rightarrow> False)"

section \<open>Properties\<close>

definition as_detail :: "group_row \<times> joined_member list \<Rightarrow> group_detail" where
  "as_detail p = \<lparr>gd_group = fst p, gd_members = snd p\<rparr>"

text \<open>
  C13. The chat is on the page of members only. When the fetch of a group page has been answered, a signed-in
  visitor sees the message list and the composer exactly if the visitor is a member and the address holds
  a UUID; everyone else sees the link back and one line, the text of the membership guard, which is the same
  for a foreign group, a missing one and a malformed id.
\<close>

theorem group_page_is_for_members:
  assumes "db_wf d"
  shows "let page = group_page Authenticated (answered_query msg (map_sum id as_detail (ctl_find_one (Some u) g d)))
           connected online copied showMembers True typing
     in if is_member d (au_userId u) g \<and> uuid_re g
        then hd page = BackLink \<and> MessagesPart \<in> set page \<and> ComposerPart \<in> set page \<and> (\<forall>t. Alert t \<notin> set page)
        else page = [BackLink, Alert NOT_A_MEMBER_MESSAGE]"
proof (cases "is_member d (au_userId u) g \<and> uuid_re g")
  case True
  then have "ctl_find_one (Some u) g d = find_one g d"
    by (simp add: ctl_find_one_def db_rule.guarded_member)
  moreover obtain m where m: "m \<in> set (db_members d)" "gm_groupId m = as_uuid g"
    using True by (auto simp: is_member_def list_ex_iff)
  then have "has_group d (as_uuid g)" using member_has_group [OF assms m(1)] by simp
  then have "find_group g d \<noteq> None" by (auto simp: find_group_def has_group_def list_ex_iff find_None_iff)
  ultimately obtain p where "ctl_find_one (Some u) g d = Inr p" by (auto simp: find_one_def)
  with True show ?thesis by (simp add: group_page_def answered_query_def Let_def)
next
  case False
  then have "ctl_find_one (Some u) g d = Inl (forbidden NOT_A_MEMBER_MESSAGE)"
    by (simp add: ctl_find_one_def db_rule.guarded_denied)
  moreover have "get_api_error_message (failed_request (forbidden m) msg) t = m" for m t
    by (rule shown_error)
  ultimately show ?thesis using False by (simp add: group_page_def answered_query_def)
qed

text \<open>Witness for C13: Bob's page of the sample group, and what Dan, who is in no group, sees there.\<close>

theorem group_page_is_for_members_witness:
  "MessagesPart \<in> set (group_page Authenticated (answered_query [] (map_sum id as_detail
       (ctl_find_one (Some \<lparr>au_userId = sample_id 2, au_email = ''bob@x.com''\<rparr>) (sample_id 4) sample_db))) True [] False False True [])
   \<and> group_page Authenticated (answered_query [] (map_sum id as_detail
       (ctl_find_one (Some \<lparr>au_userId = sample_id 11, au_email = ''dan@x.com''\<rparr>) (sample_id 4) sample_db))) True [] False False True []
     = [BackLink, Alert NOT_A_MEMBER_MESSAGE]"
proof -
  have m: "is_member sample_db (sample_id 2) (sample_id 4)" "\<not> is_member sample_db (sample_id 11) (sample_id 4)"
    "uuid_re (sample_id 4)" by code_simp+
  show ?thesis
    using group_page_is_for_members [OF sample_db_wf, of "[]" "\<lparr>au_userId = sample_id 2, au_email = ''bob@x.com''\<rparr>" "sample_id 4"
        True "[]" False False "[]"]
      group_page_is_for_members [OF sample_db_wf, of "[]" "\<lparr>au_userId = sample_id 11, au_email = ''dan@x.com''\<rparr>" "sample_id 4"
        True "[]" False False "[]"] m
    by (simp add: Let_def)
qed

end
