(* ===== verification/Spec2Isabelle.thy ===== *)
theory Spec2Isabelle
  imports Config Summaries Health ClientSocket ClientDelivery ClientSearch ClientViews
begin

text \<open>
  A verification library for the group chat: a NestJS backend (backend/src) with PostgreSQL through
  Prisma, Redis queues for AI summaries, a Socket.IO gateway, and a Next.js client (frontend/src).

  \<^bold>\<open>The program and its parts.\<close> HTTP controllers check their DTOs and call services; the services issue
  Prisma queries and, after a write has committed, emit domain events in the process; the chat gateway
  turns the events into broadcasts to the sockets of a room, one room per group. A worker process
  ticks, enqueues one flow of five jobs per active group, and ends by broadcasting a summary through the
  same room. The browser keeps two tokens in localStorage, refreshes them when a request fails with 401,
  loads a group over HTTP and then follows it by patching its query cache from the socket's events.

  \<^bold>\<open>Theories.\<close>
  \<^item> \<open>Prelude\<close>: row operations over a table (a list of records), \<open>find\<close>, \<open>update\<close>, \<open>delete\<close>, ordering;
    the interface \<open>unique_rows\<close> of a table with unique keys.
  \<^item> \<open>Text\<close>: JavaScript values, \<open>trim\<close>, \<open>toLowerCase\<close>, e-mail normalisation, UUID test, durations
    (common/utils).
  \<^item> \<open>HttpErrors\<close>: exceptions, the Prisma error mapping, the catch-all filter, the response envelope, the
    UUID pipe and the JWT guard (common/filters, common/interceptors, common/http, auth/guards).
  \<^item> \<open>Database\<close>: the six tables of prisma/schema.prisma and the writes of the services with their unique
    keys, foreign keys and cascades; each table interprets \<open>unique_rows\<close>. \<open>db_wf\<close> is the schema's
    invariant; every write keeps it.
  \<^item> \<open>Events\<close>: the domain events and the projections of a row that the API and the socket share.
  \<^item> \<open>ChatGroups\<close>: GroupsService, the membership guard and the routes of groups. A transaction is split at
    the awaits between its read and its write where an interleaving matters. The interface
    \<open>membership_rule\<close> is what the guard of every group route relies on; the service's check interprets it.
  \<^item> \<open>Cursor\<close>: the pagination cursor: base64url, JSON and ISO dates; the interface \<open>codec\<close>.
  \<^item> \<open>Storage\<close>: attachments: names, extensions, both upload backends.
  \<^item> \<open>Messages\<close>: MessagesService and its routes; the interface \<open>keyset\<close> (a query below a key of a
    descending history) gives the pagination its properties.
  \<^item> \<open>Reactions\<close>: the toggle, split at its awaits.
  \<^item> \<open>Gateway\<close> and \<open>Feed\<close>: handshake, presence, the handlers and broadcasts of ChatGateway; then the
    whole chat as a step relation \<open>chat_step\<close> labelled with the request.
  \<^item> \<open>Tokens\<close>: TokenService: issue, rotation with reuse detection, logout, purge; concurrent refreshes as a
    step relation with one program counter per request; the interface \<open>session_families\<close>.
  \<^item> \<open>Auth\<close>: registration, login, Google login, refresh, logout, the user entity.
  \<^item> \<open>Queues\<close>, \<open>Config\<close>, \<open>Summaries\<close>, \<open>Health\<close>: the queue contract, the validated environment with the boot of the API process
    (main.ts, redis-io.adapter.ts), the five stages of a summary flow with the tick above them, and the two health routes.
  \<^item> \<open>ClientCache\<close>, \<open>ClientSync\<close>: the browser's query cache, its socket handlers and the list that the
    page shows; what every write of the server and the events it emits do to both.
  \<^item> \<open>ClientHistory\<close>, \<open>ClientRuns\<close>: the first load and the older pages of a group; runs of a client next to
    the chat, in which its cache simulates the server's store.
  \<^item> \<open>ClientRoom\<close>: the room hook; loading older pages to the end; a page that is opened again; what is missed
    between the first fetch and the join of the room.
  \<^item> \<open>ClientSession\<close>: the axios interceptors with the single-flight refresh, the stores of
    tokens and user, the authentication status.
  \<^item> \<open>ClientSocket\<close>: the life of the socket of a visitor who is signed in (socket-provider.tsx).
  \<^item> \<open>ClientTyping\<close>: the typing hook with its two kinds of timers, and the presence list.
  \<^item> \<open>ClientPage\<close>: what the controls of a group page compute and request: chips, seen-by line, message rows
    with their editor, the composer, error texts and the limits copied from the backend.
  \<^item> \<open>ClientDelivery\<close>: from the composer of one browser to the message list of another.
  \<^item> \<open>Api\<close>: from a call of the browser's API client to the handler: URLs, the rewrite of \<open>/api\<close>, the route
    tables of the controllers, the global guard, the whitelist of body fields.
  \<^item> \<open>Schema\<close>: the whole store under any HTTP message, sign-in routes included.
  \<^item> \<open>ClientForms\<close>, \<open>ClientSearch\<close>: the forms that create and join a group, down to the group that is made; the
    search box with the timer of its debounce.
  \<^item> \<open>ClientControls\<close>, \<open>ClientViews\<close>: the Google button, the credential forms, the member panel, the colour of
    an avatar; what the home page, the group page, the message list, the composer and an attachment render.

  \<^bold>\<open>State and effects.\<close> A service operation takes the store and returns the new store with an exception
  (\<open>Inl\<close>) or a value (\<open>Inr\<close>), and the events it emits; ids drawn by the database or by Node, the clock,
  and the answers of libraries outside the repository are arguments. The exceptions carry the status and
  code that the filter sends. Queries name rows by uuid columns, which PostgreSQL compares in lower
  case; text that is not a uuid is refused where the code refuses it.

  \<^bold>\<open>What the lemmas show.\<close> For each operation: what it does on every branch, errors included; that it
  keeps the invariants of the store (\<open>db_wf\<close>, \<open>groups_inv\<close>, \<open>chat_inv\<close>, \<open>world_inv\<close>). Across
  operations: messages reach members only; the cache of a browser simulates the store; a session that
  ended stays ended; two refreshes never both succeed with one token; reading the cursors gives the whole
  history once; what a control of the page asks for is what the server then does or refuses; no HTTP message
  breaks the schema. Negative
  results are stated the same way: executions in which an interleaving or an unusual spelling of an id
  breaks what a comment promises, evaluated in full.

  \<^bold>\<open>Bounds and fuel.\<close> \<open>walk\<close>, which follows the cursors, takes a number of pages; the property shows that
  the number of messages is enough. \<open>click_older\<close> takes a number of clicks on \<open>Load older\<close>, and again the
  number of messages is enough (\<open>loading_older_ends\<close>). The JSON reader of the cursor takes the length of the text as fuel, which
  \<open>json_fuel_enough\<close> shows to suffice. Every other definition is total by structural recursion or a measure. Times are milliseconds without bound, as JavaScript numbers are used far below \<open>2 ^ 53\<close>.

  \<^bold>\<open>Assumptions.\<close> Text is Latin-1 (a HOL character per UTF-16 code unit). Statements of one transaction
  are atomic where the isolation level or a conditional update makes them so; otherwise the operations
  are split and interleaved. The Redis adapter is one list of sockets for all nodes. An argument that stands
  for a library (argon2, JWT, the Gemini call, the upload) has its documented behaviour as a
  named hypothesis where a property needs one, and the witness instantiates it.

  \<^bold>\<open>Not modelled.\<close> Module wiring and logging, the entry points of the four workers, prisma.service.ts (a
  connection that is opened and closed); the wording of validation messages; markup and styles, icons and
  the Open Graph image; the rendering of instants in the reader's locale. In the browser, the moments at which the
  query library fetches again: a fetch is one step, its answer is not overtaken by events, and opening a page
  again with stale queries is the operation \<open>reopen_group\<close>; a search that the library answers from its cache is
  a question like any other.
\<close>

end
